(* ===== verification/Prelude.thy ===== *)
theory Prelude
  imports Main "HOL-Library.Sublist" "HOL-Library.Multiset"
begin

text \<open>
  The shared prelude of the \<^verbatim>\<open>new-delegate\<close> development: the result types the components
  return, the named collections their proofs use, and the generic lemmas on lists, options and
  folds that no library theory has.

  A Go function with results \<^verbatim>\<open>(T, error)\<close> becomes a function into \<open>'e + 't\<close>: \<open>Inl\<close> carries the
  error, \<open>Inr\<close> the value. A Go function with the single result \<^verbatim>\<open>error\<close> becomes a function into
  \<open>'e option\<close>, where \<open>None\<close> is Go's \<^verbatim>\<open>nil\<close>. Error texts are not modelled; every distinct error
  return of the source is a constructor of an error datatype and carries the values the source
  formats into the text.
\<close>

named_theorems go_defs \<open>definitions of the Go library functions\<close>
named_theorems go_loops \<open>equations of the Go library's loops, for evaluating closed terms\<close>
named_theorems seg_simps \<open>facts on segments: splitting and joining of strings\<close>

type_synonym ('e, 'a) result = "'e + 'a"

section \<open>Results\<close>

definition bind_result :: "('e, 'a) result \<Rightarrow> ('a \<Rightarrow> ('e, 'b) result) \<Rightarrow> ('e, 'b) result" where
  "bind_result r k = (case r of Inl e \<Rightarrow> Inl e | Inr a \<Rightarrow> k a)"

definition map_error :: "('e \<Rightarrow> 'f) \<Rightarrow> ('e, 'a) result \<Rightarrow> ('f, 'a) result" where
  "map_error f r = (case r of Inl e \<Rightarrow> Inl (f e) | Inr a \<Rightarrow> Inr a)"

fun is_ok :: "('e, 'a) result \<Rightarrow> bool" where
  "is_ok (Inl e) = False"
| "is_ok (Inr a) = True"

lemma bind_result_simps [simp]:
  "bind_result (Inl e) k = Inl e"
  "bind_result (Inr a) k = k a"
  by (simp_all add: bind_result_def)

lemma bind_result_Inr [simp]:
  "bind_result r k = Inr b \<longleftrightarrow> (\<exists>a. r = Inr a \<and> k a = Inr b)"
  by (cases r) auto

lemma bind_result_Inl:
  "bind_result r k = Inl e \<longleftrightarrow> r = Inl e \<or> (\<exists>a. r = Inr a \<and> k a = Inl e)"
  by (cases r) auto

lemma map_error_simps [simp]:
  "map_error f (Inl e) = Inl (f e)"
  "map_error f (Inr a) = Inr a"
  by (simp_all add: map_error_def)

lemma map_error_Inr [simp]: "map_error f r = Inr a \<longleftrightarrow> r = Inr a"
  by (cases r) auto

lemma is_ok_iff: "is_ok r \<longleftrightarrow> (\<exists>a. r = Inr a)"
  by (cases r) auto

section \<open>Checks in sequence\<close>

text \<open>\<^verbatim>\<open>if err := a; err != nil { return err }\<close> followed by \<open>b\<close>.\<close>

definition check :: "'e option \<Rightarrow> 'e option \<Rightarrow> 'e option" where
  "check a b = (case a of Some e \<Rightarrow> Some e | None \<Rightarrow> b)"

lemma check_simps [simp]:
  "check None b = b"
  "check (Some e) b = Some e"
  by (simp_all add: check_def)

lemma check_None [simp]: "check a b = None \<longleftrightarrow> a = None \<and> b = None"
  by (cases a) auto

lemma check_Some: "check a b = Some e \<longleftrightarrow> a = Some e \<or> a = None \<and> b = Some e"
  by (cases a) auto

lemma if_Some_None [simp]:
  "(if c then Some e else x) = None \<longleftrightarrow> \<not> c \<and> x = None"
  "(if c then x else Some e) = None \<longleftrightarrow> c \<and> x = None"
  by auto

lemma if_None_None [simp]: "(if c then x else None) = None \<longleftrightarrow> (c \<longrightarrow> x = None)"
  by auto

section \<open>Loops that stop at the first error\<close>

text \<open>A \<^verbatim>\<open>for i, x := range xs\<close> loop whose body returns an error or falls through.\<close>

fun first_error :: "(nat \<Rightarrow> 'a \<Rightarrow> 'e option) \<Rightarrow> nat \<Rightarrow> 'a list \<Rightarrow> 'e option" where
  "first_error f i [] = None"
| "first_error f i (x # xs) =
     check (f i x) (first_error f (Suc i) xs)"

lemma first_error_None:
  "first_error f i xs = None \<longleftrightarrow> (\<forall>k < length xs. f (i + k) (xs ! k) = None)"
proof (induction xs arbitrary: i)
  case Nil
  then show ?case by simp
next
  case (Cons x xs)
  then show ?case
    by (auto simp: less_Suc_eq_0_disj)
qed

lemma first_error_None_const:
  "first_error (\<lambda>_. f) i xs = None \<longleftrightarrow> (\<forall>x \<in> set xs. f x = None)"
  by (induction xs arbitrary: i) auto

section \<open>Lists\<close>

lemma sublist_single [simp]: "sublist [c] xs \<longleftrightarrow> c \<in> set xs"
  by (metis in_set_conv_decomp sublist_def append_Cons append_Nil)

lemma prefix_single [simp]: "prefix [c] xs \<longleftrightarrow> xs \<noteq> [] \<and> hd xs = c"
  by (cases xs) auto

lemma suffix_single [simp]: "suffix [c] xs \<longleftrightarrow> xs \<noteq> [] \<and> last xs = c"
  by (cases xs rule: rev_cases) auto

lemma takeWhile_neq_notin [simp]: "c \<notin> set xs \<Longrightarrow> takeWhile (\<lambda>x. x \<noteq> c) xs = xs"
  by (simp add: takeWhile_eq_all_conv) auto

lemma dropWhile_neq_notin [simp]: "c \<notin> set xs \<Longrightarrow> dropWhile (\<lambda>x. x \<noteq> c) xs = []"
  by (simp add: dropWhile_eq_Nil_conv) auto

lemma notin_takeWhile_neq [simp]: "c \<notin> set (takeWhile (\<lambda>x. x \<noteq> c) xs)"
  by (auto dest: set_takeWhileD)

lemma dropWhile_neq_in: "c \<in> set xs \<Longrightarrow> \<exists>ys. dropWhile (\<lambda>x. x \<noteq> c) xs = c # ys"
  by (induction xs) auto

lemma takeWhile_neq_append [simp]: "d \<notin> set k \<Longrightarrow> takeWhile (\<lambda>c. c \<noteq> d) (k @ d # t) = k"
  by (induction k) auto

lemma dropWhile_neq_append [simp]: "d \<notin> set k \<Longrightarrow> dropWhile (\<lambda>c. c \<noteq> d) (k @ d # t) = d # t"
  by (induction k) auto

lemma find_split:
  "find P xs = Some x \<longleftrightarrow> (\<exists>pre post. xs = pre @ x # post \<and> P x \<and> (\<forall>y \<in> set pre. \<not> P y))"
proof (induction xs)
  case (Cons a xs)
  show ?case
  proof (cases "P a")
    case True
    have "pre = []" if "a # xs = pre @ x # post" "\<forall>y \<in> set pre. \<not> P y" for pre post
      using that True by (cases pre) auto
    with True show ?thesis by (metis append_Nil empty_iff empty_set find.simps(2) list.inject option.inject)
  next
    case False
    have "(\<exists>pre post. a # xs = pre @ x # post \<and> P x \<and> (\<forall>y \<in> set pre. \<not> P y)) \<longleftrightarrow>
        (\<exists>pre post. xs = pre @ x # post \<and> P x \<and> (\<forall>y \<in> set pre. \<not> P y))"
      using False by (auto simp: Cons_eq_append_conv) (metis set_ConsD)
    with Cons False show ?thesis by simp
  qed
qed simp

lemma find_append: "find P (xs @ ys) = (case find P xs of None \<Rightarrow> find P ys | Some x \<Rightarrow> Some x)"
  by (induction xs) auto

lemma find_rev_split:
  "find P (rev xs) = Some x \<longleftrightarrow>
     (\<exists>pre post. xs = pre @ x # post \<and> P x \<and> (\<forall>y \<in> set post. \<not> P y))"
proof -
  have "rev xs = pre @ x # post \<longleftrightarrow> xs = rev post @ x # rev pre" for pre post
    by (metis append.assoc append_Cons append_Nil rev.simps(2) rev_append rev_rev_ident)
  then show ?thesis unfolding find_split by (metis rev_rev_ident set_rev)
qed

end
