(* ===== verification/Go_Strings.thy ===== *)
theory Go_Strings
  imports Prelude
begin

text \<open>
  The parts of Go's \<^verbatim>\<open>strings\<close>, \<^verbatim>\<open>strconv\<close>, \<^verbatim>\<open>unicode\<close> and \<^verbatim>\<open>unicode/utf8\<close> packages the program calls.

  A Go string is a sequence of bytes, and \<open>string\<close> here is a list of 8-bit \<open>char\<close>s, so \<open>length\<close> is
  Go's \<^verbatim>\<open>len\<close>. Functions that decode UTF-8 (\<^verbatim>\<open>range\<close> over a string, \<^verbatim>\<open>EqualFold\<close>, \<^verbatim>\<open>ToLower\<close>,
  \<^verbatim>\<open>ValidString\<close>, \<^verbatim>\<open>TrimSpace\<close>) do so here as well. White space is Unicode's. Of the case tables
  only the part that touches ASCII is modelled: the ASCII letters, the Kelvin sign, the long s and
  the dotted and dotless i. Comparing without case is therefore exact as soon as one of the two
  strings is ASCII; two letters outside ASCII are equal only when they are the same rune.
\<close>

section \<open>Bytes\<close>

declare char_of_def [go_loops] bit_Suc_0_iff [go_loops]

abbreviation byte :: "char \<Rightarrow> nat" where
  "byte c \<equiv> of_char c"

definition in_range :: "char \<Rightarrow> char \<Rightarrow> char \<Rightarrow> bool" where
  [go_defs]: "in_range lo hi c \<longleftrightarrow> byte lo \<le> byte c \<and> byte c \<le> byte hi"

definition is_digit :: "char \<Rightarrow> bool" where
  [go_defs]: "is_digit c \<longleftrightarrow> 48 \<le> byte c \<and> byte c \<le> 57"

definition is_ascii :: "string \<Rightarrow> bool" where
  [go_defs]: "is_ascii s \<longleftrightarrow> (\<forall>c \<in> set s. byte c < 128)"

section \<open>Prefixes, suffixes, search\<close>

definition HasPrefix :: "string \<Rightarrow> string \<Rightarrow> bool" where
  [go_defs]: "HasPrefix s p \<longleftrightarrow> prefix p s"

definition HasSuffix :: "string \<Rightarrow> string \<Rightarrow> bool" where
  [go_defs]: "HasSuffix s x \<longleftrightarrow> suffix x s"

definition TrimPrefix :: "string \<Rightarrow> string \<Rightarrow> string" where
  [go_defs]: "TrimPrefix s p = (if HasPrefix s p then drop (length p) s else s)"

definition TrimSuffix :: "string \<Rightarrow> string \<Rightarrow> string" where
  [go_defs]: "TrimSuffix s x = (if HasSuffix s x then take (length s - length x) s else s)"

definition Contains :: "string \<Rightarrow> string \<Rightarrow> bool" where
  [go_defs]: "Contains s t \<longleftrightarrow> sublist t s"

definition ContainsAny :: "string \<Rightarrow> string \<Rightarrow> bool" where
  [go_defs]: "ContainsAny s chars \<longleftrightarrow> list_ex (\<lambda>c. List.member chars c) s"

text \<open>\<^verbatim>\<open>strings.Count\<close> with a one-byte needle.\<close>

definition Count :: "string \<Rightarrow> char \<Rightarrow> nat" where
  [go_defs]: "Count s c = count_list s c"

text \<open>\<^verbatim>\<open>strings.IndexByte\<close> and \<^verbatim>\<open>strings.LastIndexByte\<close>; \<open>None\<close> is Go's \<open>-1\<close>.\<close>

fun IndexByte :: "string \<Rightarrow> char \<Rightarrow> nat option" where
  "IndexByte [] d = None"
| "IndexByte (c # cs) d = (if c = d then Some 0 else map_option Suc (IndexByte cs d))"

fun LastIndexByte :: "string \<Rightarrow> char \<Rightarrow> nat option" where
  "LastIndexByte [] d = None"
| "LastIndexByte (c # cs) d =
     (case LastIndexByte cs d of
        Some i \<Rightarrow> Some (Suc i)
      | None \<Rightarrow> if c = d then Some 0 else None)"

text \<open>\<^verbatim>\<open>strings.Index\<close> with a needle of any length.\<close>

fun Index :: "string \<Rightarrow> string \<Rightarrow> nat option" where
  "Index [] t = (if t = [] then Some 0 else None)"
| "Index (c # cs) t = (if prefix t (c # cs) then Some 0 else map_option Suc (Index cs t))"

text \<open>\<^verbatim>\<open>strings.Cut\<close> with a one-byte separator: before, after, found.\<close>

definition Cut :: "string \<Rightarrow> char \<Rightarrow> string \<times> string \<times> bool" where
  [go_defs]: "Cut s d =
     (if d \<in> set s then (takeWhile (\<lambda>c. c \<noteq> d) s, tl (dropWhile (\<lambda>c. c \<noteq> d) s), True)
      else (s, [], False))"

text \<open>\<^verbatim>\<open>strings.Split\<close> and \<^verbatim>\<open>strings.SplitN\<close> with a one-byte separator, and \<^verbatim>\<open>strings.Join\<close>.\<close>

fun Split :: "string \<Rightarrow> char \<Rightarrow> string list" where
  "Split [] d = [[]]"
| "Split (c # cs) d =
     (if c = d then [] # Split cs d
      else (case Split cs d of [] \<Rightarrow> [[c]] | p # ps \<Rightarrow> (c # p) # ps))"

fun SplitN :: "nat \<Rightarrow> string \<Rightarrow> char \<Rightarrow> string list" where
  "SplitN 0 s d = []"
| "SplitN (Suc 0) s d = [s]"
| "SplitN (Suc (Suc n)) s d =
     (case Cut s d of (before, after, found) \<Rightarrow>
        if found then before # SplitN (Suc n) after d else [s])"

lemma SplitN_three [go_loops]:
  "SplitN 3 s d =
     (case Cut s d of (a, r, f) \<Rightarrow>
        if f then a # (case Cut r d of (b, t, g) \<Rightarrow> if g then [b, t] else [r]) else [s])"
  by (simp add: numeral_3_eq_3 split: prod.split)

fun Join :: "string list \<Rightarrow> string \<Rightarrow> string" where
  "Join [] sep = []"
| "Join [x] sep = x"
| "Join (x # y # ys) sep = x @ sep @ Join (y # ys) sep"

section \<open>UTF-8\<close>

definition RuneError :: nat where
  [go_defs]: "RuneError = 0xFFFD"

text \<open>Continuation bytes, and the range the second byte of a sequence must lie in.\<close>

definition is_cont :: "char \<Rightarrow> bool" where
  [go_defs]: "is_cont c \<longleftrightarrow> 0x80 \<le> byte c \<and> byte c \<le> 0xBF"

definition second_ok :: "nat \<Rightarrow> char \<Rightarrow> bool" where
  [go_defs]: "second_ok b c \<longleftrightarrow>
     (if b = 0xE0 then 0xA0 \<le> byte c \<and> byte c \<le> 0xBF
      else if b = 0xED then 0x80 \<le> byte c \<and> byte c \<le> 0x9F
      else if b = 0xF0 then 0x90 \<le> byte c \<and> byte c \<le> 0xBF
      else if b = 0xF4 then 0x80 \<le> byte c \<and> byte c \<le> 0x8F
      else is_cont c)"

text \<open>
  \<^verbatim>\<open>utf8.DecodeRune\<close>: the rune at the head of a string and how many bytes it takes. \<open>None\<close> is an
  invalid or truncated encoding, for which Go answers \<^verbatim>\<open>(RuneError, 1)\<close>.
\<close>

fun decode_rune :: "string \<Rightarrow> (nat \<times> nat) option" where
  "decode_rune [] = None"
| "decode_rune (c # cs) =
     (let b = byte c in
      if b < 0x80 then Some (b, 1)
      else if 0xC2 \<le> b \<and> b \<le> 0xDF then
        (case cs of c1 # _ \<Rightarrow>
           if is_cont c1 then Some ((b - 0xC0) * 64 + (byte c1 - 0x80), 2) else None
         | _ \<Rightarrow> None)
      else if 0xE0 \<le> b \<and> b \<le> 0xEF then
        (case cs of c1 # c2 # _ \<Rightarrow>
           if second_ok b c1 \<and> is_cont c2
           then Some ((b - 0xE0) * 4096 + (byte c1 - 0x80) * 64 + (byte c2 - 0x80), 3)
           else None
         | _ \<Rightarrow> None)
      else if 0xF0 \<le> b \<and> b \<le> 0xF4 then
        (case cs of c1 # c2 # c3 # _ \<Rightarrow>
           if second_ok b c1 \<and> is_cont c2 \<and> is_cont c3
           then Some ((b - 0xF0) * 262144 + (byte c1 - 0x80) * 4096
                      + (byte c2 - 0x80) * 64 + (byte c3 - 0x80), 4)
           else None
         | _ \<Rightarrow> None)
      else None)"

lemma decode_rune_size: "decode_rune s = Some (r, n) \<Longrightarrow> 0 < n \<and> n \<le> length s"
  by (cases s) (auto simp: Let_def split: if_splits list.splits)

text \<open>The runes a \<^verbatim>\<open>for _, r := range s\<close> loop sees.\<close>

function runes :: "string \<Rightarrow> nat list" where
  "runes s = (if s = [] then [] else
     (case decode_rune s of
        Some (r, n) \<Rightarrow> r # runes (drop n s)
      | None \<Rightarrow> RuneError # runes (tl s)))"
  by pat_completeness auto
termination
  by (relation "measure length") (auto dest: decode_rune_size)

declare runes.simps [simp del, go_loops]

function ValidString :: "string \<Rightarrow> bool" where
  "ValidString s = (if s = [] then True else
     (case decode_rune s of
        Some (r, n) \<Rightarrow> ValidString (drop n s)
      | None \<Rightarrow> False))"
  by pat_completeness auto
termination
  by (relation "measure length") (auto dest: decode_rune_size)

declare ValidString.simps [simp del, go_loops]

text \<open>\<^verbatim>\<open>utf8.AppendRune\<close> for the runes \<^verbatim>\<open>strings.Map\<close> writes back.\<close>

definition encode_rune :: "nat \<Rightarrow> string" where
  [go_defs]: "encode_rune r =
     (if r < 0x80 then [char_of r]
      else if r < 0x800 then [char_of (0xC0 + r div 64), char_of (0x80 + r mod 64)]
      else if r < 0x10000 then
        [char_of (0xE0 + r div 4096), char_of (0x80 + r div 64 mod 64), char_of (0x80 + r mod 64)]
      else
        [char_of (0xF0 + r div 262144), char_of (0x80 + r div 4096 mod 64),
         char_of (0x80 + r div 64 mod 64), char_of (0x80 + r mod 64)])"

section \<open>Letter case\<close>

definition lower_rune :: "nat \<Rightarrow> nat" where
  [go_defs]: "lower_rune r =
     (if 65 \<le> r \<and> r \<le> 90 then r + 32
      else if r = 0x212A then 107
      else if r = 0x130 then 105
      else r)"

definition upper_rune :: "nat \<Rightarrow> nat" where
  [go_defs]: "upper_rune r =
     (if 97 \<le> r \<and> r \<le> 122 then r - 32
      else if r = 0x17F then 83
      else if r = 0x131 then 73
      else r)"

text \<open>The representative of a rune's class under \<^verbatim>\<open>unicode.SimpleFold\<close>.\<close>

definition fold_rune :: "nat \<Rightarrow> nat" where
  [go_defs]: "fold_rune r =
     (if 65 \<le> r \<and> r \<le> 90 then r + 32
      else if r = 0x212A then 107
      else if r = 0x17F then 115
      else r)"

definition ToLower :: "string \<Rightarrow> string" where
  [go_defs]: "ToLower s = concat (map (\<lambda>r. encode_rune (lower_rune r)) (runes s))"

definition ToUpper :: "string \<Rightarrow> string" where
  [go_defs]: "ToUpper s = concat (map (\<lambda>r. encode_rune (upper_rune r)) (runes s))"

definition EqualFold :: "string \<Rightarrow> string \<Rightarrow> bool" where
  [go_defs]: "EqualFold s t \<longleftrightarrow> map fold_rune (runes s) = map fold_rune (runes t)"

section \<open>White space\<close>

text \<open>
  \<^verbatim>\<open>unicode.IsSpace\<close> on the rune at the head of a string, as the number of bytes of that rune, or 0
  when it is no white space. The runes outside ASCII are U+0085, U+00A0, U+1680, U+2000 to U+200A,
  U+2028, U+2029, U+202F, U+205F and U+3000. \<open>space_len_rev\<close> reads the same encodings backwards,
  from the end of a reversed string, as \<^verbatim>\<open>utf8.DecodeLastRune\<close> does.
\<close>

definition ascii_space :: "nat \<Rightarrow> bool" where
  [go_defs]: "ascii_space b \<longleftrightarrow> b = 32 \<or> (9 \<le> b \<and> b \<le> 13)"

definition space3 :: "nat \<Rightarrow> nat \<Rightarrow> nat \<Rightarrow> bool" where
  [go_defs]: "space3 a b c \<longleftrightarrow>
     (a = 0xE1 \<and> b = 0x9A \<and> c = 0x80) \<or>
     (a = 0xE2 \<and> b = 0x80 \<and> (0x80 \<le> c \<and> c \<le> 0x8A \<or> c = 0xA8 \<or> c = 0xA9 \<or> c = 0xAF)) \<or>
     (a = 0xE2 \<and> b = 0x81 \<and> c = 0x9F) \<or>
     (a = 0xE3 \<and> b = 0x80 \<and> c = 0x80)"

definition space2 :: "nat \<Rightarrow> nat \<Rightarrow> bool" where
  [go_defs]: "space2 a b \<longleftrightarrow> a = 0xC2 \<and> (b = 0x85 \<or> b = 0xA0)"

fun space_len :: "string \<Rightarrow> nat" where
  "space_len [] = 0"
| "space_len (a # cs) =
     (if ascii_space (byte a) then 1
      else if byte a < 128 then 0
      else (case cs of
         [] \<Rightarrow> 0
       | b # ds \<Rightarrow> if space2 (byte a) (byte b) then 2
                  else (case ds of [] \<Rightarrow> 0
                        | c # _ \<Rightarrow> if space3 (byte a) (byte b) (byte c) then 3 else 0)))"

fun space_len_rev :: "string \<Rightarrow> nat" where
  "space_len_rev [] = 0"
| "space_len_rev (c # cs) =
     (if ascii_space (byte c) then 1
      else if byte c < 128 then 0
      else (case cs of
         [] \<Rightarrow> 0
       | b # ds \<Rightarrow> if space2 (byte b) (byte c) then 2
                  else (case ds of [] \<Rightarrow> 0
                        | a # _ \<Rightarrow> if space3 (byte a) (byte b) (byte c) then 3 else 0)))"

lemma space_len_le: "space_len s \<le> length s"
  by (cases s) (auto split: list.splits)

lemma space_len_rev_le: "space_len_rev s \<le> length s"
  by (cases s) (auto split: list.splits)

function trim_left :: "string \<Rightarrow> string" where
  "trim_left s = (if space_len s = 0 then s else trim_left (drop (space_len s) s))"
  by pat_completeness auto
termination
proof (relation "measure length", goal_cases)
  case (2 s)
  then show ?case using space_len_le [of s] by (cases s) auto
qed auto

function trim_right_rev :: "string \<Rightarrow> string" where
  "trim_right_rev s = (if space_len_rev s = 0 then s else trim_right_rev (drop (space_len_rev s) s))"
  by pat_completeness auto
termination
proof (relation "measure length", goal_cases)
  case (2 s)
  then show ?case using space_len_rev_le [of s] by (cases s) auto
qed auto

declare trim_left.simps [simp del, go_loops] trim_right_rev.simps [simp del, go_loops]

definition TrimSpace :: "string \<Rightarrow> string" where
  [go_defs]: "TrimSpace s = rev (trim_right_rev (rev (trim_left s)))"

text \<open>\<^verbatim>\<open>strings.IndexFunc(s, unicode.IsSpace) >= 0\<close>.\<close>

fun HasSpace :: "string \<Rightarrow> bool" where
  "HasSpace [] = False"
| "HasSpace (c # cs) = (space_len (c # cs) \<noteq> 0 \<or> HasSpace cs)"

text \<open>\<^verbatim>\<open>strings.Fields\<close>: the maximal runs without white space; \<open>acc\<close> is the field being read.\<close>

function fields_from :: "string \<Rightarrow> string \<Rightarrow> string list" where
  "fields_from acc s =
     (if s = [] then (if acc = [] then [] else [rev acc])
      else if space_len s \<noteq> 0 then
        (if acc = [] then fields_from [] (drop (space_len s) s)
         else rev acc # fields_from [] (drop (space_len s) s))
      else fields_from (hd s # acc) (tl s))"
  by pat_completeness auto
termination
proof (relation "measure (\<lambda>(acc, s). length s)", goal_cases)
  case (2 acc s)
  then show ?case using space_len_le [of s] by (cases s) auto
next
  case (3 acc s)
  then show ?case using space_len_le [of s] by (cases s) auto
qed auto

declare fields_from.simps [simp del, go_loops]

definition Fields :: "string \<Rightarrow> string list" where
  [go_defs]: "Fields s = fields_from [] s"

section \<open>Numbers\<close>

definition digits_value :: "string \<Rightarrow> int" where
  [go_defs]: "digits_value s = foldl (\<lambda>n c. 10 * n + (of_char c - 48)) 0 s"

definition all_digits :: "string \<Rightarrow> bool" where
  [go_defs]: "all_digits s \<longleftrightarrow> s \<noteq> [] \<and> list_all is_digit s"

text \<open>\<^verbatim>\<open>strconv.Atoi\<close> on a 64-bit platform; \<open>None\<close> is its syntax or range error.\<close>

definition Atoi :: "string \<Rightarrow> int option" where
  [go_defs]: "Atoi s =
     (let neg = HasPrefix s ''-'';
          ds = (if HasPrefix s ''-'' \<or> HasPrefix s ''+'' then tl s else s)
      in if \<not> all_digits ds then None
         else let n = (if neg then - digits_value ds else digits_value ds)
              in if - (2 ^ 63) \<le> n \<and> n < 2 ^ 63 then Some n else None)"

text \<open>\<^verbatim>\<open>strconv.ParseUint(s, 10, 16)\<close>: no sign, and a value below \<open>2 ^ 16\<close>.\<close>

definition ParseUint16 :: "string \<Rightarrow> int option" where
  [go_defs]: "ParseUint16 s =
     (if all_digits s \<and> digits_value s < 2 ^ 16 then Some (digits_value s) else None)"

text \<open>Decimal digits of a natural number given as an \<open>int\<close>.\<close>

definition digit_char :: "int \<Rightarrow> char" where
  [go_defs]: "digit_char n = ''0123456789'' ! nat n"

function decimal :: "int \<Rightarrow> string" where
  "decimal n = (if n < 10 then [digit_char n] else decimal (n div 10) @ [digit_char (n mod 10)])"
  by pat_completeness auto
termination
  by (relation "measure nat") auto

declare decimal.simps [simp del, go_loops]

text \<open>\<^verbatim>\<open>strconv.Itoa\<close>, and \<^verbatim>\<open>fmt\<close>'s \<^verbatim>\<open>%d\<close>.\<close>

definition Itoa :: "int \<Rightarrow> string" where
  [go_defs]: "Itoa n = (if n < 0 then CHR ''-'' # decimal (- n) else decimal n)"

section \<open>Facts on splitting and joining\<close>

lemma Split_not_Nil [simp]: "Split s d \<noteq> []"
  by (induction s d rule: Split.induct) (auto split: list.splits)

lemma Split_notin [simp]: "d \<notin> set s \<Longrightarrow> Split s d = [s]"
  by (induction s d rule: Split.induct) auto

lemma Split_append_sep [seg_simps]: "d \<notin> set a \<Longrightarrow> Split (a @ d # s) d = a # Split s d"
  by (induction a) auto

lemma Split_append [seg_simps]: "Split (a @ d # s) d = Split a d @ Split s d"
  by (induction a) (auto simp: hd_append tl_append split: list.splits)

lemma Split_append_plain:
  "d \<notin> set a \<Longrightarrow> Split (a @ s) d = (a @ hd (Split s d)) # tl (Split s d)"
proof (induction a)
  case Nil
  then show ?case by (cases "Split s d") auto
qed auto

lemma Split_segments: "p \<in> set (Split s d) \<Longrightarrow> d \<notin> set p"
proof (induction s d arbitrary: p rule: Split.induct)
  case (2 c cs d)
  then show ?case
    by (cases "Split cs d") (auto split: if_splits)
qed auto

lemma set_Split: "p \<in> set (Split s d) \<Longrightarrow> set p \<subseteq> set s"
proof (induction s d arbitrary: p rule: Split.induct)
  case (2 c cs d)
  obtain q qs where qs: "Split cs d = q # qs" by (cases "Split cs d") auto
  show ?case
  proof (cases "c = d")
    case True
    with 2 show ?thesis by fastforce
  next
    case False
    with 2 qs show ?thesis by fastforce
  qed
qed auto

lemma Join_Cons: "xs \<noteq> [] \<Longrightarrow> Join (x # xs) sep = x @ sep @ Join xs sep"
  by (cases xs) auto

lemma Join_Split [simp]: "Join (Split s d) [d] = s"
proof (induction s d rule: Split.induct)
  case (2 c cs d)
  show ?case
  proof (cases "c = d")
    case True
    with 2 show ?thesis by (simp add: Join_Cons)
  next
    case False
    obtain p ps where ps: "Split cs d = p # ps" by (cases "Split cs d") auto
    with 2 False have "Join (p # ps) [d] = cs" by simp
    then have "Join ((c # p) # ps) [d] = c # cs" by (cases ps) auto
    with False ps show ?thesis by simp
  qed
qed simp

lemma Split_Join:
  assumes "xs \<noteq> []" and "\<And>x. x \<in> set xs \<Longrightarrow> d \<notin> set x"
  shows "Split (Join xs [d]) d = xs"
  using assms
proof (induction xs)
  case (Cons x xs)
  then show ?case by (cases xs) (auto simp: seg_simps)
qed simp

lemma length_Split: "length (Split s d) = Suc (count_list s d)"
proof (induction s d rule: Split.induct)
  case (2 c cs d)
  then show ?case by (cases "Split cs d") auto
qed simp

lemma SplitN_Join_3:
  assumes "c \<notin> set a" "c \<notin> set b"
  shows "SplitN 3 (a @ c # b @ c # s) c = [a, b, s]"
  using assms by (simp add: numeral_3_eq_3 Cut_def takeWhile_tail dropWhile_append)

lemma hd_Split: "hd (Split s d) = takeWhile (\<lambda>c. c \<noteq> d) s"
proof (induction s d rule: Split.induct)
  case (2 c cs d)
  then show ?case by (cases "Split cs d") auto
qed simp

lemma prefix_takeWhile_neq:
  "d \<notin> set t \<Longrightarrow> prefix t (takeWhile (\<lambda>c. c \<noteq> d) s) \<longleftrightarrow> prefix t s"
proof (induction t arbitrary: s)
  case (Cons a t)
  then show ?case by (cases s) auto
qed simp

text \<open>A piece of a string without the separator lies within one segment.\<close>

lemma sublist_Split:
  assumes "t \<noteq> []" and "d \<notin> set t"
  shows "sublist t s \<longleftrightarrow> (\<exists>p \<in> set (Split s d). sublist t p)"
  using assms
proof (induction s d rule: Split.induct)
  case (2 c cs d)
  obtain p ps where ps: "Split cs d = p # ps" by (cases "Split cs d") auto
  have p: "p = takeWhile (\<lambda>x. x \<noteq> d) cs" using hd_Split [of cs d] ps by simp
  show ?case
  proof (cases "c = d")
    case True
    then have "\<not> prefix t (c # cs)" using 2 by (cases t) auto
    with True 2 show ?thesis by (auto simp: sublist_Cons_right)
  next
    case False
    then have "prefix t (c # cs) \<longleftrightarrow> prefix t (c # p)"
      using prefix_takeWhile_neq [OF \<open>d \<notin> set t\<close>, of "c # cs"] p by simp
    with False 2 ps show ?thesis by (auto simp: sublist_Cons_right)
  qed
qed auto

lemma last_Split: "last (Split s d) = [] \<longleftrightarrow> s = [] \<or> last s = d"
proof (induction s d rule: Split.induct)
  case (2 c cs d)
  obtain p ps where p: "Split cs d = p # ps" by (cases "Split cs d") auto
  have "cs = []" if "ps = []" and "p = []" using that p Join_Split [of cs d] by simp
  moreover have "p = []" if "cs = []" using that p by simp
  ultimately show ?case using 2 p by (cases cs) (auto split: if_splits)
qed simp

lemma set_Join: "set (Join xs sep) \<subseteq> set sep \<union> \<Union> (set ` set xs)"
  by (induction xs sep rule: Join.induct) auto

section \<open>Facts on UTF-8\<close>

lemma decode_rune_bytes:
  "decode_rune s = Some (r, n) \<Longrightarrow>
     byte (hd s) < 128 \<and> r = byte (hd s) \<and> n = 1 \<or> (\<forall>c \<in> set (take n s). 128 \<le> byte c)"
  by (cases s)
     (auto simp: Let_def second_ok_def is_cont_def take_Cons' split: if_splits list.splits)

lemma decode_rune_append: "decode_rune s = Some x \<Longrightarrow> decode_rune (s @ t) = Some x"
  by (cases s) (auto simp: Let_def split: if_splits list.splits)

lemma decode_rune_before_ascii:
  assumes "byte d < 128" and "s \<noteq> []" and "decode_rune s = None"
  shows "decode_rune (s @ d # t) = None"
proof -
  have "\<not> is_cont d" "\<And>b. \<not> second_ok b d" using assms(1)
    by (auto simp: is_cont_def second_ok_def split: if_splits)
  with assms(2,3) show ?thesis
    by (cases s) (auto simp: Let_def Cons_eq_append_conv split: if_splits list.splits)
qed

lemma ValidString_Nil [simp]: "ValidString []"
  by (simp add: ValidString.simps)

lemma ValidString_append_ascii:
  assumes d: "byte d < 128"
  shows "ValidString (a @ d # b) \<longleftrightarrow> ValidString a \<and> ValidString b"
proof (induction a rule: ValidString.induct)
  case (1 a)
  show ?case
  proof (cases "a = []")
    case True
    with d show ?thesis by (simp add: ValidString.simps [of "d # b"])
  next
    case False
    show ?thesis
    proof (cases "decode_rune a")
      case None
      with d False show ?thesis
        by (simp add: ValidString.simps [of "a @ d # b"] ValidString.simps [of a]
            decode_rune_before_ascii)
    next
      case (Some x)
      obtain r n where x: "x = (r, n)" by (cases x)
      with Some have n: "n \<le> length a" using decode_rune_size by simp
      have "decode_rune (a @ d # b) = Some (r, n)" using Some x decode_rune_append by simp
      with Some x n False 1 show ?thesis
        by (simp add: ValidString.simps [of "a @ d # b"] ValidString.simps [of a])
    qed
  qed
qed

lemma ValidString_Join:
  assumes d: "byte d < 128"
  shows "ValidString (Join xs [d]) \<longleftrightarrow> (\<forall>x \<in> set xs. ValidString x)"
  by (induction xs "[d]" rule: Join.induct) (auto simp: ValidString_append_ascii [OF d])

lemma ValidString_Split:
  "byte d < 128 \<Longrightarrow> ValidString s \<longleftrightarrow> (\<forall>x \<in> set (Split s d). ValidString x)"
  using ValidString_Join [of d "Split s d"] by simp

text \<open>In a valid string an ASCII byte is a rune of its own.\<close>

lemma ascii_byte_in_runes:
  "ValidString s \<Longrightarrow> c \<in> set s \<Longrightarrow> byte c < 128 \<Longrightarrow> byte c \<in> set (runes s)"
proof (induction s rule: ValidString.induct)
  case (1 s)
  then have ne: "s \<noteq> []" by auto
  with "1.prems" obtain r n where dec: "decode_rune s = Some (r, n)" and v: "ValidString (drop n s)"
    by (auto simp: ValidString.simps [of s] split: option.splits)
  have rs: "runes s = r # runes (drop n s)" using ne dec by (simp add: runes.simps [of s])
  have "c \<in> set (take n s) \<or> c \<in> set (drop n s)"
    using "1.prems"(2) by (metis Un_iff append_take_drop_id set_append)
  then show ?case
  proof
    assume "c \<in> set (drop n s)"
    with 1 ne dec v rs show ?thesis by simp
  next
    assume t: "c \<in> set (take n s)"
    with decode_rune_bytes [OF dec] "1.prems"(3) have "r = byte (hd s)" "n = 1" by auto
    with t ne rs show ?thesis by (cases s) auto
  qed
qed

lemma decode_rune_big:
  "decode_rune s = Some (r, n) \<Longrightarrow> r < 128 \<Longrightarrow> s \<noteq> [] \<and> r = byte (hd s)"
  by (cases s)
     (auto simp: Let_def second_ok_def is_cont_def split: if_splits list.splits)

lemma ascii_rune_is_byte:
  "ValidString s \<Longrightarrow> r \<in> set (runes s) \<Longrightarrow> r < 128 \<Longrightarrow> \<exists>c \<in> set s. byte c = r"
proof (induction s rule: ValidString.induct)
  case (1 s)
  then have ne: "s \<noteq> []" by (auto simp: runes.simps)
  with "1.prems" obtain q n where dec: "decode_rune s = Some (q, n)" and v: "ValidString (drop n s)"
    by (auto simp: ValidString.simps [of s] split: option.splits)
  have "runes s = q # runes (drop n s)" using ne dec by (simp add: runes.simps [of s])
  with "1.prems"(2) consider "r = q" | "r \<in> set (runes (drop n s))" by auto
  then show ?case
  proof cases
    case 1
    with dec \<open>r < 128\<close> show ?thesis using decode_rune_big [of s r n] by (cases s) auto
  next
    case 2
    with "1.IH" ne dec v \<open>r < 128\<close> have "\<exists>c \<in> set (drop n s). byte c = r" by auto
    then show ?thesis by (meson in_set_dropD)
  qed
qed

lemma runes_ascii:
  "(\<And>c. c \<in> set s \<Longrightarrow> byte c < 128) \<Longrightarrow> runes s = map byte s"
proof (induction s)
  case (Cons a s)
  then have "byte a < 128" by simp
  then have "runes (a # s) = byte a # runes s" by (simp add: runes.simps [of "a # s"])
  with Cons show ?case by simp
qed (simp add: runes.simps)

lemma runes_step:
  "s \<noteq> [] \<Longrightarrow> decode_rune s = None \<Longrightarrow> runes s = RuneError # runes (tl s)"
  "s \<noteq> [] \<Longrightarrow> decode_rune s = Some (r, n) \<Longrightarrow> runes s = r # runes (drop n s)"
  by (simp_all add: runes.simps [of s])

lemma runes_all_ascii: "(\<forall>r \<in> set (runes s). r < 128) \<longleftrightarrow> (\<forall>c \<in> set s. byte c < 128)"
proof
  show "\<forall>r \<in> set (runes s). r < 128" if "\<forall>c \<in> set s. byte c < 128"
    using that runes_ascii [of s] by simp
  show "\<forall>c \<in> set s. byte c < 128" if "\<forall>r \<in> set (runes s). r < 128"
    using that
  proof (induction s rule: runes.induct)
    case (1 s)
    show ?case
    proof (cases "s = []")
      case False
      then obtain r n where d: "decode_rune s = Some (r, n)"
        using 1(3) runes_step(1) [of s] by (cases "decode_rune s") (auto simp: RuneError_def)
      then have r: "r < 128" and rest: "\<forall>q \<in> set (runes (drop n s)). q < 128"
        using 1(3) runes_step(2) [OF False d] by auto
      have hd: "byte (hd s) = r" using decode_rune_big [OF d r] by simp
      have "n = 1"
        using decode_rune_bytes [OF d] decode_rune_size [OF d] r hd False by (cases s; cases n) auto
      moreover have "\<forall>c \<in> set (drop n s). byte c < 128" using 1(2) [OF False d refl rest] .
      ultimately show ?thesis using hd r False by (cases s) auto
    qed simp
  qed
qed

section \<open>Facts on numbers\<close>

lemma digit_char_value:
  assumes "0 \<le> n" and "n < 10"
  shows "is_digit (digit_char n) \<and> (of_char (digit_char n) :: int) = 48 + n"
proof -
  have "n \<in> {0, 1, 2, 3, 4, 5, 6, 7, 8, 9}" using assms by simp presburger
  then show ?thesis by (auto simp: digit_char_def is_digit_def)
qed

lemma digits_value_snoc: "digits_value (s @ [c]) = 10 * digits_value s + (of_char c - 48)"
  by (simp add: digits_value_def)

lemma digits_value_nonneg: "list_all is_digit s \<Longrightarrow> 0 \<le> digits_value s"
proof (induction s rule: rev_induct)
  case (snoc c s)
  have "48 \<le> byte c" using snoc.prems by (simp add: is_digit_def)
  then have "(48 :: int) \<le> of_char c" by (metis of_nat_le_iff of_nat_numeral of_nat_of_char)
  with snoc show ?case by (simp add: digits_value_snoc)
qed (simp add: digits_value_def)

lemma decimal_digits: "0 \<le> n \<Longrightarrow> all_digits (decimal n) \<and> digits_value (decimal n) = n"
proof (induction n rule: decimal.induct)
  case (1 n)
  show ?case
  proof (cases "n < 10")
    case True
    then have "decimal n = [digit_char n]" by (simp add: decimal.simps)
    then show ?thesis using digit_char_value [of n] 1 True by (simp add: all_digits_def digits_value_def)
  next
    case False
    then have "decimal n = decimal (n div 10) @ [digit_char (n mod 10)]" by (simp add: decimal.simps)
    then show ?thesis
      using 1 False digit_char_value [of "n mod 10"] by (auto simp: digits_value_snoc all_digits_def)
  qed
qed

lemma all_digits_first: "all_digits s \<Longrightarrow> \<not> HasPrefix s ''-'' \<and> \<not> HasPrefix s ''+''"
  by (cases s) (auto simp: all_digits_def is_digit_def HasPrefix_def)

lemma Atoi_digits: "all_digits s \<Longrightarrow> digits_value s < 2 ^ 63 \<Longrightarrow> 0 \<le> digits_value s \<Longrightarrow> Atoi s = Some (digits_value s)"
  using all_digits_first [of s] by (simp add: Atoi_def)

lemma Atoi_Itoa: "0 \<le> n \<Longrightarrow> n < 2 ^ 63 \<Longrightarrow> Atoi (Itoa n) = Some n"
  using decimal_digits [of n] Atoi_digits [of "decimal n"] by (simp add: Itoa_def)

lemma ParseUint16_Itoa: "0 \<le> n \<Longrightarrow> n < 65536 \<Longrightarrow> ParseUint16 (Itoa n) = Some n"
  using decimal_digits [of n] by (simp add: Itoa_def ParseUint16_def)

lemma Itoa_digits: "0 \<le> n \<Longrightarrow> all_digits (Itoa n)"
  using decimal_digits [of n] by (simp add: Itoa_def)

section \<open>Facts on white space\<close>

lemma TrimSpace_bounds:
  assumes "s \<noteq> []" and "byte (hd s) < 128" "\<not> ascii_space (byte (hd s))"
    and "byte (last s) < 128" "\<not> ascii_space (byte (last s))"
  shows "TrimSpace s = s"
proof -
  have "space_len s = 0" using assms by (cases s) auto
  then have l: "trim_left s = s" by (simp add: trim_left.simps)
  have "space_len_rev (rev s) = 0" using assms by (cases s rule: rev_cases) auto
  then have "trim_right_rev (rev s) = rev s" by (simp add: trim_right_rev.simps)
  with l show ?thesis by (simp add: TrimSpace_def)
qed

lemma TrimSpace_empty [simp]: "TrimSpace [] = []"
  by (simp add: TrimSpace_def trim_left.simps trim_right_rev.simps)

lemma is_digit_plain: "is_digit c \<Longrightarrow> byte c < 128 \<and> \<not> ascii_space (byte c)"
  by (auto simp: is_digit_def ascii_space_def)

lemma TrimSpace_digits: "all_digits s \<Longrightarrow> TrimSpace s = s"
  by (rule TrimSpace_bounds) (auto simp: all_digits_def list_all_iff dest: is_digit_plain hd_in_set last_in_set)

end
