(* ===== verification/Go_Net.thy ===== *)
theory Go_Net
  imports Go_Strings "HOL-Library.Word"
begin

text \<open>
  The parts of Go's \<^verbatim>\<open>net\<close>, \<^verbatim>\<open>net/netip\<close> and \<^verbatim>\<open>path\<close> packages the program calls: splitting and
  joining host and port, parsing, comparing and printing IP addresses and prefixes, and
  \<^verbatim>\<open>path.Clean\<close>. Errors carry no text here; a failed parse is \<open>None\<close>, except for
  \<^verbatim>\<open>SplitHostPort\<close>, whose error is one value.
\<close>

unbundle bit_operations_syntax

section \<open>Host and port\<close>

text \<open>\<^verbatim>\<open>net.SplitHostPort\<close>; \<open>None\<close> is any of its address errors.\<close>

definition SplitHostPort :: "string \<Rightarrow> (string \<times> string) option" where
  [go_defs]: "SplitHostPort hostport =
     (case LastIndexByte hostport CHR '':'' of
        None \<Rightarrow> None
      | Some i \<Rightarrow>
          if HasPrefix hostport ''['' then
            (case IndexByte hostport CHR '']'' of
               None \<Rightarrow> None
             | Some close \<Rightarrow>
                 if close + 1 \<noteq> i then None
                 else if CHR ''['' \<in> set (drop 1 hostport) \<or> CHR '']'' \<in> set (drop (close + 1) hostport)
                 then None
                 else Some (drop 1 (take close hostport), drop (i + 1) hostport))
          else
            (let host = take i hostport in
             if CHR '':'' \<in> set host \<or> CHR ''['' \<in> set hostport \<or> CHR '']'' \<in> set hostport then None
             else Some (host, drop (i + 1) hostport)))"

definition JoinHostPort :: "string \<Rightarrow> string \<Rightarrow> string" where
  [go_defs]: "JoinHostPort host port =
     (if CHR '':'' \<in> set host then ''['' @ host @ '']:'' @ port else host @ '':'' @ port)"

section \<open>Addresses\<close>

text \<open>\<^verbatim>\<open>netip.Addr\<close>: an IPv4 address, or an IPv6 address with a zone (empty for none).\<close>

datatype addr = IPv4 "32 word" | IPv6 "128 word" string

fun BitLen :: "addr \<Rightarrow> nat" where
  "BitLen (IPv4 a) = 32"
| "BitLen (IPv6 a z) = 128"

fun hasZone :: "addr \<Rightarrow> bool" where
  "hasZone (IPv4 a) = False"
| "hasZone (IPv6 a z) = (z \<noteq> [])"

fun Is4 :: "addr \<Rightarrow> bool" where
  "Is4 (IPv4 a) = True"
| "Is4 (IPv6 a z) = False"

text \<open>\<^verbatim>\<open>netip.AddrFrom4\<close> and \<^verbatim>\<open>netip.AddrFrom16\<close> on big-endian byte sequences.\<close>

definition be_value :: "int list \<Rightarrow> int" where
  [go_defs]: "be_value bs = foldl (\<lambda>n b. 256 * n + b) 0 bs"

definition AddrFrom4 :: "int list \<Rightarrow> addr" where
  [go_defs]: "AddrFrom4 bs = IPv4 (of_int (be_value bs))"

definition AddrFrom16 :: "int list \<Rightarrow> addr" where
  [go_defs]: "AddrFrom16 bs = IPv6 (of_int (be_value bs)) []"

text \<open>
  \<^verbatim>\<open>parseIPv4Fields\<close>: four decimal octets of at most 255 with no leading zero, separated by dots.
  \<open>len\<close> counts the digits of the current octet.
\<close>

fun ipv4_fields :: "string \<Rightarrow> int list \<Rightarrow> int \<Rightarrow> nat \<Rightarrow> int list option" where
  "ipv4_fields [] done val len =
     (if length done = 3 \<and> len \<noteq> 0 then Some (done @ [val]) else None)"
| "ipv4_fields (c # cs) done val len =
     (if is_digit c then
        (if len = 1 \<and> val = 0 then None
         else let v = 10 * val + (of_char c - 48) in
              if 255 < v then None else ipv4_fields cs done v (len + 1))
      else if c = CHR ''.'' then
        (if len = 0 \<or> length done = 3 then None else ipv4_fields cs (done @ [val]) 0 0)
      else None)"

definition parseIPv4 :: "string \<Rightarrow> int list option" where
  [go_defs]: "parseIPv4 s = ipv4_fields s [] 0 0"

definition hex_value :: "char \<Rightarrow> int option" where
  [go_defs]: "hex_value c =
     (let b = of_char c in
      if 48 \<le> b \<and> b \<le> 57 then Some (b - 48)
      else if 97 \<le> b \<and> b \<le> 102 then Some (b - 87)
      else if 65 \<le> b \<and> b \<le> 70 then Some (b - 55)
      else None)"

text \<open>The hexadecimal digits at the head of a string: their value, their number, the rest.\<close>

fun hex_run :: "string \<Rightarrow> int \<Rightarrow> nat \<Rightarrow> int \<times> nat \<times> string" where
  "hex_run [] acc n = (acc, n, [])"
| "hex_run (c # cs) acc n =
     (case hex_value c of
        None \<Rightarrow> (acc, n, c # cs)
      | Some v \<Rightarrow> hex_run cs (16 * acc + v) (Suc n))"

lemma hex_run_length: "hex_run s acc n = (v, k, t) \<Longrightarrow> k + length t = n + length s"
  by (induction s acc n rule: hex_run.induct) (auto split: option.splits)

text \<open>
  The loop of \<^verbatim>\<open>parseIPv6\<close>. \<open>bytes\<close> are the bytes read so far, \<open>ell\<close> the position of the ellipsis;
  the result is both at the end of the string. The loop reads at most sixteen bytes.
\<close>

function ipv6_loop :: "string \<Rightarrow> int list \<Rightarrow> nat option \<Rightarrow> (int list \<times> nat option) option" where
  "ipv6_loop s bytes ell =
     (if 16 \<le> length bytes then (if s = [] then Some (bytes, ell) else None)
      else case hex_run s 0 0 of (acc, off, rest) \<Rightarrow>
        if off = 0 \<or> 4 < off then None
        else if rest \<noteq> [] \<and> hd rest = CHR ''.'' then
          (if (ell = None \<and> length bytes \<noteq> 12) \<or> 16 < length bytes + 4 then None
           else (case parseIPv4 s of None \<Rightarrow> None | Some v4 \<Rightarrow> Some (bytes @ v4, ell)))
        else
          (let bs = bytes @ [acc div 256, acc mod 256] in
           if rest = [] then Some (bs, ell)
           else if hd rest \<noteq> CHR '':'' \<or> length rest = 1 then None
           else if rest ! 1 = CHR '':'' then
             (if ell \<noteq> None then None
              else if length rest = 2 then Some (bs, Some (length bs))
              else ipv6_loop (drop 2 rest) bs (Some (length bs)))
           else ipv6_loop (drop 1 rest) bs ell))"
  by pat_completeness auto
termination
  by (relation "measure (\<lambda>(s, bytes, ell). 16 - length bytes)") auto

declare ipv6_loop.simps [simp del, go_loops]

lemma replicate_numeral [go_loops]: "replicate (numeral k) x = x # replicate (pred_numeral k) x"
  by (simp add: numeral_eq_Suc)

text \<open>Filling the ellipsis with zero bytes up to sixteen.\<close>

definition ipv6_expand :: "int list \<Rightarrow> nat option \<Rightarrow> int list option" where
  [go_defs]: "ipv6_expand bytes ell =
     (case ell of
        None \<Rightarrow> if length bytes < 16 then None else Some bytes
      | Some e \<Rightarrow> if 16 \<le> length bytes then None
                 else Some (take e bytes @ replicate (16 - length bytes) 0 @ drop e bytes))"

definition parseIPv6 :: "string \<Rightarrow> addr option" where
  [go_defs]: "parseIPv6 inp =
     (case Cut inp (CHR ''%'') of (s, zone, found) \<Rightarrow>
        if found \<and> zone = [] then None
        else
          (let lead = HasPrefix s ''::'';
               t = (if lead then drop 2 s else s);
               ell = (if lead then Some 0 else None)
           in if lead \<and> t = [] then Some (IPv6 0 zone)
              else (case ipv6_loop t [] ell of
                      None \<Rightarrow> None
                    | Some (bytes, ell') \<Rightarrow>
                        (case ipv6_expand bytes ell' of
                           None \<Rightarrow> None
                         | Some bs \<Rightarrow> Some (IPv6 (of_int (be_value bs)) zone)))))"

text \<open>\<^verbatim>\<open>netip.ParseAddr\<close>: the first dot, colon or percent sign decides the family.\<close>

definition ParseAddr :: "string \<Rightarrow> addr option" where
  [go_defs]: "ParseAddr s =
     (case find (\<lambda>c. c = CHR ''.'' \<or> c = CHR '':'' \<or> c = CHR ''%'') s of
        None \<Rightarrow> None
      | Some c \<Rightarrow>
          if c = CHR ''.'' then map_option AddrFrom4 (parseIPv4 s)
          else if c = CHR '':'' then parseIPv6 s
          else None)"

fun Is4In6 :: "addr \<Rightarrow> bool" where
  "Is4In6 (IPv4 a) = False"
| "Is4In6 (IPv6 a z) = (drop_bit 32 a = 0xFFFF)"

text \<open>\<^verbatim>\<open>Addr.Unmap\<close>: an IPv4-mapped IPv6 address becomes the IPv4 address; its zone is dropped.\<close>

fun Unmap :: "addr \<Rightarrow> addr" where
  "Unmap (IPv4 a) = IPv4 a"
| "Unmap (IPv6 a z) = (if drop_bit 32 a = 0xFFFF then IPv4 (ucast a) else IPv6 a z)"

section \<open>Prefixes\<close>

text \<open>\<^verbatim>\<open>netip.Prefix\<close>: an address without zone and a bit count.\<close>

datatype ip_prefix = Prefix (prefix_addr: addr) (prefix_bits: nat)

definition ParsePrefix :: "string \<Rightarrow> ip_prefix option" where
  [go_defs]: "ParsePrefix s =
     (case LastIndexByte s CHR ''/'' of
        None \<Rightarrow> None
      | Some i \<Rightarrow>
          (case ParseAddr (take i s) of
             None \<Rightarrow> None
           | Some ip \<Rightarrow>
               if hasZone ip then None
               else
                 (let bits = drop (i + 1) s in
                  if 1 < length bits \<and> \<not> (49 \<le> byte (hd bits) \<and> byte (hd bits) \<le> 57) then None
                  else (case Atoi bits of
                          None \<Rightarrow> None
                        | Some n \<Rightarrow>
                            if n < 0 \<or> int (BitLen ip) < n then None
                            else Some (Prefix ip (nat n))))))"

text \<open>\<^verbatim>\<open>Prefix.Contains\<close>: same family, no zone, and equal leading bits.\<close>

fun PrefixContains :: "ip_prefix \<Rightarrow> addr \<Rightarrow> bool" where
  "PrefixContains (Prefix (IPv4 p) bits) (IPv4 a) = (drop_bit (32 - bits) (a XOR p) = 0)"
| "PrefixContains (Prefix (IPv6 p pz) bits) (IPv6 a z) =
     (z = [] \<and> drop_bit (128 - bits) (a XOR p) = 0)"
| "PrefixContains _ _ = False"

section \<open>Printing\<close>

definition hex_char :: "int \<Rightarrow> char" where
  [go_defs]: "hex_char n =
     (if n < 10 then digit_char n
      else if n = 10 then CHR ''a'' else if n = 11 then CHR ''b'' else if n = 12 then CHR ''c''
      else if n = 13 then CHR ''d'' else if n = 14 then CHR ''e'' else CHR ''f'')"

function hexadecimal :: "int \<Rightarrow> string" where
  "hexadecimal n =
     (if n < 16 then [hex_char n] else hexadecimal (n div 16) @ [hex_char (n mod 16)])"
  by pat_completeness auto
termination
  by (relation "measure nat") auto

declare hexadecimal.simps [simp del, go_loops]

definition string4 :: "32 word \<Rightarrow> string" where
  [go_defs]: "string4 a =
     (let n = uint a in
      Join [decimal (n div 16777216), decimal (n div 65536 mod 256),
            decimal (n div 256 mod 256), decimal (n mod 256)] ''.'')"

text \<open>The eight 16-bit groups of an IPv6 address.\<close>

definition groups6 :: "128 word \<Rightarrow> int list" where
  [go_defs]: "groups6 a = map (\<lambda>i. uint a div 65536 ^ i mod 65536) [7, 6, 5, 4, 3, 2, 1, 0]"

definition zero_run :: "int list \<Rightarrow> nat \<Rightarrow> nat" where
  [go_defs]: "zero_run gs i = length (takeWhile (\<lambda>g. g = 0) (drop i gs))"

text \<open>The first longest run of at least two zero groups, as start and end (\<open>255\<close> for none).\<close>

definition longest_zeros :: "int list \<Rightarrow> nat \<times> nat" where
  [go_defs]: "longest_zeros gs =
     foldl (\<lambda>(s, e) i. let l = zero_run gs i in
              if 2 \<le> l \<and> e - s < l then (i, i + l) else (s, e)) (255, 255) [0, 1, 2, 3, 4, 5, 6, 7]"

definition string6 :: "128 word \<Rightarrow> string" where
  [go_defs]: "string6 a =
     (let gs = groups6 a; (s, e) = longest_zeros gs in
      if s = 255 then Join (map hexadecimal gs) '':''
      else Join (map hexadecimal (take s gs)) '':'' @ ''::'' @ Join (map hexadecimal (drop e gs)) '':'')"

fun AddrString :: "addr \<Rightarrow> string" where
  "AddrString (IPv4 a) = string4 a"
| "AddrString (IPv6 a z) =
     (if drop_bit 32 a = 0xFFFF then ''::ffff:'' @ string4 (ucast a) else string6 a)
     @ (if z = [] then [] else CHR ''%'' # z)"

section \<open>Paths\<close>

text \<open>
  \<^verbatim>\<open>path.Clean\<close> on the elements between slashes: empty and \<^verbatim>\<open>.\<close> elements go, \<^verbatim>\<open>..\<close> removes the
  element before it, and stays at the start of a path that is not rooted. \<open>stack\<close> holds the elements
  kept so far, the last one first.
\<close>

fun clean_segments :: "bool \<Rightarrow> string list \<Rightarrow> string list \<Rightarrow> string list" where
  "clean_segments rooted stack [] = rev stack"
| "clean_segments rooted stack (x # xs) =
     (if x = [] \<or> x = ''.'' then clean_segments rooted stack xs
      else if x = ''..'' then
        (case stack of
           [] \<Rightarrow> clean_segments rooted (if rooted then [] else [x]) xs
         | y # ys \<Rightarrow> if y = ''..'' then clean_segments rooted (x # stack) xs
                    else clean_segments rooted ys xs)
      else clean_segments rooted (x # stack) xs)"

definition Clean :: "string \<Rightarrow> string" where
  [go_defs]: "Clean p =
     (if p = [] then ''.''
      else
        (let rooted = HasPrefix p ''/'';
             kept = clean_segments rooted [] (Split p CHR ''/'');
             out = (if rooted then ''/'' else []) @ Join kept ''/''
         in if out = [] then ''.'' else out))"

section \<open>Facts on host and port\<close>

lemma LastIndexByte_None: "LastIndexByte s d = None \<longleftrightarrow> d \<notin> set s"
  by (induction s) (auto split: option.splits)

lemma LastIndexByte_append: "d \<notin> set t \<Longrightarrow> LastIndexByte (s @ d # t) d = Some (length s)"
  by (induction s) (auto simp: LastIndexByte_None split: option.splits)

lemma LastIndexByte_split:
  "LastIndexByte s d = Some i \<Longrightarrow> s = take i s @ d # drop (Suc i) s \<and> d \<notin> set (drop (Suc i) s)"
proof (induction s arbitrary: i)
  case (Cons c s)
  then show ?case by (cases "LastIndexByte s d") (auto simp: LastIndexByte_None split: if_splits)
qed simp

lemma IndexByte_append: "d \<notin> set s \<Longrightarrow> IndexByte (s @ d # t) d = Some (length s)"
  by (induction s) auto

lemma IndexByte_take: "IndexByte s d = Some i \<Longrightarrow> d \<notin> set (take i s)"
  by (induction s arbitrary: i) (auto split: if_splits)

text \<open>A host without brackets and a port without bracket or colon come back from the joined form.\<close>

lemma SplitHostPort_JoinHostPort:
  assumes "CHR ''['' \<notin> set host" "CHR '']'' \<notin> set host"
    and "CHR ''['' \<notin> set port" "CHR '']'' \<notin> set port" "CHR '':'' \<notin> set port"
  shows "SplitHostPort (JoinHostPort host port) = Some (host, port)"
proof (cases "CHR '':'' \<in> set host")
  case True
  have j: "JoinHostPort host port = (''['' @ host @ '']'') @ CHR '':'' # port"
    "JoinHostPort host port = (''['' @ host) @ CHR '']'' # CHR '':'' # port"
    using True by (simp_all add: JoinHostPort_def)
  have "LastIndexByte (JoinHostPort host port) CHR '':'' = Some (length host + 2)"
    unfolding j(1) using assms(5) by (subst LastIndexByte_append) simp_all
  moreover have "IndexByte (JoinHostPort host port) CHR '']'' = Some (length host + 1)"
    unfolding j(2) using assms(2) by (subst IndexByte_append) simp_all
  moreover have "HasPrefix (JoinHostPort host port) ''[''" unfolding j(1) by (simp add: HasPrefix_def)
  ultimately show ?thesis using assms by (simp add: SplitHostPort_def) (simp add: j(1))
next
  case False
  have j: "JoinHostPort host port = host @ CHR '':'' # port" using False by (simp add: JoinHostPort_def)
  have "LastIndexByte (JoinHostPort host port) CHR '':'' = Some (length host)"
    unfolding j using assms(5) by (rule LastIndexByte_append)
  moreover have "\<not> HasPrefix (JoinHostPort host port) ''[''"
    unfolding j using assms(1) by (cases host) (auto simp: HasPrefix_def)
  ultimately show ?thesis using assms False by (simp add: SplitHostPort_def) (simp add: j)
qed

end
