(* ===== verification/Go_URL.thy ===== *)
theory Go_URL
  imports Go_Net
begin

text \<open>
  Go's \<^verbatim>\<open>net/url\<close>: percent decoding and encoding, \<^verbatim>\<open>url.Parse\<close>, \<^verbatim>\<open>url.ParseRequestURI\<close>, \<^verbatim>\<open>EscapedPath\<close>,
  \<^verbatim>\<open>Hostname\<close> and \<^verbatim>\<open>String\<close>, as in the Go release line the program's \<^verbatim>\<open>go.mod\<close> asks for (host
  components with stray colons are refused, and only IPv6 literals may stand in brackets). A
  failed parse is \<open>None\<close>: the program never looks into these errors.
\<close>

section \<open>Percent encoding\<close>

datatype encoding = encodePath | encodePathSegment | encodeHost | encodeZone | encodeUserPassword
  | encodeFragment

definition is_alnum :: "char \<Rightarrow> bool" where
  [go_defs]: "is_alnum c \<longleftrightarrow>
     (let b = byte c in 97 \<le> b \<and> b \<le> 122 \<or> 65 \<le> b \<and> b \<le> 90 \<or> 48 \<le> b \<and> b \<le> 57)"

abbreviation host_chars :: string where
  "host_chars \<equiv> ''!$&'' @ [CHR 0x27] @ ''()*+,;=:[]<>'' @ [CHR 0x22]"

definition shouldEscape :: "char \<Rightarrow> encoding \<Rightarrow> bool" where
  [go_defs]: "shouldEscape c mode =
     (if is_alnum c then False
      else if (mode = encodeHost \<or> mode = encodeZone) \<and> List.member host_chars c then False
      else if List.member ''-_.~'' c then False
      else if List.member ''$&+,/:;=?@'' c then
        (case mode of
           encodePath \<Rightarrow> c = CHR ''?''
         | encodePathSegment \<Rightarrow> List.member ''/;,?'' c
         | encodeUserPassword \<Rightarrow> List.member ''@/?:'' c
         | encodeFragment \<Rightarrow> False
         | _ \<Rightarrow> True)
      else if mode = encodeFragment \<and> List.member ''!()*'' c then False
      else True)"

text \<open>The byte a pair of hexadecimal digits stands for.\<close>

definition hex_pair :: "char \<Rightarrow> char \<Rightarrow> int option" where
  [go_defs]: "hex_pair h l =
     (case (hex_value h, hex_value l) of
        (Some a, Some b) \<Rightarrow> Some (16 * a + b)
      | _ \<Rightarrow> None)"

text \<open>
  \<^verbatim>\<open>unescape\<close>. In a host only bytes outside ASCII and the percent sign may be encoded, and every
  other byte must be one a host may hold; a zone may also encode the blank and what a host may hold.
\<close>

definition escape_allowed :: "encoding \<Rightarrow> int \<Rightarrow> bool" where
  [go_defs]: "escape_allowed mode v \<longleftrightarrow>
     (if mode = encodeHost then 128 \<le> v \<or> v = 37
      else if mode = encodeZone then v = 37 \<or> v = 32 \<or> \<not> shouldEscape (char_of v) encodeHost
      else True)"

definition plain_allowed :: "encoding \<Rightarrow> char \<Rightarrow> bool" where
  [go_defs]: "plain_allowed mode c \<longleftrightarrow>
     \<not> ((mode = encodeHost \<or> mode = encodeZone) \<and> byte c < 128 \<and> shouldEscape c mode)"

fun unescape :: "encoding \<Rightarrow> string \<Rightarrow> string option" where
  "unescape mode [] = Some []"
| "unescape mode (c # cs) =
     (if c = CHR ''%'' then
        (case cs of
           h # l # rest \<Rightarrow>
             (case hex_pair h l of
                None \<Rightarrow> None
              | Some v \<Rightarrow>
                  if escape_allowed mode v
                  then map_option ((#) (char_of v)) (unescape mode rest)
                  else None)
         | _ \<Rightarrow> None)
      else if plain_allowed mode c then map_option ((#) c) (unescape mode cs)
      else None)"

definition PathUnescape :: "string \<Rightarrow> string option" where
  [go_defs]: "PathUnescape s = unescape encodePathSegment s"

definition upper_hex :: "int \<Rightarrow> char" where
  [go_defs]: "upper_hex n =
     (if n < 10 then digit_char n
      else if n = 10 then CHR ''A'' else if n = 11 then CHR ''B'' else if n = 12 then CHR ''C''
      else if n = 13 then CHR ''D'' else if n = 14 then CHR ''E'' else CHR ''F'')"

definition escape :: "encoding \<Rightarrow> string \<Rightarrow> string" where
  [go_defs]: "escape mode s =
     concat (map (\<lambda>c. if shouldEscape c mode
                      then [CHR ''%'', upper_hex (of_char c div 16), upper_hex (of_char c mod 16)]
                      else [c]) s)"

text \<open>\<^verbatim>\<open>validEncoded\<close>, which decides whether a raw path may be reused as written.\<close>

definition validEncoded :: "string \<Rightarrow> encoding \<Rightarrow> bool" where
  [go_defs]: "validEncoded s mode \<longleftrightarrow>
     list_all (\<lambda>c. List.member (''!$&'' @ [CHR 0x27] @ ''()*+,;=:@[]%'') c \<or> \<not> shouldEscape c mode) s"

section \<open>Parsing\<close>

record url =
  Scheme :: string
  Opaque :: string
  User :: "(string \<times> string option) option"
  Host :: string
  Path :: string
  RawPath :: string
  OmitHost :: bool
  ForceQuery :: bool
  RawQuery :: string
  Fragment :: string
  RawFragment :: string

definition empty_url :: url where
  [go_defs]: "empty_url = \<lparr>Scheme = [], Opaque = [], User = None, Host = [], Path = [], RawPath = [],
     OmitHost = False, ForceQuery = False, RawQuery = [], Fragment = [], RawFragment = []\<rparr>"

text \<open>\<^verbatim>\<open>getScheme\<close>: \<open>None\<close> is the missing scheme before a leading colon.\<close>

fun scheme_end :: "string \<Rightarrow> nat \<Rightarrow> nat option option" where
  "scheme_end [] i = Some None"
| "scheme_end (c # cs) i =
     (let b = byte c in
      if 97 \<le> b \<and> b \<le> 122 \<or> 65 \<le> b \<and> b \<le> 90 then scheme_end cs (Suc i)
      else if 48 \<le> b \<and> b \<le> 57 \<or> List.member ''+-.'' c then
        (if i = 0 then Some None else scheme_end cs (Suc i))
      else if c = CHR '':'' then (if i = 0 then None else Some (Some i))
      else Some None)"

definition getScheme :: "string \<Rightarrow> (string \<times> string) option" where
  [go_defs]: "getScheme s =
     (case scheme_end s 0 of
        None \<Rightarrow> None
      | Some None \<Rightarrow> Some ([], s)
      | Some (Some i) \<Rightarrow> Some (take i s, drop (i + 1) s))"

definition has_ctl_byte :: "string \<Rightarrow> bool" where
  [go_defs]: "has_ctl_byte s \<longleftrightarrow> list_ex (\<lambda>c. byte c < 32 \<or> byte c = 127) s"

definition validOptionalPort :: "string \<Rightarrow> bool" where
  [go_defs]: "validOptionalPort p \<longleftrightarrow> p = [] \<or> (hd p = CHR '':'' \<and> list_all is_digit (tl p))"

text \<open>The bracketed form of \<^verbatim>\<open>parseHost\<close>: an IPv6 literal, with an optional zone and port.\<close>

definition parse_ip_literal :: "string \<Rightarrow> string option" where
  [go_defs]: "parse_ip_literal host =
     (case LastIndexByte host CHR '']'' of
        None \<Rightarrow> None
      | Some close \<Rightarrow>
          (let colonPort = drop (close + 1) host;
               hostname = drop 1 (take close host)
           in if \<not> validOptionalPort colonPort then None
              else
                (case (case Index hostname ''%25'' of
                         None \<Rightarrow> unescape encodeHost hostname
                       | Some z \<Rightarrow>
                           (case (unescape encodeHost (take z hostname), unescape encodeZone (drop z hostname)) of
                              (Some a, Some b) \<Rightarrow> Some (a @ b)
                            | _ \<Rightarrow> None)) of
                   None \<Rightarrow> None
                 | Some h \<Rightarrow>
                     (case ParseAddr h of
                        None \<Rightarrow> None
                      | Some a \<Rightarrow> if Is4 a then None else Some (''['' @ h @ '']'' @ colonPort)))))"

definition parseHost :: "string \<Rightarrow> string \<Rightarrow> string option" where
  [go_defs]: "parseHost scheme host =
     (case LastIndexByte host CHR ''['' of
        Some open_at \<Rightarrow> if 0 < open_at then None else parse_ip_literal host
      | None \<Rightarrow>
          (case IndexByte host CHR '':'' of
             None \<Rightarrow> unescape encodeHost host
           | Some i \<Rightarrow>
               (let multi = (scheme = ''postgresql'' \<or> scheme = ''postgres'');
                    at = (if multi then the (LastIndexByte host CHR '':'') else i)
                in if validOptionalPort (drop at host) then unescape encodeHost host else None)))"

definition validUserinfo :: "string \<Rightarrow> bool" where
  [go_defs]: "validUserinfo s \<longleftrightarrow>
     list_all (\<lambda>c. is_alnum c \<or> List.member (''-._:~!$&'' @ [CHR 0x27] @ ''()*+,;=%@'') c) s"

definition parse_userinfo :: "string \<Rightarrow> (string \<times> string option) option" where
  [go_defs]: "parse_userinfo s =
     (if \<not> validUserinfo s then None
      else (case Cut s CHR '':'' of (name, pass, found) \<Rightarrow>
        (case unescape encodeUserPassword name of
           None \<Rightarrow> None
         | Some n \<Rightarrow>
             if \<not> found then Some (n, None)
             else map_option (\<lambda>p. (n, Some p)) (unescape encodeUserPassword pass))))"

definition parseAuthority :: "string \<Rightarrow> string \<Rightarrow> ((string \<times> string option) option \<times> string) option" where
  [go_defs]: "parseAuthority scheme authority =
     (case LastIndexByte authority CHR ''@'' of
        None \<Rightarrow> map_option (Pair None) (parseHost scheme authority)
      | Some i \<Rightarrow>
          (case parseHost scheme (drop (i + 1) authority) of
             None \<Rightarrow> None
           | Some h \<Rightarrow> map_option (\<lambda>u. (Some u, h)) (parse_userinfo (take i authority))))"

definition setPath :: "url \<Rightarrow> string \<Rightarrow> url option" where
  [go_defs]: "setPath u p =
     (case unescape encodePath p of
        None \<Rightarrow> None
      | Some q \<Rightarrow> Some (u\<lparr>Path := q, RawPath := (if escape encodePath q = p then [] else p)\<rparr>))"

text \<open>The part of \<^verbatim>\<open>parse\<close> after the scheme and the query are cut off.\<close>

definition parse_rest :: "bool \<Rightarrow> url \<Rightarrow> string \<Rightarrow> url option" where
  [go_defs]: "parse_rest viaRequest u rest =
     (if \<not> HasPrefix rest ''/'' \<and> Scheme u \<noteq> [] then Some (u\<lparr>Opaque := rest\<rparr>)
      else if \<not> HasPrefix rest ''/'' \<and> viaRequest then None
      else if \<not> HasPrefix rest ''/'' \<and> CHR '':'' \<in> set (fst (Cut rest CHR ''/'')) then None
      else if (Scheme u \<noteq> [] \<or> \<not> viaRequest \<and> \<not> HasPrefix rest ''///'') \<and> HasPrefix rest ''//'' then
        (let authority = takeWhile (\<lambda>c. c \<noteq> CHR ''/'') (drop 2 rest);
             after = dropWhile (\<lambda>c. c \<noteq> CHR ''/'') (drop 2 rest)
         in (case parseAuthority (Scheme u) authority of
               None \<Rightarrow> None
             | Some (usr, h) \<Rightarrow> setPath (u\<lparr>User := usr, Host := h\<rparr>) after))
      else setPath (u\<lparr>OmitHost := (Scheme u \<noteq> [] \<and> HasPrefix rest ''/'')\<rparr>) rest)"

definition url_parse :: "bool \<Rightarrow> string \<Rightarrow> url option" where
  [go_defs]: "url_parse viaRequest s =
     (if has_ctl_byte s then None
      else if s = [] \<and> viaRequest then None
      else if s = ''*'' then Some (empty_url\<lparr>Path := ''*''\<rparr>)
      else
        (case getScheme s of
           None \<Rightarrow> None
         | Some (sch, rest) \<Rightarrow>
             (let u = empty_url\<lparr>Scheme := ToLower sch\<rparr> in
              if HasSuffix rest ''?'' \<and> Count rest CHR ''?'' = 1
              then parse_rest viaRequest (u\<lparr>ForceQuery := True\<rparr>) (butlast rest)
              else (case Cut rest CHR ''?'' of (r, q, _) \<Rightarrow>
                      parse_rest viaRequest (u\<lparr>RawQuery := q\<rparr>) r))))"

definition url_Parse :: "string \<Rightarrow> url option" where
  [go_defs]: "url_Parse s =
     (case Cut s CHR ''#'' of (v, frag, _) \<Rightarrow>
        (case url_parse False v of
           None \<Rightarrow> None
         | Some u \<Rightarrow>
             if frag = [] then Some u
             else map_option (\<lambda>f. u\<lparr>Fragment := f,
                      RawFragment := (if escape encodeFragment f = frag then [] else frag)\<rparr>)
                    (unescape encodeFragment frag)))"

definition ParseRequestURI :: "string \<Rightarrow> url option" where
  [go_defs]: "ParseRequestURI s = url_parse True s"

section \<open>Reading a parsed URL\<close>

definition IsAbs :: "url \<Rightarrow> bool" where
  [go_defs]: "IsAbs u \<longleftrightarrow> Scheme u \<noteq> []"

definition EscapedPath :: "url \<Rightarrow> string" where
  [go_defs]: "EscapedPath u =
     (if RawPath u \<noteq> [] \<and> validEncoded (RawPath u) encodePath
         \<and> unescape encodePath (RawPath u) = Some (Path u)
      then RawPath u
      else if Path u = ''*'' then ''*''
      else escape encodePath (Path u))"

definition EscapedFragment :: "url \<Rightarrow> string" where
  [go_defs]: "EscapedFragment u =
     (if RawFragment u \<noteq> [] \<and> validEncoded (RawFragment u) encodeFragment
         \<and> unescape encodeFragment (RawFragment u) = Some (Fragment u)
      then RawFragment u
      else escape encodeFragment (Fragment u))"

definition Hostname :: "url \<Rightarrow> string" where
  [go_defs]: "Hostname u =
     (let h = Host u;
          h' = (case LastIndexByte h CHR '':'' of
                  Some i \<Rightarrow> if validOptionalPort (drop i h) then take i h else h
                | None \<Rightarrow> h)
      in if HasPrefix h' ''['' \<and> HasSuffix h' '']'' then drop 1 (butlast h') else h')"

definition UserString :: "(string \<times> string option) \<Rightarrow> string" where
  [go_defs]: "UserString ui =
     (let name = escape encodeUserPassword (fst ui) in
      if fst ui = [] \<and> snd ui = None then []
      else (case snd ui of
              None \<Rightarrow> name
            | Some p \<Rightarrow> name @ '':'' @ escape encodeUserPassword p))"

definition URLString :: "url \<Rightarrow> string" where
  [go_defs]: "URLString u =
     (let scheme = (if Scheme u = [] then [] else Scheme u @ '':'');
          authority =
            (if Scheme u \<noteq> [] \<or> Host u \<noteq> [] \<or> User u \<noteq> None then
               (if OmitHost u \<and> Host u = [] \<and> User u = None then []
                else (if Host u \<noteq> [] \<or> Path u \<noteq> [] \<or> User u \<noteq> None then ''//'' else [])
                     @ (case User u of None \<Rightarrow> [] | Some ui \<Rightarrow> UserString ui @ ''@'')
                     @ escape encodeHost (Host u))
             else []);
          path = EscapedPath u;
          slash = (if path \<noteq> [] \<and> hd path \<noteq> CHR ''/'' \<and> Host u \<noteq> [] then ''/'' else []);
          head = scheme @ authority @ slash;
          dot = (if head = [] \<and> CHR '':'' \<in> set (fst (Cut path CHR ''/'')) then ''./'' else [])
      in (if Opaque u \<noteq> [] then scheme @ Opaque u else head @ dot @ path)
         @ (if ForceQuery u \<or> RawQuery u \<noteq> [] then ''?'' @ RawQuery u else [])
         @ (if Fragment u = [] then [] else ''#'' @ EscapedFragment u))"

end
