(* ===== verification/Mount_Path.thy ===== *)
theory Mount_Path
  imports Go_URL
begin

text \<open>
  \<^verbatim>\<open>mount/path.go\<close>: decoding and canonicalisation of request paths. The lemmas show that a path that
  passes is absolute, has no dot, empty or traversal segment, no backslash, no control byte and no
  percent escape left, and that decoding has neither added nor removed a separator.
\<close>

section \<open>Hexadecimal digits\<close>

definition hexNibble :: "char \<Rightarrow> int option" where
  "hexNibble value =
     (let b = of_char value in
      if 48 \<le> b \<and> b \<le> 57 then Some (b - 48)
      else if 97 \<le> b \<and> b \<le> 102 then Some (b - 97 + 10)
      else if 65 \<le> b \<and> b \<le> 70 then Some (b - 65 + 10)
      else None)"

text \<open>Both nibbles are below 16, so \<^verbatim>\<open>hi<<4 | lo\<close> on bytes is \<open>16 * hi + lo\<close>.\<close>

definition decodeHexByte :: "char \<Rightarrow> char \<Rightarrow> int option" where
  "decodeHexByte high low =
     (case hexNibble high of
        None \<Rightarrow> None
      | Some hi \<Rightarrow> (case hexNibble low of None \<Rightarrow> None | Some lo \<Rightarrow> Some (16 * hi + lo)))"

text \<open>
  The two scanning loops, with the string from the index on as argument: they run while three bytes
  are left. \<open>hasEncodedSeparator\<close> steps over the two bytes behind a percent sign whatever they are;
  \<open>containsPercentEscape\<close> does not.
\<close>

fun hasEncodedSeparator :: "string \<Rightarrow> bool" where
  "hasEncodedSeparator (a # b # c # rest) =
     (if a \<noteq> CHR ''%'' then hasEncodedSeparator (b # c # rest)
      else if decodeHexByte b c = Some 47 \<or> decodeHexByte b c = Some 92 then True
      else hasEncodedSeparator rest)"
| "hasEncodedSeparator _ = False"

fun containsPercentEscape :: "string \<Rightarrow> bool" where
  "containsPercentEscape (a # b # c # rest) =
     (if a \<noteq> CHR ''%'' then containsPercentEscape (b # c # rest)
      else if decodeHexByte b c \<noteq> None then True
      else containsPercentEscape (b # c # rest))"
| "containsPercentEscape _ = False"

section \<open>Normalisation\<close>

datatype path_error =
    PathNotAbsolute
  | PathEncodedSeparator
  | PathInvalidEscape
  | PathNotUTF8
  | PathBackslash
  | PathControlCharacter
  | PathDoubleEncoding
  | PathTraversal string

definition NormalizePath :: "string \<Rightarrow> (path_error, string) result" where
  "NormalizePath raw =
     (if \<not> HasPrefix raw ''/'' then Inl PathNotAbsolute
      else if hasEncodedSeparator raw then Inl PathEncodedSeparator
      else (case PathUnescape raw of
        None \<Rightarrow> Inl PathInvalidEscape
      | Some decoded \<Rightarrow>
          if \<not> ValidString decoded then Inl PathNotUTF8
          else if Contains decoded [CHR 0x5C] then Inl PathBackslash
          else if list_ex (\<lambda>r. r < 0x20 \<or> r = 0x7f) (runes decoded) then Inl PathControlCharacter
          else if containsPercentEscape decoded then Inl PathDoubleEncoding
          else (case find (\<lambda>segment. segment = ''.'' \<or> segment = ''..'') (Split decoded CHR ''/'') of
            Some segment \<Rightarrow> Inl (PathTraversal segment)
          | None \<Rightarrow>
              (let trailingSlash = HasSuffix decoded ''/'';
                   normalized = Clean decoded
               in Inr (if trailingSlash \<and> normalized \<noteq> ''/'' then normalized @ ''/'' else normalized)))))"

lemmas path_eval = NormalizePath_def decodeHexByte_def hexNibble_def go_defs go_loops

section \<open>Escapes\<close>

lemma hexNibble_hex_value: "hexNibble c = hex_value c"
  by (simp add: hexNibble_def hex_value_def Let_def)

lemma decodeHexByte_hex_pair: "decodeHexByte h l = hex_pair h l"
  by (auto simp: decodeHexByte_def hex_pair_def hexNibble_hex_value split: option.splits)

lemma slash_not_hex: "decodeHexByte h l \<noteq> None \<Longrightarrow> h \<noteq> CHR ''/'' \<and> l \<noteq> CHR ''/''"
  by (auto simp: decodeHexByte_def hexNibble_def Let_def split: option.splits)

lemma containsPercentEscape_iff:
  "containsPercentEscape s \<longleftrightarrow> (\<exists>h l. decodeHexByte h l \<noteq> None \<and> sublist [CHR ''%'', h, l] s)"
proof (induction s rule: containsPercentEscape.induct)
  case (1 a b c rest)
  have split: "(\<exists>h l. decodeHexByte h l \<noteq> None \<and> sublist [CHR ''%'', h, l] (a # b # c # rest)) \<longleftrightarrow>
      (a = CHR ''%'' \<and> decodeHexByte b c \<noteq> None) \<or>
      (\<exists>h l. decodeHexByte h l \<noteq> None \<and> sublist [CHR ''%'', h, l] (b # c # rest))"
    by (subst sublist_Cons_right) auto
  show ?case
    unfolding split using 1 by (cases "a = CHR ''%''"; cases "decodeHexByte b c") simp_all
qed (auto simp: sublist_Cons_right)

text \<open>An escape never spans a separator, so it lies within a segment.\<close>

lemma containsPercentEscape_segment:
  "containsPercentEscape s \<longleftrightarrow> (\<exists>p \<in> set (Split s CHR ''/''). containsPercentEscape p)"
proof -
  have "sublist [CHR ''%'', h, l] s \<longleftrightarrow> (\<exists>p \<in> set (Split s CHR ''/''). sublist [CHR ''%'', h, l] p)"
    if "decodeHexByte h l \<noteq> None" for h l
    using slash_not_hex [OF that] by (intro sublist_Split) auto
  then show ?thesis unfolding containsPercentEscape_iff by blast
qed

text \<open>
  Decoding keeps every literal slash and, when no separator is encoded, makes no new one: the
  segments of the decoded path are the decoded segments of the raw path.
\<close>

lemma PathUnescape_Cons:
  "PathUnescape (c # cs) =
     (if c = CHR ''%'' then
        (case cs of
           h # l # rest \<Rightarrow> (case decodeHexByte h l of
               None \<Rightarrow> None
             | Some v \<Rightarrow> map_option ((#) (char_of v)) (PathUnescape rest))
         | _ \<Rightarrow> None)
      else map_option ((#) c) (PathUnescape cs))"
  by (auto simp: PathUnescape_def plain_allowed_def escape_allowed_def decodeHexByte_hex_pair
      split: list.splits option.splits)

lemma PathUnescape_Nil [simp]: "PathUnescape [] = Some []"
  by (simp add: PathUnescape_def)

lemma decodeHexByte_range: "decodeHexByte h l = Some v \<Longrightarrow> 0 \<le> v \<and> v < 256"
  by (auto simp: decodeHexByte_def hexNibble_def Let_def split: option.splits if_splits)

lemma char_of_slash: "0 \<le> v \<Longrightarrow> v < 256 \<Longrightarrow> char_of v = CHR ''/'' \<longleftrightarrow> v = (47::int)"
proof
  assume v: "0 \<le> v" "v < 256" and "char_of v = CHR ''/''"
  then have "of_char (char_of v) = (47::int)" by simp
  with v show "v = 47" by simp
qed (simp add: char_of_def)

lemma PathUnescape_segments:
  "PathUnescape raw = Some d \<Longrightarrow> \<not> hasEncodedSeparator raw \<Longrightarrow>
   map PathUnescape (Split raw CHR ''/'') = map Some (Split d CHR ''/'')"
proof (induction raw arbitrary: d rule: length_induct)
  case (1 raw)
  show ?case
  proof (cases raw)
    case Nil
    with 1 show ?thesis by (simp add: PathUnescape_def)
  next
    case (Cons c cs)
    show ?thesis
    proof (cases "c = CHR ''%''")
      case True
      with "1.prems"(1) Cons obtain h l rest v e where cs: "cs = h # l # rest"
        and v: "decodeHexByte h l = Some v" and e: "PathUnescape rest = Some e"
        and d: "d = char_of v # e"
        by (auto simp: PathUnescape_Cons split: list.splits option.splits)
      have sl: "h \<noteq> CHR ''/''" "l \<noteq> CHR ''/''" using slash_not_hex [of h l] v by auto
      have "v \<noteq> 47" and enc: "\<not> hasEncodedSeparator rest"
        using "1.prems"(2) Cons cs True v by (auto split: if_splits)
      with decodeHexByte_range [OF v] have ns: "char_of v \<noteq> CHR ''/''" by (simp add: char_of_slash)
      have IH: "map PathUnescape (Split rest CHR ''/'') = map Some (Split e CHR ''/'')"
        using "1.IH" Cons cs e enc by simp
      obtain p ps q qs where "Split rest CHR ''/'' = p # ps" "Split e CHR ''/'' = q # qs"
        by (meson Split_not_Nil neq_Nil_conv)
      with IH True Cons cs d sl ns v show ?thesis by (simp add: PathUnescape_Cons)
    next
      case False
      with "1.prems"(1) Cons obtain e where e: "PathUnescape cs = Some e" and d: "d = c # e"
        by (auto simp: PathUnescape_Cons)
      have enc: "\<not> hasEncodedSeparator cs"
        using "1.prems"(2) Cons False by (cases cs; cases "tl cs") auto
      have IH: "map PathUnescape (Split cs CHR ''/'') = map Some (Split e CHR ''/'')"
        using "1.IH" Cons e enc by simp
      obtain p ps q qs where "Split cs CHR ''/'' = p # ps" "Split e CHR ''/'' = q # qs"
        by (meson Split_not_Nil neq_Nil_conv)
      with IH False Cons d show ?thesis
        by (auto simp: PathUnescape_Cons)
    qed
  qed
qed

section \<open>Canonical paths\<close>

text \<open>Slash-separated segments, none empty and none a dot segment, perhaps with a trailing slash.\<close>

definition path_of :: "string list \<Rightarrow> bool \<Rightarrow> string" where
  "path_of segs trailing = ''/'' @ Join segs ''/'' @ (if trailing \<and> segs \<noteq> [] then ''/'' else [])"

definition plain_segment :: "string \<Rightarrow> bool" where
  "plain_segment s \<longleftrightarrow> s \<noteq> [] \<and> s \<noteq> ''.'' \<and> s \<noteq> ''..'' \<and> CHR ''/'' \<notin> set s"

lemma clean_segments_plain:
  "(\<And>x. x \<in> set xs \<Longrightarrow> x \<noteq> ''.'' \<and> x \<noteq> ''..'') \<Longrightarrow>
   clean_segments rooted stack xs = rev stack @ filter (\<lambda>x. x \<noteq> []) xs"
  by (induction xs arbitrary: stack) auto

lemma Split_path_of:
  assumes "\<And>s. s \<in> set segs \<Longrightarrow> plain_segment s"
  shows "Split (path_of segs trailing) CHR ''/'' =
    [] # (if segs = [] then [[]] else segs @ (if trailing then [[]] else []))"
proof (cases "segs = []")
  case True
  then show ?thesis by (simp add: path_of_def)
next
  case False
  have ns: "\<And>s. s \<in> set segs \<Longrightarrow> CHR ''/'' \<notin> set s" using assms by (auto simp: plain_segment_def)
  have tr: "Join segs ''/'' @ ''/'' = Join (segs @ [[]]) ''/''"
    using False by (induction segs rule: induct_list012) auto
  have "Split (Join segs ''/'' @ (if trailing then ''/'' else [])) CHR ''/'' =
      segs @ (if trailing then [[]] else [])"
  proof (cases trailing)
    case True
    have "Split (Join (segs @ [[]]) ''/'') CHR ''/'' = segs @ [[]]"
      using ns by (intro Split_Join) auto
    with True show ?thesis by (simp add: tr)
  next
    case no: False
    have "Split (Join segs ''/'') CHR ''/'' = segs"
      using ns False by (intro Split_Join) auto
    with no show ?thesis by simp
  qed
  with False show ?thesis by (simp add: path_of_def)
qed

text \<open>What a successful normalisation has checked and built.\<close>

lemma NormalizePath_Inr:
  assumes "NormalizePath raw = Inr p"
  obtains d where "PathUnescape raw = Some d" and "\<not> hasEncodedSeparator raw"
    and "HasPrefix raw ''/''" and "ValidString d" and "CHR 0x5C \<notin> set d"
    and "\<forall>r \<in> set (runes d). \<not> (r < 0x20 \<or> r = 0x7f)" and "\<not> containsPercentEscape d"
    and "\<forall>x \<in> set (Split d CHR ''/''). x \<noteq> ''.'' \<and> x \<noteq> ''..''"
    and "p = (if HasSuffix d ''/'' \<and> Clean d \<noteq> ''/'' then Clean d @ ''/'' else Clean d)"
  using assms unfolding NormalizePath_def
  by (auto simp: find_None_iff list_ex_iff Contains_def Let_def split: if_splits option.splits)

lemma PathUnescape_leading_slash:
  "PathUnescape raw = Some d \<Longrightarrow> HasPrefix raw ''/'' \<Longrightarrow> HasPrefix d ''/''"
  by (cases raw) (auto simp: PathUnescape_Cons HasPrefix_def)

text \<open>The segments of a decoded path that are kept.\<close>

definition kept :: "string \<Rightarrow> string list" where
  "kept d = filter (\<lambda>x. x \<noteq> []) (Split d CHR ''/'')"

lemma kept_subset: "x \<in> set (kept d) \<Longrightarrow> x \<in> set (Split d CHR ''/'')"
  by (simp add: kept_def)

lemma Clean_kept:
  assumes "HasPrefix d ''/''" and "\<forall>x \<in> set (Split d CHR ''/''). x \<noteq> ''.'' \<and> x \<noteq> ''..''"
  shows "Clean d = ''/'' @ Join (kept d) ''/''"
proof -
  have "d \<noteq> []" using assms(1) by (auto simp: HasPrefix_def)
  with assms show ?thesis by (simp add: Clean_def Let_def clean_segments_plain kept_def)
qed

lemma kept_plain:
  assumes "\<forall>x \<in> set (Split d CHR ''/''). x \<noteq> ''.'' \<and> x \<noteq> ''..''"
  shows "\<forall>s \<in> set (kept d). plain_segment s"
  using assms by (auto simp: kept_def plain_segment_def dest: Split_segments)

lemma Join_plain: "\<forall>s \<in> set segs. plain_segment s \<Longrightarrow> Join segs ''/'' = [] \<longleftrightarrow> segs = []"
  by (cases segs; cases "tl segs") (auto simp: plain_segment_def)

lemma last_Join_plain:
  "\<forall>s \<in> set segs. plain_segment s \<Longrightarrow> segs \<noteq> [] \<Longrightarrow> last (Join segs ''/'') \<noteq> CHR ''/''"
proof (induction segs "''/''" rule: Join.induct)
  case (2 x)
  then show ?case by (auto simp: plain_segment_def) (metis last_in_set)
qed (auto simp: plain_segment_def Join_plain)

lemma NormalizePath_segments:
  assumes "NormalizePath raw = Inr p" and d: "PathUnescape raw = Some d"
  shows "p = path_of (kept d) (HasSuffix d ''/'') \<and> (\<forall>s \<in> set (kept d). plain_segment s)"
proof (rule NormalizePath_Inr [OF assms(1)])
  fix d'
  assume d': "PathUnescape raw = Some d'" and raw: "HasPrefix raw ''/''"
    and dots: "\<forall>x \<in> set (Split d' CHR ''/''). x \<noteq> ''.'' \<and> x \<noteq> ''..''"
    and p: "p = (if HasSuffix d' ''/'' \<and> Clean d' \<noteq> ''/'' then Clean d' @ ''/'' else Clean d')"
  have dd: "d' = d" using d d' by simp
  have c: "Clean d = ''/'' @ Join (kept d) ''/''"
    using Clean_kept PathUnescape_leading_slash [OF d raw] dots dd by blast
  have plain: "\<forall>s \<in> set (kept d). plain_segment s" using kept_plain dots dd by blast
  with p c dd show ?thesis by (auto simp: path_of_def Join_plain)
qed

lemma set_Split_path_of:
  assumes "\<forall>s \<in> set segs. plain_segment s" and "x \<in> set (Split (path_of segs t) CHR ''/'')"
  shows "x = [] \<or> x \<in> set segs"
proof -
  have "Split (path_of segs t) CHR ''/'' =
      [] # (if segs = [] then [[]] else segs @ (if t then [[]] else []))"
    using assms(1) by (intro Split_path_of) simp
  with assms(2) show ?thesis by (auto split: if_splits)
qed

lemma set_path_of: "set (path_of segs t) \<subseteq> insert CHR ''/'' (\<Union> (set ` set segs))"
  using set_Join [of segs "''/''"] by (auto simp: path_of_def)

lemma NormalizePath_bytes:
  assumes "NormalizePath raw = Inr p" and "c \<in> set p"
  shows "c \<noteq> CHR 0x5C \<and> 32 \<le> byte c \<and> byte c \<noteq> 127"
proof (rule NormalizePath_Inr [OF assms(1)])
  fix d
  assume d: "PathUnescape raw = Some d" and valid: "ValidString d" and bs: "CHR 0x5C \<notin> set d"
    and ctl: "\<forall>r \<in> set (runes d). \<not> (r < 0x20 \<or> r = 0x7f)"
  have p: "p = path_of (kept d) (HasSuffix d ''/'')"
    using NormalizePath_segments [OF assms(1) d] by simp
  have "set x \<subseteq> set d" if "x \<in> set (kept d)" for x
    using that set_Split kept_subset by blast
  then have "c = CHR ''/'' \<or> c \<in> set d"
    using assms(2) p set_path_of [of "kept d"] by blast
  then show ?thesis
  proof
    assume c: "c \<in> set d"
    show ?thesis
    proof (cases "byte c < 128")
      case True
      then have "byte c \<in> set (runes d)" using ascii_byte_in_runes valid c by blast
      then have "\<not> (byte c < 32 \<or> byte c = 127)" using ctl by auto
      with c bs show ?thesis by auto
    next
      case False
      with c bs show ?thesis by auto
    qed
  qed simp
qed

lemma NormalizePath_no_escape:
  assumes "NormalizePath raw = Inr p"
  shows "\<not> containsPercentEscape p \<and> ValidString p"
proof (rule NormalizePath_Inr [OF assms])
  fix d
  assume d: "PathUnescape raw = Some d" and valid: "ValidString d" and esc: "\<not> containsPercentEscape d"
  have p: "p = path_of (kept d) (HasSuffix d ''/'')"
    and plain: "\<forall>s \<in> set (kept d). plain_segment s"
    using NormalizePath_segments [OF assms d] by auto
  have seg: "x = [] \<or> x \<in> set (Split d CHR ''/'')" if "x \<in> set (Split p CHR ''/'')" for x
    using set_Split_path_of [OF plain] that p kept_subset by blast
  have "\<not> containsPercentEscape x" if "x \<in> set (Split p CHR ''/'')" for x
    using seg [OF that] esc containsPercentEscape_segment [of d] by auto
  then have "\<not> containsPercentEscape p"
    using containsPercentEscape_segment [of p] by blast
  moreover have "ValidString p"
  proof -
    have "\<forall>x \<in> set (Split d CHR ''/''). ValidString x" and "ValidString []"
      using valid ValidString_Split [of "CHR ''/''" d] ValidString.simps [of "[]"] by simp_all
    then have "\<forall>x \<in> set (Split p CHR ''/''). ValidString x" using seg by blast
    then show ?thesis using ValidString_Split [of "CHR ''/''" p] by simp
  qed
  ultimately show ?thesis ..
qed

lemma NormalizePath_no_dots:
  assumes "NormalizePath raw = Inr p"
  shows "\<forall>s \<in> set (Split p CHR ''/''). s \<noteq> ''.'' \<and> s \<noteq> ''..''"
proof (rule NormalizePath_Inr [OF assms])
  fix d
  assume "PathUnescape raw = Some d"
  from NormalizePath_segments [OF assms this] show ?thesis
    using set_Split_path_of [of "kept d"] unfolding plain_segment_def by fastforce
qed

text \<open>Without a percent sign nothing is decoded.\<close>

lemma PathUnescape_plain: "CHR ''%'' \<notin> set s \<Longrightarrow> PathUnescape s = Some s"
  by (induction s) (auto simp: PathUnescape_Cons)

lemma hasEncodedSeparator_plain: "CHR ''%'' \<notin> set s \<Longrightarrow> \<not> hasEncodedSeparator s"
  by (induction s rule: hasEncodedSeparator.induct) auto

lemma containsPercentEscape_plain: "CHR ''%'' \<notin> set s \<Longrightarrow> \<not> containsPercentEscape s"
  by (induction s rule: containsPercentEscape.induct) auto

text \<open>A canonical path without a percent sign is a fixed point.\<close>

lemma NormalizePath_fixed:
  assumes p: "p = path_of segs t" and plain: "\<forall>s \<in> set segs. plain_segment s"
    and pct: "CHR ''%'' \<notin> set p" and valid: "ValidString p"
    and bytes: "\<And>c. c \<in> set p \<Longrightarrow> c \<noteq> CHR 0x5C \<and> 32 \<le> byte c \<and> byte c \<noteq> 127"
  shows "NormalizePath p = Inr p"
proof -
  have root: "HasPrefix p ''/''" by (simp add: p path_of_def HasPrefix_def)
  have dots: "\<forall>x \<in> set (Split p CHR ''/''). x \<noteq> ''.'' \<and> x \<noteq> ''..''"
    using set_Split_path_of [OF plain] plain p by (fastforce simp: plain_segment_def)
  have "Split p CHR ''/'' = [] # (if segs = [] then [[]] else segs @ (if t then [[]] else []))"
    using plain p Split_path_of by simp
  then have "kept p = segs"
    using plain by (auto simp: kept_def plain_segment_def filter_id_conv)
  with Clean_kept [OF root dots] have clean: "Clean p = ''/'' @ Join segs ''/''" by simp
  have slash: "HasSuffix p ''/'' \<and> Clean p \<noteq> ''/'' \<longleftrightarrow> t \<and> segs \<noteq> []"
    using plain clean by (auto simp: HasSuffix_def p path_of_def Join_plain last_Join_plain)
  have "r \<in> set (runes p) \<Longrightarrow> \<not> (r < 0x20 \<or> r = 0x7f)" for r
    using ascii_rune_is_byte [OF valid, of r] bytes by force
  then have ctl: "\<not> list_ex (\<lambda>r. r < 0x20 \<or> r = 0x7f) (runes p)" by (auto simp: list_ex_iff)
  have dot: "find (\<lambda>x. x = ''.'' \<or> x = ''..'') (Split p CHR ''/'') = None"
    using dots by (auto simp: find_None_iff)
  have "CHR 0x5C \<notin> set p" using bytes by auto
  with root valid pct ctl dot slash show ?thesis
    by (simp add: NormalizePath_def hasEncodedSeparator_plain PathUnescape_plain
        containsPercentEscape_plain Contains_def Let_def clean) (simp add: p path_of_def)
qed

section \<open>Properties\<close>

text \<open>C7: a path that passes normalisation is canonical. It is a slash followed by plain segments
  (none empty, none \<^verbatim>\<open>.\<close> or \<^verbatim>\<open>..\<close>), perhaps with one trailing slash, and it holds no backslash, no
  control byte, no percent escape, and only valid UTF-8.\<close>

theorem NormalizePath_canonical:
  assumes "NormalizePath raw = Inr p"
  shows "(\<exists>segs trailing. p = path_of segs trailing \<and> (\<forall>s \<in> set segs. plain_segment s)) \<and>
    (\<forall>c \<in> set p. c \<noteq> CHR 0x5C \<and> 32 \<le> byte c \<and> byte c \<noteq> 127) \<and>
    \<not> containsPercentEscape p \<and> ValidString p"
  using NormalizePath_bytes [OF assms] NormalizePath_no_escape [OF assms]
    NormalizePath_Inr [OF assms] NormalizePath_segments [OF assms] by metis

theorem NormalizePath_canonical_witness:
  "NormalizePath ''/a//b%20c/'' = Inr ''/a/b c/'' \<and> \<not> containsPercentEscape ''/a/b c/''"
proof -
  have ok: "NormalizePath ''/a//b%20c/'' = Inr ''/a/b c/''" by (simp add: path_eval)
  with NormalizePath_canonical [OF ok] show ?thesis by simp
qed

text \<open>Decoding cannot move a separator. Whenever normalisation succeeds, the segments of the raw
  path, decoded one by one, are the segments of the decoded path, and the result is made of the
  non-empty ones among them in their order.\<close>

theorem NormalizePath_separators:
  assumes "NormalizePath raw = Inr p"
  shows "\<exists>decoded. map PathUnescape (Split raw CHR ''/'') = map Some decoded \<and>
    p = path_of (filter (\<lambda>x. x \<noteq> []) decoded) (last decoded = [])"
proof (rule NormalizePath_Inr [OF assms])
  fix d
  assume d: "PathUnescape raw = Some d" and enc: "\<not> hasEncodedSeparator raw"
    and raw: "HasPrefix raw ''/''"
  have "HasSuffix d ''/'' \<longleftrightarrow> last (Split d CHR ''/'') = []"
    using PathUnescape_leading_slash [OF d raw] by (simp add: HasSuffix_def HasPrefix_def last_Split)
  then have "p = path_of (filter (\<lambda>x. x \<noteq> []) (Split d CHR ''/'')) (last (Split d CHR ''/'') = [])"
    using NormalizePath_segments [OF assms d] by (simp add: kept_def)
  then show ?thesis using PathUnescape_segments [OF d enc] by blast
qed

theorem NormalizePath_separators_witness:
  "\<exists>decoded. map PathUnescape (Split ''/a/%62'' CHR ''/'') = map Some decoded \<and>
    ''/a/b'' = path_of (filter (\<lambda>x. x \<noteq> []) decoded) (last decoded = [])"
proof -
  have "NormalizePath ''/a/%62'' = Inr ''/a/b''" by (simp add: path_eval)
  then show ?thesis by (rule NormalizePath_separators)
qed

text \<open>Normalisation is idempotent on results without a percent sign: a canonical path is left as
  it is. (A lone percent sign survives decoding and is then no valid escape.)\<close>

theorem NormalizePath_idempotent:
  assumes "NormalizePath raw = Inr p" and "CHR ''%'' \<notin> set p"
  shows "NormalizePath p = Inr p"
proof (rule NormalizePath_Inr [OF assms(1)])
  fix d
  assume d: "PathUnescape raw = Some d"
  have p: "p = path_of (kept d) (HasSuffix d ''/'')" and plain: "\<forall>s \<in> set (kept d). plain_segment s"
    using NormalizePath_segments [OF assms(1) d] by auto
  show ?thesis
    using NormalizePath_fixed [OF p plain] assms NormalizePath_bytes [OF assms(1)]
      NormalizePath_no_escape [OF assms(1)] by simp
qed

theorem NormalizePath_idempotent_witness: "NormalizePath ''/a/b c/'' = Inr ''/a/b c/''"
proof -
  have "NormalizePath ''/a//b%20c/'' = Inr ''/a/b c/''" by (simp add: path_eval)
  then show ?thesis by (rule NormalizePath_idempotent) simp
qed

end
