(* ===== verification/Tlsconfig.thy ===== *)
theory Tlsconfig
  imports Go_Strings
begin

text \<open>
  Package \<^verbatim>\<open>tlsconfig\<close>: the TLS policy records of a listener and of a mounted backend and their
  validation, which reads no file. The lemmas give the exact set of accepted policies.
\<close>

section \<open>Records and errors\<close>

record Frontend =
  CertificateFile :: string
  PrivateKeyFile :: string
  FrontendMinimumVersion :: string

record Backend =
  CAFile :: string
  ServerName :: string
  ClientCertificateFile :: string
  ClientPrivateKeyFile :: string
  BackendMinimumVersion :: string

datatype tls_error =
    FrontendIdentityRequired
  | FrontendIdentityUnpaired
  | BackendServerNameInvalid string
  | BackendIdentityUnpaired
  | FileReferenceRequired string
  | FileReferenceInvalid string
  | MinimumVersionUnknown string

section \<open>Validation\<close>

definition validateMinimumVersion :: "string \<Rightarrow> tls_error option" where
  "validateMinimumVersion version =
     (if version = [] \<or> version = ''1.2'' \<or> version = ''1.3'' then None
      else Some (MinimumVersionUnknown version))"

definition validateFileReference :: "string \<Rightarrow> string \<Rightarrow> tls_error option" where
  "validateFileReference name reference =
     (if TrimSpace reference = [] then Some (FileReferenceRequired name)
      else if list_ex (\<lambda>character. character = 0 \<or> character = 13 \<or> character = 10) (runes reference)
      then Some (FileReferenceInvalid name)
      else None)"

definition Frontend_Validate :: "Frontend \<Rightarrow> tls_error option" where
  "Frontend_Validate f =
     (if TrimSpace (CertificateFile f) = [] \<and> TrimSpace (PrivateKeyFile f) = []
      then Some FrontendIdentityRequired
      else if (TrimSpace (CertificateFile f) = []) \<noteq> (TrimSpace (PrivateKeyFile f) = [])
      then Some FrontendIdentityUnpaired
      else
        check (validateFileReference ''frontend TLS certificate'' (CertificateFile f))
          (check (validateFileReference ''frontend TLS private key'' (PrivateKeyFile f))
            (validateMinimumVersion (FrontendMinimumVersion f))))"

definition Backend_Validate :: "Backend \<Rightarrow> tls_error option" where
  "Backend_Validate b =
     check (if CAFile b \<noteq> [] then validateFileReference ''backend TLS CA'' (CAFile b) else None)
       (if ContainsAny (ServerName b) [CHR '' '', CHR 0x09, CHR 0x0D, CHR 0x0A, CHR ''/'']
        then Some (BackendServerNameInvalid (ServerName b))
        else if (TrimSpace (ClientCertificateFile b) = []) \<noteq> (TrimSpace (ClientPrivateKeyFile b) = [])
        then Some BackendIdentityUnpaired
        else
          check (if ClientCertificateFile b \<noteq> [] then
                   check (validateFileReference ''backend TLS client certificate'' (ClientCertificateFile b))
                     (validateFileReference ''backend TLS client private key'' (ClientPrivateKeyFile b))
                 else None)
            (validateMinimumVersion (BackendMinimumVersion b)))"

section \<open>What is accepted\<close>

text \<open>A file reference a runtime adapter can open: not blank, no NUL and no line break.\<close>

definition usable_file :: "string \<Rightarrow> bool" where
  "usable_file r \<longleftrightarrow>
     TrimSpace r \<noteq> [] \<and> (\<forall>c \<in> set (runes r). c \<noteq> 0 \<and> c \<noteq> 13 \<and> c \<noteq> 10)"

lemma validateFileReference_None [simp]:
  "validateFileReference name r = None \<longleftrightarrow> usable_file r"
  by (auto simp: validateFileReference_def usable_file_def list_ex_iff)

lemma validateMinimumVersion_None [simp]:
  "validateMinimumVersion v = None \<longleftrightarrow> v \<in> {[], ''1.2'', ''1.3''}"
  by (auto simp: validateMinimumVersion_def)

lemma Frontend_Validate_None:
  "Frontend_Validate f = None \<longleftrightarrow>
     usable_file (CertificateFile f) \<and> usable_file (PrivateKeyFile f) \<and>
     FrontendMinimumVersion f \<in> {[], ''1.2'', ''1.3''}"
  by (auto simp: Frontend_Validate_def usable_file_def)

lemma Backend_Validate_None:
  "Backend_Validate b = None \<longleftrightarrow>
     (CAFile b = [] \<or> usable_file (CAFile b)) \<and>
     set (ServerName b) \<inter> {CHR '' '', CHR 0x09, CHR 0x0D, CHR 0x0A, CHR ''/''} = {} \<and>
     (if ClientCertificateFile b = [] then TrimSpace (ClientPrivateKeyFile b) = []
      else usable_file (ClientCertificateFile b) \<and> usable_file (ClientPrivateKeyFile b)) \<and>
     BackendMinimumVersion b \<in> {[], ''1.2'', ''1.3''}"
proof -
  have name: "ContainsAny (ServerName b) [CHR '' '', CHR 0x09, CHR 0x0D, CHR 0x0A, CHR ''/''] \<longleftrightarrow>
      set (ServerName b) \<inter> {CHR '' '', CHR 0x09, CHR 0x0D, CHR 0x0A, CHR ''/''} \<noteq> {}"
    by (auto simp: ContainsAny_def list_ex_iff)
  show ?thesis
    unfolding Backend_Validate_def name
    by (cases "ClientCertificateFile b = []") (auto simp: usable_file_def)
qed

end
