(* ===== verification/Mount.thy ===== *)
theory Mount
  imports Mount_Path Tlsconfig
begin

text \<open>
  \<^verbatim>\<open>mount/mount.go\<close>: the mapping record, its validation, the parser of absolute URL sources and the
  check of CONNECT authorities. \<open>None\<close> from a \<open>Validate\<close> function is Go's \<^verbatim>\<open>nil\<close>.
\<close>

section \<open>The mapping\<close>

record Mount =
  mPath :: string
  mSource :: string
  mTarget :: string
  mPriority :: int
  mServer :: string
  mProtocol :: string
  mTLS :: "Backend option"

abbreviation blanks :: string where
  "blanks \<equiv> [CHR '' '', CHR 0x09, CHR 0x0D, CHR 0x0A]"

datatype mount_error =
    MountServerWhitespace string
  | MountProtocolWhitespace string
  | MountPathRequired
  | MountPathAndSource
  | SourceURLInvalid
  | SourceNotAbsolute string
  | SourceSchemeUnsupported string
  | SourceUserinfo
  | SourceQuery
  | SourceFragment
  | ConnectAuthorityInvalid string
  | ConnectAuthorityHostPort string
  | ConnectAuthorityHost string
  | ConnectAuthorityPort string
  | ConnectSourcePath
  | SourcePathEscaped string
  | SourcePathNotNormalized string
  | MountPathNotAbsolute string
  | MountPathWildcard string
  | MountTargetRequired
  | MountTargetInvalid
  | TargetSchemeUnsupported string
  | TargetHostRequired string
  | TCPTargetExtras
  | TCPTargetPath
  | TargetWildcard string
  | TLSRequiresHTTPS
  | MountTLS tls_error

definition supportedTargetSchemes :: "string list" where
  "supportedTargetSchemes = [''delegate'', ''ftp'', ''http'', ''https'', ''tcp'']"

section \<open>CONNECT authorities\<close>

definition ValidateConnectAuthority :: "string \<Rightarrow> mount_error option" where
  "ValidateConnectAuthority authority =
     (if authority = [] \<or> authority \<noteq> TrimSpace authority \<or> ContainsAny authority ''@/?#''
      then Some (ConnectAuthorityInvalid authority)
      else (case SplitHostPort authority of
        None \<Rightarrow> Some (ConnectAuthorityHostPort authority)
      | Some (host, port) \<Rightarrow>
          if host = [] \<or> port = [] then Some (ConnectAuthorityHostPort authority)
          else if ContainsAny host (blanks @ ''%'') then Some (ConnectAuthorityHost authority)
          else (case Atoi port of
            None \<Rightarrow> Some (ConnectAuthorityPort authority)
          | Some number \<Rightarrow>
              if number < 1 \<or> 65535 < number \<or> Itoa number \<noteq> port
              then Some (ConnectAuthorityPort authority)
              else None)))"

section \<open>Absolute URL sources\<close>

definition parseSourceURL :: "string \<Rightarrow> (mount_error, url) result" where
  "parseSourceURL source =
     (case url_Parse source of
        None \<Rightarrow> Inl SourceURLInvalid
      | Some parsed \<Rightarrow>
          if \<not> IsAbs parsed \<or> Host parsed = [] \<or> Opaque parsed \<noteq> [] then Inl (SourceNotAbsolute source)
          else if \<not> EqualFold (Scheme parsed) ''http'' \<and> \<not> EqualFold (Scheme parsed) ''https''
                  \<and> \<not> EqualFold (Scheme parsed) ''connect''
          then Inl (SourceSchemeUnsupported (Scheme parsed))
          else if User parsed \<noteq> None then Inl SourceUserinfo
          else if RawQuery parsed \<noteq> [] \<or> ForceQuery parsed then Inl SourceQuery
          else if Fragment parsed \<noteq> [] then Inl SourceFragment
          else Inr parsed)"

text \<open>The source path of a URL source: the escaped path, or \<^verbatim>\<open>/\<close> when it is empty.\<close>

definition source_path :: "url \<Rightarrow> string" where
  "source_path parsed = (if EscapedPath parsed = [] then ''/'' else EscapedPath parsed)"

text \<open>Lines 47 to 72 of \<^verbatim>\<open>Validate\<close>: the path a mapping's source stands for, or the error.\<close>

definition validate_source :: "Mount \<Rightarrow> (mount_error, string) result" where
  "validate_source m =
     (if mSource m = [] then Inr (mPath m)
      else
        bind_result (parseSourceURL (mSource m)) (\<lambda>parsed.
          let sourcePath = source_path parsed in
          case (if EqualFold (Scheme parsed) ''connect'' then
                  check (ValidateConnectAuthority (Host parsed))
                    (if sourcePath \<noteq> ''/'' then Some ConnectSourcePath else None)
                else None) of
            Some e \<Rightarrow> Inl e
          | None \<Rightarrow>
              if Contains sourcePath ''%'' then Inl (SourcePathEscaped sourcePath)
              else if NormalizePath sourcePath \<noteq> Inr sourcePath
              then Inl (SourcePathNotNormalized sourcePath)
              else Inr sourcePath))"

text \<open>At most one wildcard, and only at the end.\<close>

definition bad_wildcard :: "string \<Rightarrow> bool" where
  "bad_wildcard p \<longleftrightarrow> 1 < Count p CHR ''*'' \<or> Contains p ''*'' \<and> \<not> HasSuffix p ''*''"

text \<open>Lines 79 to 114: the target and its TLS policy.\<close>

definition validate_target :: "Mount \<Rightarrow> mount_error option" where
  "validate_target m =
     (if mTarget m = [] then Some MountTargetRequired
      else (case url_Parse (mTarget m) of
        None \<Rightarrow> Some MountTargetInvalid
      | Some target \<Rightarrow>
          if \<not> List.member supportedTargetSchemes (ToLower (Scheme target))
          then Some (TargetSchemeUnsupported (Scheme target))
          else if Host target = [] then Some (TargetHostRequired (mTarget m))
          else
            check (if EqualFold (Scheme target) ''tcp'' then
                     (if User target \<noteq> None \<or> RawQuery target \<noteq> [] \<or> ForceQuery target \<or> Fragment target \<noteq> []
                      then Some TCPTargetExtras
                      else if Path target \<noteq> [] \<and> Path target \<noteq> ''/'' then Some TCPTargetPath
                      else ValidateConnectAuthority (Host target))
                   else None)
              (if bad_wildcard (Path target) then Some (TargetWildcard (mTarget m))
               else (case mTLS m of
                 None \<Rightarrow> None
               | Some tls \<Rightarrow>
                   if \<not> EqualFold (Scheme target) ''https'' then Some TLSRequiresHTTPS
                   else map_option MountTLS (Backend_Validate tls)))))"

definition Mount_Validate :: "Mount \<Rightarrow> mount_error option" where
  "Mount_Validate m =
     (if ContainsAny (mServer m) blanks then Some (MountServerWhitespace (mServer m))
      else if ContainsAny (mProtocol m) blanks then Some (MountProtocolWhitespace (mProtocol m))
      else if mPath m = [] \<and> mSource m = [] then Some MountPathRequired
      else if mPath m \<noteq> [] \<and> mSource m \<noteq> [] then Some MountPathAndSource
      else (case validate_source m of
        Inl e \<Rightarrow> Some e
      | Inr sourcePath \<Rightarrow>
          if \<not> HasPrefix sourcePath ''/'' then Some (MountPathNotAbsolute sourcePath)
          else if bad_wildcard sourcePath then Some (MountPathWildcard sourcePath)
          else validate_target m))"

definition Pattern :: "Mount \<Rightarrow> string" where
  "Pattern m = (if mSource m \<noteq> [] then mSource m else mPath m)"

lemmas mount_eval = Mount_Validate_def validate_source_def validate_target_def bad_wildcard_def
  supportedTargetSchemes_def ValidateConnectAuthority_def parseSourceURL_def source_path_def

end
