(* ===== verification/Selection.thy ===== *)
theory Selection
  imports Prelude
begin

text \<open>
  The contract of the two selection loops of the program, \<^verbatim>\<open>policy.Evaluate\<close> and \<^verbatim>\<open>mount.ResolveFor\<close>:
  a loop over a list that keeps the first candidate of greatest key, and, in the second, a flag that
  says whether another candidate has the same key. The locales state what one iteration does to the
  kept candidate and to the flag; their lemmas say what the whole loop computes.
\<close>

section \<open>First candidate of greatest key\<close>

definition first_best :: "('c \<Rightarrow> 'k::linorder) \<Rightarrow> 'c list \<Rightarrow> 'c \<Rightarrow> bool" where
  "first_best key cs w \<longleftrightarrow>
     (\<exists>ys zs. cs = ys @ w # zs \<and> (\<forall>c \<in> set ys. key c < key w) \<and> (\<forall>c \<in> set zs. key c \<le> key w))"

lemma first_best_in: "first_best key cs w \<Longrightarrow> w \<in> set cs"
  by (auto simp: first_best_def)

lemma first_best_greatest: "first_best key cs w \<Longrightarrow> c \<in> set cs \<Longrightarrow> key c \<le> key w"
  by (auto simp: first_best_def less_imp_le)

lemma first_bestI:
  "(\<And>c. c \<in> set ys \<Longrightarrow> key c < key w) \<Longrightarrow> (\<And>c. c \<in> set zs \<Longrightarrow> key c \<le> key w) \<Longrightarrow>
   first_best key (ys @ w # zs) w"
  by (auto simp: first_best_def)

lemma first_best_single: "first_best key [w] w"
  using first_bestI [of "[]" key w "[]"] by simp

lemma first_best_snoc_greater:
  assumes "first_best key cs w" and "key w < key c"
  shows "first_best key (cs @ [c]) c"
proof -
  have "\<forall>d \<in> set cs. key d < key c"
    using first_best_greatest [OF assms(1)] assms(2) by (meson le_less_trans)
  then show ?thesis using first_bestI [of cs key c "[]"] by simp
qed

lemma first_best_snoc_other:
  assumes "first_best key cs w" and "\<not> key w < key c"
  shows "first_best key (cs @ [c]) w"
proof -
  obtain ys zs where "cs = ys @ w # zs" "\<forall>c \<in> set ys. key c < key w" "\<forall>c \<in> set zs. key c \<le> key w"
    using assms(1) by (auto simp: first_best_def)
  moreover from this assms(2) have "first_best key (ys @ w # (zs @ [c])) w"
    by (intro first_bestI) auto
  ultimately show ?thesis by simp
qed

lemma first_best_Max: "first_best key cs w \<Longrightarrow> Max (key ` set cs) = key w"
  by (rule Max_eqI) (auto dest: first_best_greatest intro: first_best_in)

text \<open>The candidates a list offers, in its order.\<close>

abbreviation offers :: "('x \<Rightarrow> 'c option) \<Rightarrow> 'x list \<Rightarrow> 'c list" where
  "offers cand xs \<equiv> List.map_filter cand xs"

lemma offers_snoc:
  "offers cand (xs @ [x]) = offers cand xs @ (case cand x of None \<Rightarrow> [] | Some c \<Rightarrow> [c])"
  by (simp add: List.map_filter_def split: option.splits)

lemma set_offers: "c \<in> set (offers cand xs) \<longleftrightarrow> (\<exists>x \<in> set xs. cand x = Some c)"
  by (force simp: List.map_filter_def)

section \<open>The loops\<close>

locale best_of =
  fixes cand :: "'x \<Rightarrow> 'c option"
    and key :: "'c \<Rightarrow> 'k::linorder"
    and step :: "'s \<Rightarrow> 'x \<Rightarrow> 's"
    and win :: "'s \<Rightarrow> 'c option"
  assumes step_none: "cand x = None \<Longrightarrow> win (step s x) = win s"
    and step_first: "cand x = Some c \<Longrightarrow> win s = None \<Longrightarrow> win (step s x) = Some c"
    and step_next: "cand x = Some c \<Longrightarrow> win s = Some w \<Longrightarrow>
      win (step s x) = Some (if key w < key c then c else w)"
begin

lemma win_run:
  assumes "win s = None"
  shows "case win (foldl step s xs) of
      None \<Rightarrow> offers cand xs = []
    | Some w \<Rightarrow> first_best key (offers cand xs) w"
proof (induction xs rule: rev_induct)
  case Nil
  show ?case using assms by (simp add: List.map_filter_def)
next
  case (snoc x xs)
  let ?t = "foldl step s xs"
  show ?case
  proof (cases "cand x")
    case None
    then have "win (step ?t x) = win ?t" by (rule step_none)
    with snoc None show ?thesis by (cases "win ?t") (simp_all add: offers_snoc)
  next
    case (Some c)
    show ?thesis
    proof (cases "win ?t")
      case None
      with snoc have "offers cand xs = []" by simp
      with Some None show ?thesis
        by (simp add: offers_snoc step_first first_best_single)
    next
      case won: (Some w)
      with snoc have fb: "first_best key (offers cand xs) w" by simp
      show ?thesis
      proof (cases "key w < key c")
        case True
        with fb have "first_best key (offers cand xs @ [c]) c" by (rule first_best_snoc_greater)
        with Some won True show ?thesis by (simp add: offers_snoc step_next [OF Some won])
      next
        case False
        with fb have "first_best key (offers cand xs @ [c]) w" by (rule first_best_snoc_other)
        with Some won False show ?thesis by (simp add: offers_snoc step_next [OF Some won])
      qed
    qed
  qed
qed

lemma win_None_iff:
  assumes "win s = None"
  shows "win (foldl step s xs) = None \<longleftrightarrow> offers cand xs = []"
  using win_run [OF assms, of xs] by (auto split: option.splits dest: first_best_in)

lemma win_Some:
  assumes "win s = None" and "win (foldl step s xs) = Some w"
  shows "first_best key (offers cand xs) w"
  using win_run [OF assms(1), of xs] assms(2) by simp

end

locale best_of_flagged = best_of +
  fixes flag :: "'s \<Rightarrow> bool"
  assumes flag_none: "cand x = None \<Longrightarrow> flag (step s x) = flag s"
    and flag_first: "cand x = Some c \<Longrightarrow> win s = None \<Longrightarrow> \<not> flag (step s x)"
    and flag_next: "cand x = Some c \<Longrightarrow> win s = Some w \<Longrightarrow>
      flag (step s x) = (\<not> key w < key c \<and> (key c = key w \<or> flag s))"
begin

text \<open>The candidates that share the winner's key.\<close>

lemma flag_run:
  assumes "win s = None"
  shows "case win (foldl step s xs) of
      None \<Rightarrow> True
    | Some w \<Rightarrow> (flag (foldl step s xs) \<longleftrightarrow>
        1 < length (filter (\<lambda>c. key c = key w) (offers cand xs)))"
proof (induction xs rule: rev_induct)
  case Nil
  show ?case using assms by simp
next
  case (snoc x xs)
  let ?t = "foldl step s xs"
  show ?case
  proof (cases "cand x")
    case None
    with snoc show ?thesis
      by (cases "win ?t") (simp_all add: offers_snoc step_none flag_none)
  next
    case (Some c)
    show ?thesis
    proof (cases "win ?t")
      case None
      with assms have "offers cand xs = []" using win_None_iff [of s xs] by simp
      with Some None show ?thesis by (simp add: offers_snoc step_first flag_first)
    next
      case won: (Some w)
      then have fb: "first_best key (offers cand xs) w" using win_Some [OF assms] by simp
      have some: "filter (\<lambda>d. key d = key w) (offers cand xs) \<noteq> []"
        using first_best_in [OF fb] by (auto simp: filter_empty_conv)
      show ?thesis
      proof (cases "key w < key c")
        case True
        then have none: "filter (\<lambda>d. key d = key c) (offers cand xs) = []"
          using first_best_greatest [OF fb] by (fastforce simp: filter_empty_conv)
        have "win (step ?t x) = Some c" "\<not> flag (step ?t x)"
          using step_next [OF Some won] flag_next [OF Some won] True by simp_all
        with none Some show ?thesis by (simp add: offers_snoc)
      next
        case False
        have "win (step ?t x) = Some w" "flag (step ?t x) = (key c = key w \<or> flag ?t)"
          using step_next [OF Some won] flag_next [OF Some won] False by simp_all
        with some Some won snoc show ?thesis by (auto simp: offers_snoc)
      qed
    qed
  qed
qed

lemma flag_iff:
  assumes "win s = None" and "win (foldl step s xs) = Some w"
  shows "flag (foldl step s xs) \<longleftrightarrow> 1 < length (filter (\<lambda>c. key c = key w) (offers cand xs))"
  using flag_run [OF assms(1), of xs] assms(2) by simp

end

end
