(* ===== verification/Mount_Resolve.thy ===== *)
theory Mount_Resolve
  imports Mount Selection "HOL-Library.Product_Lexorder"
begin

text \<open>
  \<^verbatim>\<open>mount/resolve.go\<close>: selection of the mapping that serves a request. The loop of \<^verbatim>\<open>ResolveFor\<close> keeps
  the best candidate so far and a flag for a tie with it; the lemmas show that it computes the
  abstract specification, the unique candidate of greatest rank, whatever the order of the mounts.
\<close>

section \<open>Requests, candidates, matches\<close>

record MountRequest =
  rqPath :: string
  rqScheme :: string
  rqAuthority :: string
  rqServer :: string
  rqProtocol :: string

record Match =
  matchMount :: Mount
  NormalizedPath :: string
  matchTarget :: string

record candidate =
  mapping :: Mount
  capture :: string
  specificity :: nat
  scope :: nat
  authority :: nat

datatype resolve_error = ErrUnsafePath path_error | ErrNoMatch | ErrAmbiguous

section \<open>Matching one mapping\<close>

text \<open>\<^verbatim>\<open>matchScope\<close>: how many of the two scopes the mapping names, or \<open>None\<close> when one excludes it.\<close>

definition matchScope :: "Mount \<Rightarrow> MountRequest \<Rightarrow> nat option" where
  "matchScope m request =
     (let named_server = (mServer m \<noteq> [] \<and> mServer m \<noteq> ''*'');
          named_protocol = (mProtocol m \<noteq> [] \<and> mProtocol m \<noteq> ''*'')
      in if named_server \<and> mServer m \<noteq> rqServer request then None
         else if named_protocol \<and> \<not> EqualFold (mProtocol m) (rqProtocol request) then None
         else Some ((if named_server then 1 else 0) + (if named_protocol then 1 else 0)))"

text \<open>\<^verbatim>\<open>matchPath\<close>: the captured rest and the specificity.\<close>

definition matchPath :: "string \<Rightarrow> string \<Rightarrow> (string \<times> nat) option" where
  "matchPath pattern requestPath =
     (if \<not> HasSuffix pattern ''*'' then
        (if pattern = requestPath then Some ([], length pattern + 1) else None)
      else
        (let pre = TrimSuffix pattern ''*'' in
         if \<not> HasPrefix requestPath pre then None
         else Some (TrimPrefix requestPath pre, length pre)))"

text \<open>The body of the loop up to the candidate: the path pattern of a mapping, if the request's
  scheme and authority fit, and then the candidate.\<close>

definition mount_pattern :: "Mount \<Rightarrow> MountRequest \<Rightarrow> (string \<times> nat) option" where
  "mount_pattern m request =
     (if mSource m = [] then Some (mPath m, 0)
      else (case parseSourceURL (mSource m) of
        Inl _ \<Rightarrow> None
      | Inr parsed \<Rightarrow>
          if \<not> EqualFold (Scheme parsed) (rqScheme request) \<or> \<not> EqualFold (Host parsed) (rqAuthority request)
          then None
          else Some (source_path parsed, 1)))"

definition candidate_of :: "string \<Rightarrow> MountRequest \<Rightarrow> Mount \<Rightarrow> candidate option" where
  "candidate_of normalized request m =
     (case matchScope m request of
        None \<Rightarrow> None
      | Some sc \<Rightarrow>
          (case mount_pattern m request of
             None \<Rightarrow> None
           | Some (pattern, auth) \<Rightarrow>
               (case matchPath pattern normalized of
                  None \<Rightarrow> None
                | Some (cap, spec) \<Rightarrow>
                    Some \<lparr>mapping = m, capture = cap, specificity = spec, scope = sc, authority = auth\<rparr>)))"

section \<open>The selection loop\<close>

definition beats :: "candidate \<Rightarrow> candidate \<Rightarrow> bool" where
  "beats current winner \<longleftrightarrow>
     specificity winner < specificity current \<or>
     (specificity current = specificity winner \<and>
        mPriority (mapping winner) < mPriority (mapping current)) \<or>
     (specificity current = specificity winner \<and>
        mPriority (mapping current) = mPriority (mapping winner) \<and>
        authority winner < authority current) \<or>
     (specificity current = specificity winner \<and>
        mPriority (mapping current) = mPriority (mapping winner) \<and>
        authority current = authority winner \<and> scope winner < scope current)"

definition ties :: "candidate \<Rightarrow> candidate \<Rightarrow> bool" where
  "ties current winner \<longleftrightarrow>
     specificity current = specificity winner \<and>
     mPriority (mapping current) = mPriority (mapping winner) \<and>
     authority current = authority winner \<and> scope current = scope winner"

text \<open>The loop's state: the winner (\<open>None\<close> while nothing is found) and the ambiguity flag.\<close>

fun resolve_step :: "string \<Rightarrow> MountRequest \<Rightarrow> candidate option \<times> bool \<Rightarrow> Mount \<Rightarrow> candidate option \<times> bool" where
  "resolve_step normalized request (winner, ambiguous) m =
     (case candidate_of normalized request m of
        None \<Rightarrow> (winner, ambiguous)
      | Some current \<Rightarrow>
          (case winner of
             None \<Rightarrow> (Some current, False)
           | Some w \<Rightarrow>
               if beats current w then (Some current, False)
               else if ties current w then (Some w, True)
               else (Some w, ambiguous)))"

text \<open>The rewritten target: the captured rest replaces a trailing wildcard.\<close>

definition rewrite_target :: "candidate \<Rightarrow> string" where
  "rewrite_target w =
     (let target = mTarget (mapping w) in
      if HasSuffix target ''*'' then TrimSuffix target ''*'' @ capture w else target)"

definition ResolveFor :: "Mount list \<Rightarrow> MountRequest \<Rightarrow> (resolve_error, Match) result" where
  "ResolveFor mounts request =
     (case NormalizePath (rqPath request) of
        Inl e \<Rightarrow> Inl (ErrUnsafePath e)
      | Inr normalized \<Rightarrow>
          (case foldl (resolve_step normalized request) (None, False) mounts of
             (None, _) \<Rightarrow> Inl ErrNoMatch
           | (Some winner, ambiguous) \<Rightarrow>
               if ambiguous then Inl ErrAmbiguous
               else Inr \<lparr>matchMount = mapping winner, NormalizedPath = normalized,
                         matchTarget = rewrite_target winner\<rparr>))"

definition Resolve :: "Mount list \<Rightarrow> string \<Rightarrow> (resolve_error, Match) result" where
  "Resolve mounts requestPath =
     ResolveFor mounts
       \<lparr>rqPath = requestPath, rqScheme = [], rqAuthority = [], rqServer = [], rqProtocol = []\<rparr>"

section \<open>The specification\<close>

text \<open>
  The rank of a candidate, compared lexicographically: specificity, then priority, then whether the
  mapping names an authority, then how many scopes it names.
\<close>

definition rank :: "candidate \<Rightarrow> nat \<times> int \<times> nat \<times> nat" where
  "rank c = (specificity c, mPriority (mapping c), authority c, scope c)"

lemma beats_rank: "beats c w \<longleftrightarrow> rank w < rank c"
  by (auto simp: beats_def rank_def less_prod_simp)

lemma ties_rank: "ties c w \<longleftrightarrow> rank c = rank w"
  by (auto simp: ties_def rank_def)

text \<open>
  What \<^verbatim>\<open>ResolveFor\<close> promises about the candidates, with no loop: the only one of greatest rank.
\<close>

definition resolve_spec :: "candidate list \<Rightarrow> (resolve_error, candidate) result" where
  "resolve_spec cs =
     (if cs = [] then Inl ErrNoMatch
      else (case filter (\<lambda>c. rank c = Max (rank ` set cs)) cs of
              [w] \<Rightarrow> Inr w
            | _ \<Rightarrow> Inl ErrAmbiguous))"

section \<open>The loop meets the contract\<close>

lemma resolve_step_none:
  "candidate_of n r m = None \<Longrightarrow> resolve_step n r s m = s"
  by (cases s) simp

lemma resolve_step_first:
  "candidate_of n r m = Some c \<Longrightarrow> fst s = None \<Longrightarrow> resolve_step n r s m = (Some c, False)"
  by (cases s) simp

lemma resolve_step_next:
  "candidate_of n r m = Some c \<Longrightarrow> fst s = Some w \<Longrightarrow>
   resolve_step n r s m =
     (Some (if rank w < rank c then c else w), \<not> rank w < rank c \<and> (rank c = rank w \<or> snd s))"
  by (cases s) (auto simp: beats_rank ties_rank)

interpretation resolver: best_of_flagged "candidate_of n r" rank "resolve_step n r" fst snd for n r
  by unfold_locales (simp_all add: resolve_step_none resolve_step_first resolve_step_next)

abbreviation candidates :: "string \<Rightarrow> MountRequest \<Rightarrow> Mount list \<Rightarrow> candidate list" where
  "candidates n r mounts \<equiv> offers (candidate_of n r) mounts"

lemma resolve_loop_spec:
  "(case foldl (resolve_step n r) (None, False) mounts of
      (None, _) \<Rightarrow> Inl ErrNoMatch
    | (Some w, amb) \<Rightarrow> if amb then Inl ErrAmbiguous else Inr w) =
   resolve_spec (candidates n r mounts)"
proof -
  let ?t = "foldl (resolve_step n r) (None, False) mounts"
  let ?cs = "candidates n r mounts"
  show ?thesis
  proof (cases "fst ?t")
    case None
    then have "?cs = []" using resolver.win_None_iff [of "(None, False)" n r mounts] by simp
    with None show ?thesis by (cases ?t) (simp add: resolve_spec_def)
  next
    case (Some w)
    have fb: "first_best rank ?cs w" using resolver.win_Some [of "(None, False)"] Some by simp
    then have mx: "Max (rank ` set ?cs) = rank w" by (rule first_best_Max)
    let ?ws = "filter (\<lambda>c. rank c = rank w) ?cs"
    have win: "w \<in> set ?ws" using first_best_in [OF fb] by simp
    have amb: "snd ?t \<longleftrightarrow> 1 < length ?ws"
      using resolver.flag_iff [of "(None, False)" n r mounts w] Some by simp
    have ne: "?cs \<noteq> []" using first_best_in [OF fb] by auto
    show ?thesis
    proof (cases ?ws)
      case Nil
      with win show ?thesis by simp
    next
      case (Cons v vs)
      with win amb Some ne mx show ?thesis
        by (cases ?t; cases vs) (auto simp: resolve_spec_def)
    qed
  qed
qed

text \<open>The answer built from the winner.\<close>

definition match_of :: "string \<Rightarrow> candidate \<Rightarrow> Match" where
  "match_of n w = \<lparr>matchMount = mapping w, NormalizedPath = n, matchTarget = rewrite_target w\<rparr>"

lemma ResolveFor_spec:
  "ResolveFor mounts request =
     (case NormalizePath (rqPath request) of
        Inl e \<Rightarrow> Inl (ErrUnsafePath e)
      | Inr n \<Rightarrow> bind_result (resolve_spec (candidates n request mounts)) (\<lambda>w. Inr (match_of n w)))"
proof (cases "NormalizePath (rqPath request)")
  case (Inr n)
  have "ResolveFor mounts request =
      bind_result (case foldl (resolve_step n request) (None, False) mounts of
          (None, _) \<Rightarrow> Inl ErrNoMatch
        | (Some w, amb) \<Rightarrow> if amb then Inl ErrAmbiguous else Inr w) (\<lambda>w. Inr (match_of n w))"
    using Inr by (auto simp: ResolveFor_def match_of_def split: prod.splits option.splits)
  with Inr show ?thesis by (simp add: resolve_loop_spec)
qed (simp add: ResolveFor_def)

lemma resolve_spec_mset:
  assumes "mset cs = mset ds"
  shows "resolve_spec cs = resolve_spec ds"
proof -
  let ?P = "\<lambda>c. rank c = Max (rank ` set ds)"
  have s: "set cs = set ds" using assms by (rule mset_eq_setD)
  have m: "mset (filter ?P cs) = mset (filter ?P ds)" using assms by simp
  have len: "length (filter ?P cs) = length (filter ?P ds)" using m by (rule mset_eq_length)
  have "cs = [] \<longleftrightarrow> ds = []" using assms by auto
  moreover have "(case filter ?P cs of [w] \<Rightarrow> Inr w | _ \<Rightarrow> Inl ErrAmbiguous) =
      (case filter ?P ds of [w] \<Rightarrow> Inr w | _ \<Rightarrow> Inl ErrAmbiguous)"
    using m len
    by (cases "filter ?P cs"; cases "filter ?P ds") (auto split: list.splits)
  ultimately show ?thesis by (simp add: resolve_spec_def s)
qed

lemma mset_offers: "mset xs = mset ys \<Longrightarrow> mset (offers f xs) = mset (offers f ys)"
  by (simp add: List.map_filter_def)

section \<open>From candidates back to mappings\<close>

lemma offers_Nil: "offers f xs = [] \<longleftrightarrow> (\<forall>x \<in> set xs. f x = None)"
  by (auto simp: List.map_filter_def filter_empty_conv)

lemma offers_append: "offers f (xs @ ys) = offers f xs @ offers f ys"
  by (simp add: List.map_filter_def)

lemma offers_Cons: "offers f (x # xs) = (case f x of None \<Rightarrow> [] | Some c \<Rightarrow> [c]) @ offers f xs"
  by (simp add: List.map_filter_def split: option.splits)

lemma offers_split:
  "offers f xs = ys @ c # zs \<longleftrightarrow>
     (\<exists>pre x post. xs = pre @ x # post \<and> f x = Some c \<and> offers f pre = ys \<and> offers f post = zs)"
proof (induction xs arbitrary: ys)
  case Nil
  show ?case by (simp add: List.map_filter_def)
next
  case (Cons x xs)
  show ?case (is "?L = ?R")
  proof
    assume ?L
    then consider "f x = Some c" "ys = []" "offers f xs = zs"
      | vs where "ys = (case f x of None \<Rightarrow> [] | Some d \<Rightarrow> [d]) @ vs" "offers f xs = vs @ c # zs"
      by (cases "f x"; cases ys) (auto simp: offers_Cons)
    then show ?R
    proof cases
      case 1
      then show ?thesis
        by (intro exI [of _ "[]"] exI [of _ x] exI [of _ xs]) (simp add: List.map_filter_def)
    next
      case 2
      then obtain pre y post where "xs = pre @ y # post" "f y = Some c"
        "offers f pre = vs" "offers f post = zs" using Cons.IH by blast
      with 2(1) have "x # xs = (x # pre) @ y # post \<and> f y = Some c \<and>
          offers f (x # pre) = ys \<and> offers f post = zs" by (simp add: offers_Cons del: map_filter_simps)
      then show ?thesis by blast
    qed
  next
    assume ?R
    then obtain pre y post where "x # xs = pre @ y # post" "f y = Some c"
      "offers f pre = ys" "offers f post = zs" by blast
    then show ?L by (simp only: offers_append offers_Cons option.case append.simps)
  qed
qed

lemma filter_single:
  "filter P xs = [w] \<Longrightarrow> \<exists>ys zs. xs = ys @ w # zs \<and> P w \<and> (\<forall>c \<in> set ys \<union> set zs. \<not> P c)"
  unfolding filter_eq_Cons_iff by (metis Un_iff filter_empty_conv)

lemma resolve_spec_Inr:
  "resolve_spec cs = Inr w \<longleftrightarrow>
     (\<exists>ys zs. cs = ys @ w # zs \<and> (\<forall>c \<in> set ys \<union> set zs. rank c < rank w))"
proof
  assume "resolve_spec cs = Inr w"
  then have "filter (\<lambda>c. rank c = Max (rank ` set cs)) cs = [w]"
    by (auto simp: resolve_spec_def split: if_splits list.splits)
  from filter_single [OF this]
  obtain ys zs where cs: "cs = ys @ w # zs" and mx: "rank w = Max (rank ` set cs)"
    and other: "\<forall>c \<in> set ys \<union> set zs. rank c \<noteq> Max (rank ` set cs)" by blast
  have "rank c \<le> rank w" if "c \<in> set cs" for c using that mx by simp
  then have "\<forall>c \<in> set ys \<union> set zs. rank c \<le> rank w" by (simp add: cs)
  with other mx have "\<forall>c \<in> set ys \<union> set zs. rank c < rank w" by (simp add: less_le)
  with cs show "\<exists>ys zs. cs = ys @ w # zs \<and> (\<forall>c \<in> set ys \<union> set zs. rank c < rank w)" by blast
next
  assume "\<exists>ys zs. cs = ys @ w # zs \<and> (\<forall>c \<in> set ys \<union> set zs. rank c < rank w)"
  then obtain ys zs where cs: "cs = ys @ w # zs" and lt: "\<forall>c \<in> set ys \<union> set zs. rank c < rank w"
    by blast
  have "Max (rank ` set cs) = rank w"
    using lt by (intro Max_eqI) (auto simp: cs less_imp_le)
  moreover have "rank c \<noteq> rank w" if "c \<in> set ys \<union> set zs" for c
    using bspec [OF lt that] by (rule less_imp_neq)
  then have "filter (\<lambda>c. rank c = rank w) ys = [] \<and> filter (\<lambda>c. rank c = rank w) zs = []"
    by (simp add: filter_empty_conv)
  ultimately show "resolve_spec cs = Inr w" using cs by (simp add: resolve_spec_def)
qed

lemma resolve_spec_mounts:
  "resolve_spec (candidates n r mounts) = Inr w \<longleftrightarrow>
     (\<exists>pre x post. mounts = pre @ x # post \<and> candidate_of n r x = Some w \<and>
        (\<forall>y \<in> set pre \<union> set post. \<forall>c. candidate_of n r y = Some c \<longrightarrow> rank c < rank w))"
    (is "_ \<longleftrightarrow> ?R")
proof -
  have below: "(\<forall>c \<in> set (candidates n r pre) \<union> set (candidates n r post). rank c < rank w) \<longleftrightarrow>
      (\<forall>y \<in> set pre \<union> set post. \<forall>c. candidate_of n r y = Some c \<longrightarrow> rank c < rank w)" for pre post
    unfolding Un_iff Ball_def set_offers by blast
  have "resolve_spec (candidates n r mounts) = Inr w \<longleftrightarrow>
      (\<exists>pre x post. mounts = pre @ x # post \<and> candidate_of n r x = Some w \<and>
        (\<forall>c \<in> set (candidates n r pre) \<union> set (candidates n r post). rank c < rank w))"
    unfolding resolve_spec_Inr offers_split by blast
  then show ?thesis unfolding below .
qed

lemma resolve_spec_NoMatch: "resolve_spec cs = Inl ErrNoMatch \<longleftrightarrow> cs = []"
  by (auto simp: resolve_spec_def split: list.splits)

lemma filter_two:
  assumes "filter P xs = v # w # rest"
  shows "\<exists>ys ms zs. xs = ys @ v # ms @ w # zs \<and> P v \<and> P w"
  using assms unfolding filter_eq_Cons_iff by (metis filter_eq_Cons_iff)

lemma resolve_spec_Ambiguous:
  "resolve_spec cs = Inl ErrAmbiguous \<longleftrightarrow>
     (\<exists>ys v ms w zs. cs = ys @ v # ms @ w # zs \<and> rank v = rank w \<and> (\<forall>c \<in> set cs. rank c \<le> rank w))"
proof
  let ?P = "\<lambda>c. rank c = Max (rank ` set cs)"
  assume amb: "resolve_spec cs = Inl ErrAmbiguous"
  then have "cs \<noteq> []" by (auto simp: resolve_spec_def)
  then have "Max (rank ` set cs) \<in> rank ` set cs" by (intro Max_in) auto
  then have "filter ?P cs \<noteq> []" by (auto simp: filter_empty_conv)
  with amb obtain v w rest where "filter ?P cs = v # w # rest"
    by (auto simp: resolve_spec_def split: list.splits if_splits)
  then obtain ys ms zs where cs: "cs = ys @ v # ms @ w # zs" and eq: "?P v" "?P w"
    using filter_two [of ?P cs] by blast
  have "\<forall>c \<in> set cs. rank c \<le> rank w" unfolding eq(2) by simp
  with cs eq show "\<exists>ys v ms w zs. cs = ys @ v # ms @ w # zs \<and> rank v = rank w \<and>
      (\<forall>c \<in> set cs. rank c \<le> rank w)" by metis
next
  assume "\<exists>ys v ms w zs. cs = ys @ v # ms @ w # zs \<and> rank v = rank w \<and>
      (\<forall>c \<in> set cs. rank c \<le> rank w)"
  then obtain ys v ms w zs where cs: "cs = ys @ v # ms @ w # zs" and eq: "rank v = rank w"
    and le: "\<forall>c \<in> set cs. rank c \<le> rank w" by blast
  have "Max (rank ` set cs) = rank w" using le by (intro Max_eqI) (auto simp: cs)
  then show "resolve_spec cs = Inl ErrAmbiguous"
    using cs eq by (auto simp: resolve_spec_def append_eq_Cons_conv split: list.splits)
qed

lemma resolve_spec_not_Unsafe: "resolve_spec cs \<noteq> Inl (ErrUnsafePath e)"
  by (auto simp: resolve_spec_def split: list.splits)

lemma ResolveFor_candidate:
  assumes "ResolveFor mounts request = Inr m"
  obtains n w where "NormalizePath (rqPath request) = Inr n" "m = match_of n w"
    "matchMount m \<in> set mounts" "candidate_of n request (matchMount m) = Some w"
proof (cases "NormalizePath (rqPath request)")
  case (Inr n)
  with assms obtain w where w: "resolve_spec (candidates n request mounts) = Inr w"
    and m: "m = match_of n w" by (auto simp: ResolveFor_spec)
  then have "w \<in> set (candidates n request mounts)" by (auto simp: resolve_spec_Inr)
  then obtain x where x: "x \<in> set mounts" "candidate_of n request x = Some w"
    by (auto simp: set_offers)
  then have "matchMount m = x"
    by (auto simp: m match_of_def candidate_of_def split: option.splits)
  with that Inr m x show ?thesis by simp
qed (use assms in \<open>simp add: ResolveFor_spec\<close>)

text \<open>The shape of a path match: equality, or a prefix and the captured rest.\<close>

lemma matchPath_cases:
  assumes "matchPath pattern p = Some (cap, spec)"
  shows "(\<exists>pre. pattern = pre @ ''*'' \<and> p = pre @ cap \<and> spec = length pre) \<or>
    \<not> HasSuffix pattern ''*'' \<and> p = pattern \<and> cap = [] \<and> spec = Suc (length pattern)"
proof (cases "HasSuffix pattern ''*''")
  case True
  then obtain pre where "pattern = pre @ ''*''" by (auto simp: HasSuffix_def suffix_def)
  with assms show ?thesis
    by (auto simp: matchPath_def TrimSuffix_def TrimPrefix_def HasSuffix_def HasPrefix_def prefix_def
        split: if_splits)
qed (use assms in \<open>auto simp: matchPath_def split: if_splits\<close>)

lemma rewrite_target_cases:
  "(\<exists>t. mTarget (mapping w) = t @ ''*'' \<and> rewrite_target w = t @ capture w) \<or>
   \<not> HasSuffix (mTarget (mapping w)) ''*'' \<and> rewrite_target w = mTarget (mapping w)"
proof (cases "HasSuffix (mTarget (mapping w)) ''*''")
  case True
  then obtain t where "mTarget (mapping w) = t @ ''*''" unfolding HasSuffix_def suffix_def by blast
  then show ?thesis by (simp add: rewrite_target_def HasSuffix_def TrimSuffix_def)
qed (simp add: rewrite_target_def)

lemma candidate_of_pattern:
  assumes "candidate_of n request x = Some w"
  obtains pattern auth where "mount_pattern x request = Some (pattern, auth)"
    "matchPath pattern n = Some (capture w, specificity w)" "mapping w = x"
  using assms by (fastforce simp: candidate_of_def split: option.splits prod.splits)

section \<open>Properties\<close>

text \<open>A mapping by path alone, and the request \<^verbatim>\<open>Resolve\<close> builds, for concrete inputs.\<close>

abbreviation path_mount :: "string \<Rightarrow> string \<Rightarrow> Mount" where
  "path_mount p t \<equiv> \<lparr>mPath = p, mSource = [], mTarget = t, mPriority = 0, mServer = [], mProtocol = [],
     mTLS = None\<rparr>"

abbreviation path_request :: "string \<Rightarrow> MountRequest" where
  "path_request p \<equiv> \<lparr>rqPath = p, rqScheme = [], rqAuthority = [], rqServer = [], rqProtocol = []\<rparr>"

lemmas resolve_eval = path_eval ResolveFor_def candidate_of_def matchScope_def mount_pattern_def matchPath_def
  beats_def ties_def rewrite_target_def match_of_def

text \<open>C3: \<^verbatim>\<open>ResolveFor\<close> answers with a mapping exactly when the path normalises and one position of the
  list has a candidate that strictly outranks the candidates of all other positions; the answer is
  that mapping with its rewritten target. In particular a result never depends on a lower-ranked
  mapping.\<close>

theorem ResolveFor_iff:
  "ResolveFor mounts request = Inr m \<longleftrightarrow>
     (\<exists>n pre x post w. NormalizePath (rqPath request) = Inr n \<and> mounts = pre @ x # post \<and>
        candidate_of n request x = Some w \<and> m = match_of n w \<and>
        (\<forall>y \<in> set pre \<union> set post. \<forall>c. candidate_of n request y = Some c \<longrightarrow> rank c < rank w))"
proof (cases "NormalizePath (rqPath request)")
  case (Inr n)
  then show ?thesis by (simp add: ResolveFor_spec resolve_spec_mounts) blast
qed (simp add: ResolveFor_spec)

theorem ResolveFor_iff_witness:
  "\<exists>n pre x post w. NormalizePath ''/ab'' = Inr n \<and>
     [path_mount ''/*'' ''http://c/'', path_mount ''/a*'' ''http://b/*''] = pre @ x # post \<and>
     candidate_of n (path_request ''/ab'') x = Some w \<and>
     \<lparr>matchMount = path_mount ''/a*'' ''http://b/*'', NormalizedPath = ''/ab'', matchTarget = ''http://b/b''\<rparr> =
       match_of n w \<and>
     (\<forall>y \<in> set pre \<union> set post. \<forall>c. candidate_of n (path_request ''/ab'') y = Some c \<longrightarrow> rank c < rank w)"
proof -
  have "ResolveFor [path_mount ''/*'' ''http://c/'', path_mount ''/a*'' ''http://b/*''] (path_request ''/ab'') =
      Inr \<lparr>matchMount = path_mount ''/a*'' ''http://b/*'', NormalizedPath = ''/ab'',
        matchTarget = ''http://b/b''\<rparr>" by (simp add: resolve_eval)
  from ResolveFor_iff [THEN iffD1, OF this] show ?thesis by simp
qed

text \<open>C22: the order of the configured mappings never matters to resolution, neither to the answer nor
  to which error is returned.\<close>

theorem ResolveFor_order_independent:
  assumes "mset mounts = mset mounts'"
  shows "ResolveFor mounts request = ResolveFor mounts' request"
  by (simp add: ResolveFor_spec resolve_spec_mset [OF mset_offers [OF assms]] split: sum.splits)

theorem ResolveFor_order_independent_witness:
  "ResolveFor [path_mount ''/a*'' ''http://b/*'', path_mount ''/*'' ''http://c/''] (path_request ''/ab'') =
   ResolveFor [path_mount ''/*'' ''http://c/'', path_mount ''/a*'' ''http://b/*''] (path_request ''/ab'')"
  by (rule ResolveFor_order_independent) simp

text \<open>The errors of \<^verbatim>\<open>ResolveFor\<close> mean what they say. A path that does not normalise is an unsafe
  path and nothing else is; no match means that no mapping has a candidate; ambiguous means that two
  positions of the list share the greatest rank.\<close>

theorem ResolveFor_errors:
  "(ResolveFor mounts request = Inl (ErrUnsafePath e) \<longleftrightarrow> NormalizePath (rqPath request) = Inl e) \<and>
   (ResolveFor mounts request = Inl ErrNoMatch \<longleftrightarrow>
      (\<exists>n. NormalizePath (rqPath request) = Inr n \<and>
        (\<forall>x \<in> set mounts. candidate_of n request x = None))) \<and>
   (ResolveFor mounts request = Inl ErrAmbiguous \<longleftrightarrow>
      (\<exists>n pre x mid y post v w. NormalizePath (rqPath request) = Inr n \<and>
        mounts = pre @ x # mid @ y # post \<and>
        candidate_of n request x = Some v \<and> candidate_of n request y = Some w \<and> rank v = rank w \<and>
        (\<forall>z \<in> set mounts. \<forall>c. candidate_of n request z = Some c \<longrightarrow> rank c \<le> rank w)))"
proof (cases "NormalizePath (rqPath request)")
  case (Inr n)
  have "resolve_spec (candidates n request mounts) = Inl ErrAmbiguous \<longleftrightarrow>
      (\<exists>pre x mid y post v w. mounts = pre @ x # mid @ y # post \<and>
        candidate_of n request x = Some v \<and> candidate_of n request y = Some w \<and> rank v = rank w \<and>
        (\<forall>z \<in> set mounts. \<forall>c. candidate_of n request z = Some c \<longrightarrow> rank c \<le> rank w))"
    unfolding resolve_spec_Ambiguous offers_split Ball_def set_offers by blast
  then show ?thesis
    using Inr
    by (simp add: ResolveFor_spec bind_result_Inl resolve_spec_NoMatch resolve_spec_not_Unsafe offers_Nil)
qed (simp add: ResolveFor_spec)

theorem ResolveFor_errors_witness:
  "ResolveFor [path_mount ''/a'' ''http://b/'', path_mount ''/a'' ''http://c/''] (path_request ''/a'') =
     Inl ErrAmbiguous \<and>
   (\<exists>n pre x mid y post v w. NormalizePath ''/a'' = Inr n \<and>
     [path_mount ''/a'' ''http://b/'', path_mount ''/a'' ''http://c/''] = pre @ x # mid @ y # post \<and>
     candidate_of n (path_request ''/a'') x = Some v \<and> candidate_of n (path_request ''/a'') y = Some w \<and>
     rank v = rank w \<and>
     (\<forall>z \<in> set [path_mount ''/a'' ''http://b/'', path_mount ''/a'' ''http://c/''].
        \<forall>c. candidate_of n (path_request ''/a'') z = Some c \<longrightarrow> rank c \<le> rank w))"
proof -
  let ?ms = "[path_mount ''/a'' ''http://b/'', path_mount ''/a'' ''http://c/'']"
  have amb: "ResolveFor ?ms (path_request ''/a'') = Inl ErrAmbiguous" by (simp add: resolve_eval)
  note iffs = ResolveFor_errors [of ?ms "path_request ''/a''" undefined, THEN conjunct2, THEN conjunct2]
  show ?thesis using amb iffs [THEN iffD1, OF amb] by (simp only: MountRequest.simps)
qed

text \<open>What a match rewrites. The answer is one of the configured mappings; a pattern with a
  trailing wildcard splits the normalised path into the prefix and the rest, a pattern without one is
  the whole path (and the rest is empty); and a target with a trailing wildcard has it replaced by
  exactly that rest, any other target is used as it stands.\<close>

theorem ResolveFor_rewrites:
  assumes "ResolveFor mounts request = Inr m"
  shows "matchMount m \<in> set mounts \<and> NormalizePath (rqPath request) = Inr (NormalizedPath m) \<and>
    (\<exists>pattern auth rest. mount_pattern (matchMount m) request = Some (pattern, auth) \<and>
      ((\<exists>pre. pattern = pre @ ''*'' \<and> NormalizedPath m = pre @ rest) \<or>
       \<not> HasSuffix pattern ''*'' \<and> NormalizedPath m = pattern \<and> rest = []) \<and>
      ((\<exists>t. mTarget (matchMount m) = t @ ''*'' \<and> matchTarget m = t @ rest) \<or>
       \<not> HasSuffix (mTarget (matchMount m)) ''*'' \<and> matchTarget m = mTarget (matchMount m)))"
proof (rule ResolveFor_candidate [OF assms])
  fix n w
  assume n: "NormalizePath (rqPath request) = Inr n" and m: "m = match_of n w"
    and x: "matchMount m \<in> set mounts" and w: "candidate_of n request (matchMount m) = Some w"
  obtain pattern auth where pat: "mount_pattern (matchMount m) request = Some (pattern, auth)"
    and path: "matchPath pattern n = Some (capture w, specificity w)"
    and map: "mapping w = matchMount m" using candidate_of_pattern [OF w] by metis
  have "(\<exists>pre. pattern = pre @ ''*'' \<and> n = pre @ capture w) \<or>
      \<not> HasSuffix pattern ''*'' \<and> n = pattern \<and> capture w = []"
    using matchPath_cases [OF path] by blast
  then show ?thesis
    using n x pat rewrite_target_cases [of w] unfolding map
    unfolding m match_of_def Match.simps by blast
qed

theorem ResolveFor_rewrites_witness:
  "\<exists>pattern auth rest.
     mount_pattern (path_mount ''/files/*'' ''http://b/pub/*'') (path_request ''/files/x/y'') =
       Some (pattern, auth) \<and>
     ((\<exists>pre. pattern = pre @ ''*'' \<and> ''/files/x/y'' = pre @ rest) \<or>
      \<not> HasSuffix pattern ''*'' \<and> ''/files/x/y'' = pattern \<and> rest = []) \<and>
     ((\<exists>t. ''http://b/pub/*'' = t @ ''*'' \<and> ''http://b/pub/x/y'' = t @ rest) \<or>
      \<not> HasSuffix ''http://b/pub/*'' ''*'' \<and> ''http://b/pub/x/y'' = ''http://b/pub/*'')"
proof -
  have "ResolveFor [path_mount ''/files/*'' ''http://b/pub/*''] (path_request ''/files/x/y'') =
      Inr \<lparr>matchMount = path_mount ''/files/*'' ''http://b/pub/*'', NormalizedPath = ''/files/x/y'',
        matchTarget = ''http://b/pub/x/y''\<rparr>" by (simp add: resolve_eval)
  from ResolveFor_rewrites [OF this] show ?thesis by (simp only: Match.simps Mount.simps)
qed

text \<open>C21: a wildcard that follows a slash is safe. Then the rest that replaces the target's wildcard
  has no \<^verbatim>\<open>.\<close> and no \<^verbatim>\<open>..\<close> segment, so the rewritten target stays below the target's prefix.\<close>

theorem ResolveFor_no_traversal:
  assumes "ResolveFor mounts request = Inr m"
    and "mount_pattern (matchMount m) request = Some (pre @ ''/*'', auth)"
    and "mTarget (matchMount m) = t @ ''*''"
  shows "\<exists>rest. matchTarget m = t @ rest \<and> NormalizedPath m = pre @ ''/'' @ rest \<and>
    (\<forall>s \<in> set (Split rest CHR ''/''). s \<noteq> ''.'' \<and> s \<noteq> ''..'')"
proof (rule ResolveFor_candidate [OF assms(1)])
  fix n w
  assume n: "NormalizePath (rqPath request) = Inr n" and m: "m = match_of n w"
    and w: "candidate_of n request (matchMount m) = Some w"
  obtain pattern auth' where pat: "mount_pattern (matchMount m) request = Some (pattern, auth')"
    and path: "matchPath pattern n = Some (capture w, specificity w)"
    and map: "mapping w = matchMount m" using candidate_of_pattern [OF w] by metis
  have eq: "n = pre @ ''/'' @ capture w"
    using matchPath_cases [OF path] pat assms(2) by (auto simp: HasSuffix_def)
  then have "set (Split (capture w) CHR ''/'') \<subseteq> set (Split n CHR ''/'')"
    by (simp add: Split_append)
  then have "\<forall>s \<in> set (Split (capture w) CHR ''/''). s \<noteq> ''.'' \<and> s \<noteq> ''..''"
    using NormalizePath_no_dots [OF n] by blast
  moreover have "rewrite_target w = t @ capture w"
    using rewrite_target_cases [of w] map assms(3) by (auto simp: HasSuffix_def)
  ultimately show ?thesis using eq m by (auto simp: match_of_def)
qed

theorem ResolveFor_no_traversal_witness:
  "\<exists>rest. ''http://b/pub/x..'' = ''http://b/pub/'' @ rest \<and> ''/files/x..'' = ''/files'' @ ''/'' @ rest \<and>
    (\<forall>s \<in> set (Split rest CHR ''/''). s \<noteq> ''.'' \<and> s \<noteq> ''..'')"
proof -
  have "ResolveFor [path_mount ''/files/*'' ''http://b/pub/*''] (path_request ''/files/x..'') =
      Inr \<lparr>matchMount = path_mount ''/files/*'' ''http://b/pub/*'', NormalizedPath = ''/files/x..'',
        matchTarget = ''http://b/pub/x..''\<rparr>" by (simp add: resolve_eval)
  from ResolveFor_no_traversal [OF this, of "''/files''" 0 "''http://b/pub/''"]
  show ?thesis by (simp add: mount_pattern_def)
qed

text \<open>A wildcard that does not follow a slash is not safe, although validation accepts it. With
  the mapping from \<^verbatim>\<open>/api*\<close> to \<^verbatim>\<open>http://b/pub/*\<close> the request path \<^verbatim>\<open>/api../x\<close> has no \<^verbatim>\<open>..\<close> segment,
  but the rewritten target has one and leaves \<^verbatim>\<open>/pub/\<close>.\<close>

theorem Resolve_wildcard_traversal:
  "Mount_Validate (path_mount ''/api*'' ''http://b/pub/*'') = None \<and>
   Resolve [path_mount ''/api*'' ''http://b/pub/*''] ''/api../x'' =
     Inr \<lparr>matchMount = path_mount ''/api*'' ''http://b/pub/*'', NormalizedPath = ''/api../x'',
       matchTarget = ''http://b/pub/../x''\<rparr>"
  by (simp add: resolve_eval Resolve_def mount_eval)

end
