(* ===== verification/Policy.thy ===== *)
theory Policy
  imports Go_Net Selection "HOL-Library.Product_Lexorder"
begin

text \<open>
  \<^verbatim>\<open>policy/policy.go\<close>: rules, their validation, the evaluation loop and its decision, and the guard
  \<^verbatim>\<open>Enforce\<close>. The loop meets the contract \<open>best_of\<close> with the key (priority, is a reject); the lemmas
  turn that into the statement of who is allowed.
\<close>

section \<open>Rules, requests, decisions\<close>

text \<open>\<^verbatim>\<open>Effect\<close> and \<^verbatim>\<open>ReasonCode\<close> are string types in the source: any text can stand in a rule.\<close>

definition Permit :: string where
  [simp]: "Permit = ''permit''"

definition Reject :: string where
  [simp]: "Reject = ''reject''"

datatype ReasonCode = ReasonDefaultDeny | ReasonExplicitPermit | ReasonExplicitReject

record PolicyRequest =
  prSource :: string
  prProtocol :: string
  prDestination :: string
  prMethod :: string
  prMount :: string

record Rule =
  Effect :: string
  Priority :: int
  rSource :: string
  rProtocol :: string
  rDestination :: string
  rMethod :: string
  rMount :: string

record Decision =
  Allowed :: bool
  Reason :: ReasonCode
  RuleIndex :: int

datatype policy_error =
    UnknownEffect string
  | InvalidSourceCIDR string
  | InvalidSourceAddress string
  | InvalidDestinationWildcard string

section \<open>Matching\<close>

definition matches :: "string \<Rightarrow> string \<Rightarrow> bool \<Rightarrow> bool" where
  "matches pattern val foldCase =
     (if pattern = [] \<or> pattern = ''*'' then True
      else if foldCase then EqualFold pattern val
      else pattern = val)"

definition sourceMatches :: "string \<Rightarrow> string \<Rightarrow> bool" where
  "sourceMatches pattern val =
     (if pattern = [] \<or> pattern = ''*'' then True
      else (case ParsePrefix pattern of
        Some pre \<Rightarrow> (case ParseAddr val of None \<Rightarrow> False | Some address \<Rightarrow> PrefixContains pre address)
      | None \<Rightarrow> pattern = val))"

definition destinationMatches :: "string \<Rightarrow> string \<Rightarrow> bool" where
  "destinationMatches pattern val =
     (if pattern = [] \<or> pattern = ''*'' then True
      else if HasPrefix pattern ''*.'' then
        (let suff = ToLower (TrimPrefix pattern ''*'')
         in HasSuffix (ToLower val) suff \<and> length suff < length val)
      else EqualFold pattern val)"

definition ruleMatches :: "Rule \<Rightarrow> PolicyRequest \<Rightarrow> bool" where
  "ruleMatches rule request \<longleftrightarrow>
     sourceMatches (rSource rule) (prSource request) \<and>
     matches (rProtocol rule) (prProtocol request) True \<and>
     destinationMatches (rDestination rule) (prDestination request) \<and>
     matches (rMethod rule) (prMethod request) True \<and>
     matches (rMount rule) (prMount request) False"

section \<open>Validation\<close>

definition Rule_Validate :: "Rule \<Rightarrow> policy_error option" where
  "Rule_Validate r =
     (if Effect r \<noteq> Permit \<and> Effect r \<noteq> Reject then Some (UnknownEffect (Effect r))
      else
        check (if rSource r \<noteq> [] \<and> rSource r \<noteq> ''*'' then
                 (if Contains (rSource r) ''/'' then
                    (if ParsePrefix (rSource r) = None then Some (InvalidSourceCIDR (rSource r)) else None)
                  else if ParseAddr (rSource r) = None then Some (InvalidSourceAddress (rSource r))
                  else None)
               else None)
          (if Contains (rDestination r) ''*'' \<and> rDestination r \<noteq> ''*'' \<and>
              (\<not> HasPrefix (rDestination r) ''*.'' \<or> Count (rDestination r) CHR ''*'' \<noteq> 1)
           then Some (InvalidDestinationWildcard (rDestination r)) else None))"

section \<open>Evaluation\<close>

text \<open>The guard of the loop: a rule with a known effect that matches the request.\<close>

definition applies :: "PolicyRequest \<Rightarrow> Rule \<Rightarrow> bool" where
  "applies request rule \<longleftrightarrow>
     (Effect rule = Permit \<or> Effect rule = Reject) \<and> ruleMatches rule request"

text \<open>One iteration; \<open>winner\<close> is \<open>-1\<close> or an index into the rules.\<close>

definition evaluate_step :: "Rule list \<Rightarrow> PolicyRequest \<Rightarrow> int \<Rightarrow> nat \<Rightarrow> int" where
  "evaluate_step rules request winner i =
     (let rule = rules ! i; best = rules ! nat winner in
      if \<not> applies request rule then winner
      else if winner = -1 \<or> Priority best < Priority rule \<or>
              (Priority rule = Priority best \<and> Effect rule = Reject \<and> Effect best \<noteq> Reject)
      then int i
      else winner)"

definition Evaluate :: "Rule list \<Rightarrow> PolicyRequest \<Rightarrow> Decision" where
  "Evaluate rules request =
     (let winner = foldl (evaluate_step rules request) (-1) [0..<length rules] in
      if winner = -1 then \<lparr>Allowed = False, Reason = ReasonDefaultDeny, RuleIndex = -1\<rparr>
      else if Effect (rules ! nat winner) = Reject
      then \<lparr>Allowed = False, Reason = ReasonExplicitReject, RuleIndex = winner\<rparr>
      else \<lparr>Allowed = True, Reason = ReasonExplicitPermit, RuleIndex = winner\<rparr>)"

text \<open>
  \<^verbatim>\<open>Enforce\<close>: the guarded action reads and changes a state \<open>'s\<close> (the backend) and returns an error or
  \<open>None\<close>; a nil function is \<open>None\<close>.
\<close>

datatype 'e enforce_error = ErrDenied ReasonCode | NextError 'e

definition Enforce ::
    "Decision \<Rightarrow> ('s \<Rightarrow> 's \<times> 'e option) option \<Rightarrow> 's \<Rightarrow> 's \<times> 'e enforce_error option" where
  "Enforce d nxt s =
     (if \<not> Allowed d then (s, Some (ErrDenied (Reason d)))
      else (case nxt of
        None \<Rightarrow> (s, None)
      | Some f \<Rightarrow> (case f s of (t, e) \<Rightarrow> (t, map_option NextError e))))"

section \<open>The loop meets the contract\<close>

definition strength :: "Rule \<Rightarrow> int \<times> bool" where
  "strength r = (Priority r, Effect r = Reject)"

lemma strength_less:
  "strength q < strength r \<longleftrightarrow>
     Priority q < Priority r \<or> (Priority r = Priority q \<and> Effect r = Reject \<and> Effect q \<noteq> Reject)"
  by (auto simp: strength_def less_prod_simp)

interpretation evaluator: best_of "\<lambda>i. if applies request (rules ! i) then Some i else None"
  "\<lambda>i. strength (rules ! i)" "evaluate_step rules request" "\<lambda>w. if w = -1 then None else Some (nat w)"
  for rules request
  by unfold_locales
     (auto simp: evaluate_step_def Let_def strength_less split: if_splits)

lemma winner_range: "foldl (evaluate_step rules request) (-1) is \<in> insert (-1) (int ` set is)"
  by (induction "is" rule: rev_induct) (auto simp: evaluate_step_def Let_def)

text \<open>The applicable positions, in order.\<close>

abbreviation applicable :: "Rule list \<Rightarrow> PolicyRequest \<Rightarrow> nat list" where
  "applicable rules request \<equiv> filter (\<lambda>i. applies request (rules ! i)) [0..<length rules]"

lemma offers_filter: "offers (\<lambda>i. if P i then Some i else None) xs = filter P xs"
  by (induction xs) auto

text \<open>The whole loop: no applicable rule, or the first of the strongest ones.\<close>

lemma Evaluate_cases:
  obtains (none) "\<forall>r \<in> set rules. \<not> applies request r"
      "Evaluate rules request = \<lparr>Allowed = False, Reason = ReasonDefaultDeny, RuleIndex = -1\<rparr>"
  | (rule) i where "first_best (\<lambda>i. strength (rules ! i)) (applicable rules request) i"
      "Evaluate rules request =
         (if Effect (rules ! i) = Reject
          then \<lparr>Allowed = False, Reason = ReasonExplicitReject, RuleIndex = int i\<rparr>
          else \<lparr>Allowed = True, Reason = ReasonExplicitPermit, RuleIndex = int i\<rparr>)"
proof (cases "foldl (evaluate_step rules request) (-1) [0..<length rules] = -1")
  case True
  then have "filter (\<lambda>i. applies request (rules ! i)) [0..<length rules] = []"
    using evaluator.win_None_iff [of "-1" rules request "[0..<length rules]"]
    by (simp add: offers_filter)
  then have "\<forall>r \<in> set rules. \<not> applies request r"
    by (auto simp: filter_empty_conv in_set_conv_nth)
  with True none show ?thesis by (simp add: Evaluate_def)
next
  case False
  then obtain i where i: "foldl (evaluate_step rules request) (-1) [0..<length rules] = int i"
    using winner_range [of rules request "[0..<length rules]"] by auto
  have "first_best (\<lambda>i. strength (rules ! i)) (applicable rules request) i"
    using evaluator.win_Some [of "-1" rules request "[0..<length rules]" i] i
    by (simp add: offers_filter)
  with i rule show ?thesis by (simp add: Evaluate_def)
qed

lemma applicable_iff: "i \<in> set (applicable rules request) \<longleftrightarrow> i < length rules \<and> applies request (rules ! i)"
  by auto

lemma first_best_applicable:
  assumes "first_best (\<lambda>i. strength (rules ! i)) (applicable rules request) i"
  shows "i < length rules" "applies request (rules ! i)"
    "\<And>r. r \<in> set rules \<Longrightarrow> applies request r \<Longrightarrow> strength r \<le> strength (rules ! i)"
    "\<And>j. j < i \<Longrightarrow> applies request (rules ! j) \<Longrightarrow> strength (rules ! j) < strength (rules ! i)"
proof -
  show i: "i < length rules" "applies request (rules ! i)"
    using first_best_in [OF assms] by auto
  show "strength r \<le> strength (rules ! i)" if r: "r \<in> set rules" "applies request r" for r
  proof -
    from r obtain j where "j < length rules" "r = rules ! j" by (auto simp: in_set_conv_nth)
    with r show ?thesis using first_best_greatest [OF assms, of j] by simp
  qed
  obtain ys zs where yz: "applicable rules request = ys @ i # zs"
    and ys: "\<forall>c \<in> set ys. strength (rules ! c) < strength (rules ! i)"
    using assms by (auto simp: first_best_def)
  have "sorted_wrt (<) (applicable rules request)" by (simp add: sorted_wrt_filter)
  then have zs: "\<forall>k \<in> set zs. i < k" unfolding yz by (simp add: sorted_wrt_append)
  show "strength (rules ! j) < strength (rules ! i)" if j: "j < i" "applies request (rules ! j)" for j
  proof -
    have "j \<in> set (applicable rules request)" using j i by simp
    then have "j \<in> set ys" unfolding yz using j zs by auto
    with ys show ?thesis by blast
  qed
qed

lemma strength_le:
  "strength q \<le> strength r \<longleftrightarrow>
     Priority q < Priority r \<or> Priority q = Priority r \<and> (Effect q = Reject \<longrightarrow> Effect r = Reject)"
  by (auto simp: strength_def less_eq_prod_simp)

lemma Evaluate_Allowed:
  "Allowed (Evaluate rules request) \<longleftrightarrow>
     (\<exists>r \<in> set rules. Effect r = Permit \<and> ruleMatches r request \<and>
        (\<forall>q \<in> set rules. Effect q = Reject \<and> ruleMatches q request \<longrightarrow> Priority q < Priority r))"
    (is "_ \<longleftrightarrow> ?R")
proof (cases rule: Evaluate_cases [of rules request])
  case none
  then show ?thesis by (auto simp: applies_def)
next
  case (rule i)
  note best = first_best_applicable [OF rule(1)]
  show ?thesis
  proof (cases "Effect (rules ! i) = Reject")
    case True
    have "\<not> Priority (rules ! i) < Priority r" if "r \<in> set rules" "Effect r = Permit" "ruleMatches r request" for r
      using best(3) [of r] that by (auto simp: applies_def strength_le)
    then have "\<not> ?R" using best(1,2) True by (auto simp: applies_def)
    with True rule(2) show ?thesis by simp
  next
    case False
    then have "Effect (rules ! i) = Permit" using best(2) by (auto simp: applies_def)
    moreover have "Priority q < Priority (rules ! i)"
      if "q \<in> set rules" "Effect q = Reject" "ruleMatches q request" for q
      using best(3) [of q] that False by (auto simp: applies_def strength_le)
    ultimately have ?R using best(1,2) by (intro bexI [of _ "rules ! i"]) (auto simp: applies_def)
    with False rule(2) show ?thesis by simp
  qed
qed

lemma Evaluate_Reason:
  "Reason (Evaluate rules request) =
     (if Allowed (Evaluate rules request) then ReasonExplicitPermit
      else if \<exists>r \<in> set rules. applies request r then ReasonExplicitReject
      else ReasonDefaultDeny)"
proof (cases rule: Evaluate_cases [of rules request])
  case (rule i)
  then show ?thesis using first_best_applicable(1,2) [OF rule(1)] by auto
qed auto

section \<open>Properties\<close>

lemmas policy_eval = Evaluate_def evaluate_step_def applies_def ruleMatches_def sourceMatches_def
  matches_def destinationMatches_def Rule_Validate_def go_defs go_loops

abbreviation any_rule :: "string \<Rightarrow> int \<Rightarrow> Rule" where
  "any_rule e p \<equiv> \<lparr>Effect = e, Priority = p, rSource = [], rProtocol = [], rDestination = [], rMethod = [],
     rMount = []\<rparr>"

abbreviation get_request :: PolicyRequest where
  "get_request \<equiv> \<lparr>prSource = ''10.0.0.1'', prProtocol = ''http'', prDestination = ''b'', prMethod = ''GET'',
     prMount = ''/a''\<rparr>"

text \<open>C4: who is allowed. A request is allowed exactly when a matching permit rule has a priority
  greater than that of every matching reject rule; so without a matching permit it is denied, and a
  reject wins a tie.\<close>

theorem Evaluate_allowed_iff:
  "Allowed (Evaluate rules request) \<longleftrightarrow>
     (\<exists>r \<in> set rules. Effect r = Permit \<and> ruleMatches r request \<and>
        (\<forall>q \<in> set rules. Effect q = Reject \<and> ruleMatches q request \<longrightarrow> Priority q < Priority r))"
  by (rule Evaluate_Allowed)

theorem Evaluate_allowed_iff_witness:
  "\<not> Allowed (Evaluate [any_rule ''permit'' 1, any_rule ''reject'' 1] get_request) \<and>
   Allowed (Evaluate [any_rule ''permit'' 2, any_rule ''reject'' 1] get_request)"
  unfolding Evaluate_allowed_iff
  by (simp add: ruleMatches_def sourceMatches_def matches_def destinationMatches_def)

text \<open>The decision is auditable. Its index is \<open>-1\<close> exactly for the default denial, when no rule
  applies; otherwise it is the position of an applicable rule, no applicable rule has a greater
  priority, none of the same priority is a reject unless it is one itself, it is the first such rule,
  and the reason is its effect.\<close>

theorem Evaluate_rule_index:
  "let d = Evaluate rules request; i = nat (RuleIndex d) in
   (RuleIndex d = -1 \<and> Reason d = ReasonDefaultDeny \<and> \<not> Allowed d \<and> (\<forall>r \<in> set rules. \<not> applies request r)) \<or>
   (RuleIndex d = int i \<and> i < length rules \<and> applies request (rules ! i) \<and>
    (\<forall>r \<in> set rules. applies request r \<longrightarrow> strength r \<le> strength (rules ! i)) \<and>
    (\<forall>j < i. applies request (rules ! j) \<longrightarrow> strength (rules ! j) < strength (rules ! i)) \<and>
    (if Effect (rules ! i) = Reject then Reason d = ReasonExplicitReject \<and> \<not> Allowed d
     else Effect (rules ! i) = Permit \<and> Reason d = ReasonExplicitPermit \<and> Allowed d))"
proof (cases rule: Evaluate_cases [of rules request])
  case none
  then show ?thesis by simp
next
  case (rule i)
  have "Effect (rules ! i) = Permit" if "Effect (rules ! i) \<noteq> Reject"
    using that first_best_applicable(2) [OF rule(1)] by (auto simp: applies_def)
  then show ?thesis using first_best_applicable [OF rule(1)] rule(2) by (auto simp: Let_def)
qed

theorem Evaluate_rule_index_witness:
  "RuleIndex (Evaluate [any_rule ''permit'' 1, any_rule ''reject'' 1, any_rule ''reject'' 1] get_request) = 1"
  using Evaluate_rule_index [of "[any_rule ''permit'' 1, any_rule ''reject'' 1, any_rule ''reject'' 1]"
      get_request]
  by (simp add: policy_eval)

text \<open>The order of the rules never changes whether a request is allowed, nor the reason.\<close>

theorem Evaluate_order_independent:
  assumes "set rules = set rules'"
  shows "Allowed (Evaluate rules request) = Allowed (Evaluate rules' request) \<and>
    Reason (Evaluate rules request) = Reason (Evaluate rules' request)"
  by (simp only: Evaluate_Reason Evaluate_Allowed assms)

theorem Evaluate_order_independent_witness:
  "Allowed (Evaluate [any_rule ''permit'' 1, any_rule ''reject'' 1] get_request) =
     Allowed (Evaluate [any_rule ''reject'' 1, any_rule ''permit'' 1] get_request)"
  using Evaluate_order_independent [of "[any_rule ''permit'' 1, any_rule ''reject'' 1]"
      "[any_rule ''reject'' 1, any_rule ''permit'' 1]" get_request]
  by auto

text \<open>Rejects only restrict. Inserting a reject rule, or a rule of unknown effect, at any place
  never turns a denial into a permission.\<close>

theorem Evaluate_reject_monotone:
  assumes "Effect r \<noteq> Permit" and "Allowed (Evaluate (xs @ r # ys) request)"
  shows "Allowed (Evaluate (xs @ ys) request)"
  using assms unfolding Evaluate_Allowed by auto

theorem Evaluate_reject_monotone_witness:
  "Allowed (Evaluate ([any_rule ''permit'' 2] @ []) get_request)"
  by (rule Evaluate_reject_monotone [of "any_rule ''reject'' 1"]) (simp_all add: policy_eval)

text \<open>Fail closed. The guarded action is not run for a request without a permission: the state it
  works on is unchanged and the error is the denial; for an allowed one its effect and its error are
  passed on unchanged.\<close>

theorem Enforce_fail_closed:
  "Enforce (Evaluate rules request) (Some nxt) s =
     (if \<exists>r \<in> set rules. Effect r = Permit \<and> ruleMatches r request \<and>
          (\<forall>q \<in> set rules. Effect q = Reject \<and> ruleMatches q request \<longrightarrow> Priority q < Priority r)
      then (fst (nxt s), map_option NextError (snd (nxt s)))
      else (s, Some (ErrDenied (Reason (Evaluate rules request)))))"
  unfolding Evaluate_Allowed [symmetric] by (simp add: Enforce_def split: prod.splits)

theorem Enforce_fail_closed_witness:
  "Enforce (Evaluate [any_rule ''permit'' 1, any_rule ''reject'' 1] get_request)
     (Some (\<lambda>n. (Suc n, Some ''failed''))) 0 = (0, Some (ErrDenied ReasonExplicitReject))"
  unfolding Enforce_fail_closed by (simp add: policy_eval)

text \<open>A source rule that is an address, not a prefix, is compared as text, while validation only
  asks that it parses. The rule source \<^verbatim>\<open>2001:DB8::1\<close> is valid, but it does not match the canonical
  text of the very address it denotes.\<close>

theorem sourceMatches_textual:
  "Rule_Validate ((any_rule ''reject'' 9) \<lparr>rSource := ''2001:DB8::1''\<rparr>) = None \<and>
   map_option AddrString (ParseAddr ''2001:DB8::1'') = Some ''2001:db8::1'' \<and>
   \<not> sourceMatches ''2001:DB8::1'' ''2001:db8::1''"
  by (simp add: policy_eval)

end
