(* ===== verification/Config.thy ===== *)
theory Config
  imports Mount_Resolve Policy
begin

text \<open>
  \<^verbatim>\<open>config/config.go\<close> and \<^verbatim>\<open>config/toml.go\<close>: the configuration, its validation and the decoder's
  wrapper. The TOML decoder itself is a third-party package and a parameter of \<open>ParseTOML\<close>.
\<close>

section \<open>The configuration\<close>

record Server =
  sName :: string
  sProtocol :: string
  sListen :: string
  ClientIPHeader :: string
  TrustedProxies :: "string list"
  sTLS :: "Frontend option"

record Config =
  Servers :: "Server list"
  Mounts :: "Mount list"
  Policies :: "Rule list"

datatype config_error =
    NoServers
  | ServerNameRequired nat
  | ServerProtocolRequired string
  | ServerListenRequired string
  | HeaderNeedsProxies string
  | ProxiesNeedHeader string
  | InvalidClientIPHeader string string
  | InvalidTrustedProxy string string
  | ServerTLS string tls_error
  | DuplicateServerName string
  | DuplicateListen string
  | MountInvalid nat mount_error
  | MountUnknownServer nat string
  | MountProtocolMismatch nat string string string
  | MountProtocolUnmatched nat string
  | PolicyInvalid nat policy_error

section \<open>Validation\<close>

definition validHeaderName :: "string \<Rightarrow> bool" where
  "validHeaderName name \<longleftrightarrow>
     list_all (\<lambda>character.
         97 \<le> character \<and> character \<le> 122 \<or>
         65 \<le> character \<and> character \<le> 90 \<or>
         48 \<le> character \<and> character \<le> 57 \<or>
         List.member (map byte ''!#$%&'') character \<or> character = 39 \<or>
         List.member (map byte ''*+-.^_'') character \<or> character = 96 \<or>
         List.member (map byte ''|~'') character) (runes name) \<and>
     name \<noteq> []"

text \<open>The checks of one server that look at no other server (lines 38 to 68).\<close>

definition validate_server :: "nat \<Rightarrow> Server \<Rightarrow> config_error option" where
  "validate_server i s =
     (if TrimSpace (sName s) = [] then Some (ServerNameRequired i)
      else if TrimSpace (sProtocol s) = [] then Some (ServerProtocolRequired (sName s))
      else if TrimSpace (sListen s) = [] then Some (ServerListenRequired (sName s))
      else if ClientIPHeader s \<noteq> [] \<and> TrustedProxies s = [] then Some (HeaderNeedsProxies (sName s))
      else if TrustedProxies s \<noteq> [] \<and> ClientIPHeader s = [] then Some (ProxiesNeedHeader (sName s))
      else if ClientIPHeader s \<noteq> [] \<and> \<not> validHeaderName (ClientIPHeader s)
      then Some (InvalidClientIPHeader (sName s) (ClientIPHeader s))
      else
        check (first_error (\<lambda>_ p. if ParsePrefix p = None then Some (InvalidTrustedProxy (sName s) p) else None)
                 0 (TrustedProxies s))
          (case sTLS s of
             None \<Rightarrow> None
           | Some tls \<Rightarrow> map_option (ServerTLS (sName s)) (Frontend_Validate tls)))"

text \<open>The loop over the servers, with the names and listen addresses seen so far.\<close>

fun validate_servers :: "nat \<Rightarrow> string set \<Rightarrow> string set \<Rightarrow> Server list \<Rightarrow> config_error option" where
  "validate_servers i seen seenListen [] = None"
| "validate_servers i seen seenListen (s # ss) =
     check (validate_server i s)
       (if sName s \<in> seen then Some (DuplicateServerName (sName s))
        else if sListen s \<in> seenListen then Some (DuplicateListen (sListen s))
        else validate_servers (Suc i) (insert (sName s) seen) (insert (sListen s) seenListen) ss)"

text \<open>The body of the loop over the mounts.\<close>

definition validate_scope :: "Server list \<Rightarrow> nat \<Rightarrow> Mount \<Rightarrow> config_error option" where
  "validate_scope servers i m =
     (let named = (mServer m \<noteq> [] \<and> mServer m \<noteq> ''*'');
          scopedServer = (if named then find (\<lambda>s. sName s = mServer m) servers else None)
      in if named \<and> scopedServer = None then Some (MountUnknownServer i (mServer m))
         else if mProtocol m \<noteq> [] \<and> mProtocol m \<noteq> ''*'' then
           (case scopedServer of
              Some s \<Rightarrow>
                if \<not> EqualFold (sProtocol s) (mProtocol m)
                then Some (MountProtocolMismatch i (mProtocol m) (sName s) (sProtocol s)) else None
            | None \<Rightarrow>
                if \<not> list_ex (\<lambda>s. EqualFold (sProtocol s) (mProtocol m)) servers
                then Some (MountProtocolUnmatched i (mProtocol m)) else None)
         else None)"

definition validate_mount :: "Server list \<Rightarrow> nat \<Rightarrow> Mount \<Rightarrow> config_error option" where
  "validate_mount servers i m =
     check (map_option (MountInvalid i) (Mount_Validate m)) (validate_scope servers i m)"

definition Config_Validate :: "Config \<Rightarrow> config_error option" where
  "Config_Validate c =
     (if Servers c = [] then Some NoServers
      else
        check (validate_servers 0 {} {} (Servers c))
          (check (first_error (validate_mount (Servers c)) 0 (Mounts c))
            (first_error (\<lambda>i r. map_option (PolicyInvalid i) (Rule_Validate r)) 0 (Policies c))))"

section \<open>Decoding\<close>

text \<open>What the decoder reports: unknown keys, a syntax error at a position, anything else.\<close>

datatype toml_error =
    StrictMissingError "string list list"
  | DecodeError nat nat string
  | OtherDecodeError string

datatype parse_error =
    InputRequired
  | UnknownFields string
  | TOMLSyntax nat nat string
  | TOMLDecode string
  | TOMLInvalid config_error

definition ParseTOML ::
    "('i \<Rightarrow> (toml_error, Config) result) \<Rightarrow> 'i option \<Rightarrow> (parse_error, Config) result" where
  "ParseTOML decode input =
     (case input of
        None \<Rightarrow> Inl InputRequired
      | Some text \<Rightarrow>
          (case decode text of
             Inl (StrictMissingError keys) \<Rightarrow> Inl (UnknownFields (Join (map (\<lambda>k. Join k ''.'') keys) '', ''))
           | Inl (DecodeError row column msg) \<Rightarrow> Inl (TOMLSyntax row column msg)
           | Inl (OtherDecodeError msg) \<Rightarrow> Inl (TOMLDecode msg)
           | Inr c \<Rightarrow> (case Config_Validate c of
               Some e \<Rightarrow> Inl (TOMLInvalid e)
             | None \<Rightarrow> Inr c)))"

section \<open>What validation accepts\<close>

definition token_char :: "char \<Rightarrow> bool" where
  "token_char c \<longleftrightarrow>
     97 \<le> byte c \<and> byte c \<le> 122 \<or> 65 \<le> byte c \<and> byte c \<le> 90 \<or> 48 \<le> byte c \<and> byte c \<le> 57 \<or>
     byte c \<in> {33, 35, 36, 37, 38, 39, 42, 43, 45, 46, 94, 95, 96, 124, 126}"

definition good_server :: "Server \<Rightarrow> bool" where
  "good_server s \<longleftrightarrow>
     TrimSpace (sName s) \<noteq> [] \<and> TrimSpace (sProtocol s) \<noteq> [] \<and> TrimSpace (sListen s) \<noteq> [] \<and>
     (ClientIPHeader s = [] \<longleftrightarrow> TrustedProxies s = []) \<and>
     (ClientIPHeader s \<noteq> [] \<longrightarrow> validHeaderName (ClientIPHeader s)) \<and>
     (\<forall>p \<in> set (TrustedProxies s). ParsePrefix p \<noteq> None) \<and>
     (\<forall>tls. sTLS s = Some tls \<longrightarrow> Frontend_Validate tls = None)"

definition good_scope :: "Server list \<Rightarrow> Mount \<Rightarrow> bool" where
  "good_scope servers m \<longleftrightarrow>
     (\<exists>s \<in> set servers.
        (mServer m \<in> {[], ''*''} \<or> sName s = mServer m) \<and>
        (mProtocol m \<in> {[], ''*''} \<or> EqualFold (sProtocol s) (mProtocol m)))"

lemma validate_server_None: "validate_server i s = None \<longleftrightarrow> good_server s"
  by (auto simp: validate_server_def good_server_def first_error_None_const split: option.splits)

lemma validate_servers_None:
  "validate_servers i seen seenListen ss = None \<longleftrightarrow>
     (\<forall>s \<in> set ss. good_server s \<and> sName s \<notin> seen \<and> sListen s \<notin> seenListen) \<and>
     distinct (map sName ss) \<and> distinct (map sListen ss)"
proof (induction ss arbitrary: i seen seenListen)
  case (Cons s ss)
  have "f s \<notin> f ` set ss \<longleftrightarrow> (\<forall>t \<in> set ss. f t \<noteq> f s)" for f :: "Server \<Rightarrow> string" by (metis image_iff)
  then show ?case using Cons by (auto simp: validate_server_None)
qed simp

lemma find_unique:
  assumes "distinct (map f xs)" and "x \<in> set xs"
  shows "find (\<lambda>y. f y = f x) xs = Some x"
  using assms by (induction xs) auto

lemma validate_scope_None:
  assumes "distinct (map sName servers)" and "servers \<noteq> []"
  shows "validate_scope servers i m = None \<longleftrightarrow> good_scope servers m"
proof (cases "mServer m \<in> {[], ''*''}")
  case True
  have "\<exists>s. s \<in> set servers" using assms(2) by (cases servers) auto
  with True show ?thesis by (auto simp: validate_scope_def good_scope_def list_ex_iff)
next
  case False
  show ?thesis
  proof (cases "\<exists>s \<in> set servers. sName s = mServer m")
    case True
    then obtain s where s: "s \<in> set servers" "sName s = mServer m" by blast
    have "find (\<lambda>y. sName y = mServer m) servers = Some s" using find_unique [OF assms(1) s(1)] s(2) by simp
    moreover have "t = s" if "t \<in> set servers" "sName t = mServer m" for t
      using that s assms(1) by (metis distinct_map inj_onD)
    then have "good_scope servers m \<longleftrightarrow>
        mProtocol m \<in> {[], ''*''} \<or> EqualFold (sProtocol s) (mProtocol m)"
      unfolding good_scope_def using False s by blast
    ultimately show ?thesis using False by (simp add: validate_scope_def) blast
  next
    case none: False
    then have "find (\<lambda>y. sName y = mServer m) servers = None" by (auto simp: find_None_iff)
    with False none show ?thesis by (auto simp: validate_scope_def good_scope_def)
  qed
qed

text \<open>The well-formedness of a configuration, without the order of the checks.\<close>

definition wf_config :: "Config \<Rightarrow> bool" where
  "wf_config c \<longleftrightarrow>
     Servers c \<noteq> [] \<and> (\<forall>s \<in> set (Servers c). good_server s) \<and>
     distinct (map sName (Servers c)) \<and> distinct (map sListen (Servers c)) \<and>
     (\<forall>m \<in> set (Mounts c). Mount_Validate m = None \<and> good_scope (Servers c) m) \<and>
     (\<forall>r \<in> set (Policies c). Rule_Validate r = None)"

lemma Config_Validate_wf: "Config_Validate c = None \<longleftrightarrow> wf_config c"
proof (cases "Servers c \<noteq> [] \<and> distinct (map sName (Servers c))")
  case True
  have "first_error (validate_mount (Servers c)) 0 (Mounts c) = None \<longleftrightarrow>
      (\<forall>m \<in> set (Mounts c). Mount_Validate m = None \<and> good_scope (Servers c) m)"
    using True by (simp add: first_error_None validate_mount_def validate_scope_None all_set_conv_all_nth)
  moreover have "first_error (\<lambda>i r. map_option (PolicyInvalid i) (Rule_Validate r)) 0 (Policies c) = None \<longleftrightarrow>
      (\<forall>r \<in> set (Policies c). Rule_Validate r = None)"
    by (simp add: first_error_None all_set_conv_all_nth)
  ultimately show ?thesis
    using True by (simp add: Config_Validate_def wf_config_def validate_servers_None)
next
  case False
  then show ?thesis by (auto simp: Config_Validate_def wf_config_def validate_servers_None)
qed

lemma validHeaderName_token: "validHeaderName name \<longleftrightarrow> name \<noteq> [] \<and> (\<forall>c \<in> set name. token_char c)"
proof -
  let ?P = "\<lambda>c :: nat. 97 \<le> c \<and> c \<le> 122 \<or> 65 \<le> c \<and> c \<le> 90 \<or> 48 \<le> c \<and> c \<le> 57 \<or>
     c \<in> {33, 35, 36, 37, 38, 39, 42, 43, 45, 46, 94, 95, 96, 124, 126}"
  have v: "validHeaderName name \<longleftrightarrow> name \<noteq> [] \<and> (\<forall>c \<in> set (runes name). ?P c)"
    by (auto simp: validHeaderName_def list_all_iff)
  show ?thesis
  proof (cases "\<forall>c \<in> set name. byte c < 128")
    case True
    then show ?thesis unfolding v by (auto simp: runes_ascii token_char_def)
  next
    case False
    then have "\<not> (\<forall>c \<in> set (runes name). c < 128)" by (simp add: runes_all_ascii)
    moreover have "?P c \<Longrightarrow> c < 128" for c by auto
    ultimately have "\<not> validHeaderName name" unfolding v by blast
    moreover have "\<not> (\<forall>c \<in> set name. token_char c)"
      using False by (fastforce simp: token_char_def)
    ultimately show ?thesis by blast
  qed
qed

section \<open>Properties\<close>

text \<open>C26: what a valid configuration is, independent of the order of the checks: at least one server;
  every server has a name, a protocol and a listen address, an RFC 9110 token as its client address
  header exactly when it has trusted proxies, trusted proxies that parse, and a valid TLS policy; names
  and listen addresses are unique; every mapping is valid and some server has the name and the protocol
  it is scoped to; every rule is valid.\<close>

theorem Config_Validate_accepts:
  "Config_Validate c = None \<longleftrightarrow>
     Servers c \<noteq> [] \<and>
     (\<forall>s \<in> set (Servers c).
        TrimSpace (sName s) \<noteq> [] \<and> TrimSpace (sProtocol s) \<noteq> [] \<and> TrimSpace (sListen s) \<noteq> [] \<and>
        (ClientIPHeader s = [] \<longleftrightarrow> TrustedProxies s = []) \<and>
        (\<forall>ch \<in> set (ClientIPHeader s). token_char ch) \<and>
        (\<forall>p \<in> set (TrustedProxies s). ParsePrefix p \<noteq> None) \<and>
        (\<forall>tls. sTLS s = Some tls \<longrightarrow> Frontend_Validate tls = None)) \<and>
     distinct (map sName (Servers c)) \<and> distinct (map sListen (Servers c)) \<and>
     (\<forall>m \<in> set (Mounts c). Mount_Validate m = None \<and>
        (\<exists>s \<in> set (Servers c). (mServer m \<in> {[], ''*''} \<or> sName s = mServer m) \<and>
           (mProtocol m \<in> {[], ''*''} \<or> EqualFold (sProtocol s) (mProtocol m)))) \<and>
     (\<forall>r \<in> set (Policies c). Rule_Validate r = None)"
proof -
  have "good_server s \<longleftrightarrow>
      TrimSpace (sName s) \<noteq> [] \<and> TrimSpace (sProtocol s) \<noteq> [] \<and> TrimSpace (sListen s) \<noteq> [] \<and>
        (ClientIPHeader s = [] \<longleftrightarrow> TrustedProxies s = []) \<and>
        (\<forall>ch \<in> set (ClientIPHeader s). token_char ch) \<and>
        (\<forall>p \<in> set (TrustedProxies s). ParsePrefix p \<noteq> None) \<and>
        (\<forall>tls. sTLS s = Some tls \<longrightarrow> Frontend_Validate tls = None)" for s
    by (cases "ClientIPHeader s = []") (auto simp: good_server_def validHeaderName_token)
  then show ?thesis by (simp only: Config_Validate_wf wf_config_def good_scope_def)
qed

abbreviation plain_server :: "string \<Rightarrow> string \<Rightarrow> string \<Rightarrow> Server" where
  "plain_server n p l \<equiv> \<lparr>sName = n, sProtocol = p, sListen = l, ClientIPHeader = [], TrustedProxies = [],
     sTLS = None\<rparr>"

theorem Config_Validate_accepts_witness:
  "Config_Validate \<lparr>Servers = [plain_server ''a'' ''http'' '':80''], Mounts = [], Policies = []\<rparr> = None"
  unfolding Config_Validate_accepts by (simp add: go_defs go_loops)

end
