(* ===== verification/Headers.thy ===== *)
theory Headers
  imports Config
begin

text \<open>
  The header handling of \<^verbatim>\<open>server/http.go\<close>: canonical names, hop-by-hop headers and the copies made of
  request and response headers. A Go map of headers is an association list with distinct keys whose
  order is the order in which the map is iterated; the theorems hold for every order.
\<close>

section \<open>Headers\<close>

type_synonym header = "(string \<times> string list) list"

text \<open>\<^verbatim>\<open>http.CanonicalHeaderKey\<close>: unchanged when a byte is no token byte; otherwise a letter is upper case at
  the start and after a hyphen and lower case elsewhere.\<close>

fun canonical_case :: "bool \<Rightarrow> string \<Rightarrow> string" where
  "canonical_case up [] = []"
| "canonical_case up (c # cs) =
     (if up \<and> 97 \<le> byte c \<and> byte c \<le> 122 then char_of (byte c - 32)
      else if \<not> up \<and> 65 \<le> byte c \<and> byte c \<le> 90 then char_of (byte c + 32)
      else c) # canonical_case (c = CHR ''-'') cs"

definition CanonicalHeaderKey :: "string \<Rightarrow> string" where
  "CanonicalHeaderKey s = (if list_all token_char s then canonical_case True s else s)"

text \<open>\<^verbatim>\<open>Header.Values\<close>.\<close>

definition HeaderValues :: "header \<Rightarrow> string \<Rightarrow> string list" where
  "HeaderValues h key = (case map_of h (CanonicalHeaderKey key) of None \<Rightarrow> [] | Some vs \<Rightarrow> vs)"

definition hopByHopHeaders :: "string list" where
  "hopByHopHeaders =
     [''Connection'', ''Keep-Alive'', ''Proxy-Authenticate'', ''Proxy-Authorization'', ''Proxy-Connection'',
      ''Te'', ''Trailer'', ''Transfer-Encoding'', ''Upgrade'']"

section \<open>Sanitising\<close>

text \<open>The first loop: the names that the Connection header lists.\<close>

definition connection_names :: "string list \<Rightarrow> string set" where
  "connection_names values =
     set (filter (\<lambda>canonical. canonical \<noteq> [])
       (concat (map (\<lambda>val. map (\<lambda>name. CanonicalHeaderKey (TrimSpace name)) (Split val CHR '','')) values)))"

fun connectionHeaders :: "header \<Rightarrow> string set" where
  "connectionHeaders [] = {}"
| "connectionHeaders ((key, values) # rest) =
     (if EqualFold key ''Connection'' then connection_names values \<union> connectionHeaders rest
      else connectionHeaders rest)"

text \<open>\<^verbatim>\<open>result[canonical] = append(result[canonical], values...)\<close>.\<close>

fun append_header :: "header \<Rightarrow> string \<Rightarrow> string list \<Rightarrow> header" where
  "append_header [] k vs = [(k, vs)]"
| "append_header ((k', vs') # h) k vs =
     (if k' = k then (k', vs' @ vs) # h else (k', vs') # append_header h k vs)"

text \<open>The second loop.\<close>

definition sanitize_step :: "string set \<Rightarrow> header \<Rightarrow> string \<times> string list \<Rightarrow> header" where
  "sanitize_step skip result entry =
     (let canonical = CanonicalHeaderKey (fst entry) in
      if canonical = [] then result
      else if List.member hopByHopHeaders canonical then result
      else if canonical \<in> skip then result
      else append_header result canonical (snd entry))"

definition sanitizeHeader :: "header \<Rightarrow> header" where
  "sanitizeHeader source = foldl (sanitize_step (connectionHeaders source)) [] source"

definition cloneHeader :: "header \<Rightarrow> header" where
  "cloneHeader source = sanitizeHeader source"

definition copyResponseHeader :: "header \<Rightarrow> header \<Rightarrow> header" where
  "copyResponseHeader destination source =
     foldl (\<lambda>d (k, vs). append_header d k vs) destination (sanitizeHeader source)"

section \<open>Lemmas\<close>

lemma map_of_append_header:
  "map_of (append_header h k vs) n =
     (if n = k then Some ((case map_of h k of None \<Rightarrow> [] | Some us \<Rightarrow> us) @ vs) else map_of h n)"
  by (induction h k vs rule: append_header.induct) auto

text \<open>What may pass.\<close>

definition end_to_end :: "header \<Rightarrow> string \<Rightarrow> bool" where
  "end_to_end source n \<longleftrightarrow> n \<noteq> [] \<and> n \<notin> set hopByHopHeaders \<and> n \<notin> connectionHeaders source"

definition gathered :: "header \<Rightarrow> string \<Rightarrow> string list" where
  "gathered entries n = concat (map snd (filter (\<lambda>e. CanonicalHeaderKey (fst e) = n) entries))"

lemma sanitize_run:
  "map_of (foldl (sanitize_step (connectionHeaders source)) [] entries) n =
     (if end_to_end source n \<and> (\<exists>e \<in> set entries. CanonicalHeaderKey (fst e) = n)
      then Some (gathered entries n) else None)"
proof (induction entries rule: rev_induct)
  case (snoc e entries)
  let ?c = "CanonicalHeaderKey (fst e)"
  show ?case
  proof (cases "end_to_end source ?c")
    case True
    then have "sanitize_step (connectionHeaders source) r e = append_header r ?c (snd e)" for r
      by (simp add: sanitize_step_def end_to_end_def)
    with snoc True show ?thesis by (auto simp: map_of_append_header gathered_def split: if_splits)
  next
    case False
    then have "sanitize_step (connectionHeaders source) r e = r" for r
      by (auto simp: sanitize_step_def end_to_end_def Let_def)
    with snoc False show ?thesis by (auto simp: gathered_def)
  qed
qed simp

lemma sanitizeHeader_lookup:
  "map_of (sanitizeHeader source) n =
     (if end_to_end source n \<and> (\<exists>e \<in> set source. CanonicalHeaderKey (fst e) = n)
      then Some (gathered source n) else None)"
  by (simp add: sanitizeHeader_def sanitize_run)

section \<open>Properties\<close>

text \<open>C25: header hygiene between the two sides. A name is in the sanitised header exactly when some
  header has it as its canonical name and it is neither a hop-by-hop name nor listed in a Connection
  header; its values are all values sent under that name, in order. So a client cannot smuggle a
  hop-by-hop header past the proxy under another spelling, and nothing else is lost.\<close>

theorem sanitizeHeader_exact:
  "map_of (sanitizeHeader source) n =
     (if n \<noteq> [] \<and> n \<notin> set hopByHopHeaders \<and> n \<notin> connectionHeaders source \<and>
         n \<in> (\<lambda>e. CanonicalHeaderKey (fst e)) ` set source
      then Some (concat (map snd (filter (\<lambda>e. CanonicalHeaderKey (fst e) = n) source)))
      else None)"
  unfolding sanitizeHeader_lookup end_to_end_def gathered_def by (auto simp: image_iff)

end
