(* ===== verification/Operation.thy ===== *)
theory Operation
  imports Headers "HOL-Library.Word"
begin

text \<open>
  \<^verbatim>\<open>operation/operation.go\<close>: the protocol-neutral requests and results that frontends and connectors
  exchange, with the byte streams they carry and the errors the program tells apart with \<^verbatim>\<open>errors.Is\<close>.
\<close>

section \<open>Errors\<close>

text \<open>
  The errors of the program that a caller asks for with \<^verbatim>\<open>errors.Is\<close> or \<^verbatim>\<open>errors.As\<close>. An error value is the
  chain of errors it wraps.
\<close>

datatype sentinel =
    PolicyDenied
  | StoreBodyTooLarge
  | MaxBytesError
  | Unsupported
  | InvalidResource
  | OtherError string

type_synonym err = "sentinel list"

definition errors_Is :: "err \<Rightarrow> sentinel \<Rightarrow> bool" where
  "errors_Is e k = List.member e k"

definition ErrUnsupported :: err where
  "ErrUnsupported = [Unsupported]"

section \<open>Streams\<close>

text \<open>A reader is what it will deliver and how it ends; \<^verbatim>\<open>nil\<close> readers are \<open>None\<close> where they may occur.\<close>

datatype stream_end = StreamEOF | StreamError err

record stream =
  content :: string
  stream_end :: stream_end

definition empty_stream :: stream where
  "empty_stream = \<lparr>content = [], stream_end = StreamEOF\<rparr>"

text \<open>\<^verbatim>\<open>http.MaxBytesReader\<close>: the bytes up to the limit, then an error if there are more.\<close>

definition MaxBytesReader :: "stream \<Rightarrow> nat \<Rightarrow> stream" where
  "MaxBytesReader b n =
     (if n < length (content b) then \<lparr>content = take n (content b), stream_end = StreamError [MaxBytesError]\<rparr>
      else b)"

text \<open>\<^verbatim>\<open>io.Copy\<close> to a destination that takes \<open>room\<close> bytes before it fails, or all: the bytes that arrive, and whether
  the copy ended without error.\<close>

definition io_Copy :: "nat option \<Rightarrow> stream \<Rightarrow> string \<times> bool" where
  "io_Copy room src =
     (case room of
        Some k \<Rightarrow> if k < length (content src) then (take k (content src), False)
                  else (content src, stream_end src = StreamEOF)
      | None \<Rightarrow> (content src, stream_end src = StreamEOF))"

lemma io_Copy_prefix: "prefix (fst (io_Copy room src)) (content src)"
  by (auto simp: io_Copy_def take_is_prefix split: option.splits)

lemma io_Copy_all: "snd (io_Copy room src) \<Longrightarrow> fst (io_Copy room src) = content src"
  by (auto simp: io_Copy_def split: option.splits if_splits)

section \<open>Operations\<close>

type_synonym Outcome = "8 word"

definition OutcomePassthrough :: Outcome where "OutcomePassthrough = 0"
definition OutcomeSuccess :: Outcome where "OutcomeSuccess = 1"
definition OutcomeNotFound :: Outcome where "OutcomeNotFound = 2"
definition OutcomePermissionDenied :: Outcome where "OutcomePermissionDenied = 3"
definition OutcomeUpstreamFailure :: Outcome where "OutcomeUpstreamFailure = 4"

lemmas outcome_defs = OutcomePassthrough_def OutcomeSuccess_def OutcomeNotFound_def
  OutcomePermissionDenied_def OutcomeUpstreamFailure_def

record FetchOp =
  fMethod :: string
  fResource :: string
  fMetadata :: header
  fBody :: "stream option"

record ListOp =
  lResource :: string
  lMetadata :: header

record StoreOp =
  stMethod :: string
  stResource :: string
  stMetadata :: header
  stBody :: "stream option"
  stSize :: int

record RelayOp =
  rlNetwork :: string
  rlAddress :: string

record OpResult =
  resOutcome :: Outcome
  resStatus :: int
  resMetadata :: header
  resBody :: "stream option"

text \<open>
  A connector reads and changes a state \<open>'s\<close>: everything outside the process. \<^verbatim>\<open>StoreForMount\<close> and
  \<^verbatim>\<open>ListForMount\<close> are interfaces a connector may not have: the type assertion then fails.
\<close>

type_synonym ('s, 'op) operate = "'op \<Rightarrow> 's \<Rightarrow> 's \<times> (err, OpResult) result"

record 's connector =
  FetchForMount :: "Mount \<Rightarrow> ('s, FetchOp) operate"
  StoreForMount :: "(Mount \<Rightarrow> ('s, StoreOp) operate) option"
  ListForMount :: "(Mount \<Rightarrow> ('s, ListOp) operate) option"

end
