(* ===== verification/Clientaddr.thy ===== *)
theory Clientaddr
  imports Go_Net
begin

text \<open>
  \<^verbatim>\<open>clientaddr/clientaddr.go\<close>: the address that policy sees for a connection that may come through
  trusted reverse proxies. The last theorems say that a peer that is not a trusted proxy cannot
  influence the answer, and that a trusted chain is read from its nearest hop.
\<close>

section \<open>The code\<close>

datatype clientaddr_error = InvalidPeer string | InvalidForwarded string

fun contains :: "ip_prefix list \<Rightarrow> addr \<Rightarrow> bool" where
  "contains [] address = False"
| "contains (p # ps) address = (if PrefixContains p address then True else contains ps address)"

text \<open>The first loop: every hop is parsed and unmapped, the first malformed one is the error.\<close>

fun parse_hops :: "string list \<Rightarrow> (clientaddr_error, addr list) result" where
  "parse_hops [] = Inr []"
| "parse_hops (part # parts) =
     (case ParseAddr (TrimSpace part) of
        None \<Rightarrow> Inl (InvalidForwarded (TrimSpace part))
      | Some address \<Rightarrow> bind_result (parse_hops parts) (\<lambda>as. Inr (Unmap address # as)))"

text \<open>The second loop, on the reversed list: from the nearest hop towards the client.\<close>

fun nearest_untrusted :: "ip_prefix list \<Rightarrow> addr list \<Rightarrow> addr option" where
  "nearest_untrusted trusted [] = None"
| "nearest_untrusted trusted (a # as) =
     (if \<not> contains trusted a then Some a else nearest_untrusted trusted as)"

definition peer_host :: "string \<Rightarrow> string" where
  "peer_host remoteAddress =
     (case SplitHostPort remoteAddress of None \<Rightarrow> remoteAddress | Some (host, _) \<Rightarrow> host)"

definition clientaddr_Resolve ::
    "string \<Rightarrow> string \<Rightarrow> ip_prefix list \<Rightarrow> (clientaddr_error, string) result" where
  "clientaddr_Resolve remoteAddress forwarded trusted =
     (case ParseAddr (TrimSpace (peer_host remoteAddress)) of
        None \<Rightarrow> Inl (InvalidPeer remoteAddress)
      | Some parsed \<Rightarrow>
          (let peer = Unmap parsed in
           if \<not> contains trusted peer \<or> TrimSpace forwarded = [] then Inr (AddrString peer)
           else bind_result (parse_hops (Split forwarded CHR '','')) (\<lambda>addresses.
             case nearest_untrusted trusted (rev addresses) of
               Some a \<Rightarrow> Inr (AddrString a)
             | None \<Rightarrow> Inr (AddrString (addresses ! 0)))))"

section \<open>Lemmas\<close>

lemma contains_iff: "contains ps a \<longleftrightarrow> (\<exists>p \<in> set ps. PrefixContains p a)"
  by (induction ps) auto

text \<open>What one hop of the header denotes.\<close>

definition hop :: "string \<Rightarrow> addr option" where
  "hop part = map_option Unmap (ParseAddr (TrimSpace part))"

lemma parse_hops_Inr: "parse_hops parts = Inr as \<longleftrightarrow> map hop parts = map Some as"
  by (induction parts arbitrary: as) (auto simp: hop_def map_eq_Cons_conv split: option.splits)

lemma parse_hops_Inl:
  "parse_hops parts = Inl e \<longleftrightarrow>
     (\<exists>part. find (\<lambda>q. hop q = None) parts = Some part \<and> e = InvalidForwarded (TrimSpace part))"
  by (induction parts) (auto simp: hop_def bind_result_Inl split: option.splits)

lemma nearest_untrusted_find: "nearest_untrusted trusted as = find (\<lambda>a. \<not> contains trusted a) as"
  by (induction as) auto

lemma nearest_untrusted_rev:
  "nearest_untrusted trusted (rev as) = Some a \<longleftrightarrow>
     (\<exists>pre post. as = pre @ a # post \<and> \<not> contains trusted a \<and> (\<forall>b \<in> set post. contains trusted b))"
  by (simp add: nearest_untrusted_find find_rev_split)

lemma nearest_untrusted_None:
  "nearest_untrusted trusted as = None \<longleftrightarrow> (\<forall>a \<in> set as. contains trusted a)"
  by (auto simp: nearest_untrusted_find find_None_iff)

section \<open>Properties\<close>

text \<open>The peer a remote address denotes, unmapped.\<close>

definition peer_of :: "string \<Rightarrow> addr option" where
  "peer_of remoteAddress = map_option Unmap (ParseAddr (TrimSpace (peer_host remoteAddress)))"

lemmas clientaddr_eval = clientaddr_Resolve_def peer_of_def peer_host_def hop_def go_defs go_loops

text \<open>A peer that is not a trusted proxy cannot forge its address: whatever forwarding header it
  sends, the answer is its own address.\<close>

theorem Resolve_untrusted_peer:
  assumes "peer_of remote = Some peer" and "\<forall>p \<in> set trusted. \<not> PrefixContains p peer"
  shows "clientaddr_Resolve remote forwarded trusted = Inr (AddrString peer)"
proof -
  from assms(1) obtain a where "ParseAddr (TrimSpace (peer_host remote)) = Some a" "peer = Unmap a"
    by (auto simp: peer_of_def)
  with assms(2) show ?thesis by (simp add: clientaddr_Resolve_def contains_iff)
qed

theorem Resolve_untrusted_peer_witness:
  "clientaddr_Resolve ''203.0.113.9:5000'' ''10.0.0.1'' [Prefix (IPv4 0x0A000000) 8] =
     Inr (AddrString (IPv4 0xCB007109))"
  by (rule Resolve_untrusted_peer) (simp_all add: clientaddr_eval)

text \<open>Behind a trusted proxy the nearest untrusted hop is authoritative. If every hop of the
  header is an address and the peer is trusted, the answer is the last hop that is not a trusted
  proxy, so hops further from the proxy cannot change it; when all hops are trusted it is the first.\<close>

theorem Resolve_trusted_chain:
  assumes "peer_of remote = Some peer" and "p \<in> set trusted" and "PrefixContains p peer"
    and "TrimSpace forwarded \<noteq> []"
    and "map hop (Split forwarded CHR '','') = map Some hops"
  shows "(\<forall>pre a post. hops = pre @ a # post \<and> \<not> contains trusted a \<and> (\<forall>b \<in> set post. contains trusted b) \<longrightarrow>
      clientaddr_Resolve remote forwarded trusted = Inr (AddrString a)) \<and>
    ((\<forall>b \<in> set hops. contains trusted b) \<longrightarrow>
      clientaddr_Resolve remote forwarded trusted = Inr (AddrString (hd hops)))"
proof -
  from assms(1) obtain a where "ParseAddr (TrimSpace (peer_host remote)) = Some a" "peer = Unmap a"
    by (auto simp: peer_of_def)
  moreover have "contains trusted peer" using assms(2,3) by (auto simp: contains_iff)
  moreover have "parse_hops (Split forwarded CHR '','') = Inr hops" using assms(5) by (simp add: parse_hops_Inr)
  ultimately have eq: "clientaddr_Resolve remote forwarded trusted =
      (case nearest_untrusted trusted (rev hops) of
         Some a \<Rightarrow> Inr (AddrString a) | None \<Rightarrow> Inr (AddrString (hops ! 0)))"
    using assms(4) by (simp add: clientaddr_Resolve_def)
  have "hops \<noteq> []" using assms(5) by auto
  then have all: "clientaddr_Resolve remote forwarded trusted = Inr (AddrString (hd hops))"
    if "\<forall>b \<in> set hops. contains trusted b"
    using that nearest_untrusted_None [of trusted "rev hops"] by (simp add: eq hd_conv_nth)
  have "clientaddr_Resolve remote forwarded trusted = Inr (AddrString a)"
    if "hops = pre @ a # post \<and> \<not> contains trusted a \<and> (\<forall>b \<in> set post. contains trusted b)" for pre a post
  proof -
    have "nearest_untrusted trusted (rev hops) = Some a"
      using that by (subst nearest_untrusted_rev) blast
    then show ?thesis by (simp add: eq)
  qed
  with all show ?thesis by blast
qed

theorem Resolve_trusted_chain_witness:
  "clientaddr_Resolve ''10.0.0.2:5000'' ''198.51.100.7, 203.0.113.9, 10.0.0.1'' [Prefix (IPv4 0x0A000000) 8] =
     Inr (AddrString (IPv4 0xCB007109))"
proof -
  let ?t = "[Prefix (IPv4 0x0A000000) 8]"
  have "map hop (Split ''198.51.100.7, 203.0.113.9, 10.0.0.1'' CHR '','') =
      map Some [IPv4 0xC6336407, IPv4 0xCB007109, IPv4 0x0A000001]" by (simp add: clientaddr_eval)
  from Resolve_trusted_chain [OF _ _ _ _ this, of "''10.0.0.2:5000''" "IPv4 0x0A000002" "hd ?t" ?t]
  have "\<forall>pre a post. [IPv4 0xC6336407, IPv4 0xCB007109, IPv4 0x0A000001] = pre @ a # post \<and>
      \<not> contains ?t a \<and> (\<forall>b \<in> set post. contains ?t b) \<longrightarrow>
      clientaddr_Resolve ''10.0.0.2:5000'' ''198.51.100.7, 203.0.113.9, 10.0.0.1'' ?t = Inr (AddrString a)"
    by (simp add: clientaddr_eval)
  from this [rule_format, of "[IPv4 0xC6336407]" "IPv4 0xCB007109" "[IPv4 0x0A000001]"]
  show ?thesis by simp
qed

text \<open>The hop that counts: the last untrusted one, or else the first.\<close>

lemma client_hop:
  assumes "hops \<noteq> []"
  shows "(case nearest_untrusted trusted (rev hops) of Some a \<Rightarrow> a | None \<Rightarrow> hops ! 0) = c \<longleftrightarrow>
    (\<exists>pre post. hops = pre @ c # post \<and> \<not> contains trusted c \<and> (\<forall>b \<in> set post. contains trusted b)) \<or>
    (\<forall>b \<in> set hops. contains trusted b) \<and> c = hd hops"
proof (cases "nearest_untrusted trusted (rev hops)")
  case None
  then have "\<forall>b \<in> set hops. contains trusted b" by (simp add: nearest_untrusted_None)
  with None assms show ?thesis by (auto simp: hd_conv_nth)
next
  case (Some a)
  then have "\<not> (\<forall>b \<in> set hops. contains trusted b)" using nearest_untrusted_None [of trusted "rev hops"] by simp
  with Some nearest_untrusted_rev [of trusted hops c] show ?thesis by (simp only: option.case option.inject) blast
qed

lemma client_hop_result:
  assumes "hops \<noteq> []"
  shows "(case nearest_untrusted trusted (rev hops) of Some a \<Rightarrow> Inr (AddrString a) | None \<Rightarrow> Inr (AddrString (hops ! 0))) =
      (Inr client :: (clientaddr_error, string) result) \<longleftrightarrow>
    (\<exists>pre a post. hops = pre @ a # post \<and> \<not> contains trusted a \<and> (\<forall>b \<in> set post. contains trusted b) \<and> client = AddrString a) \<or>
    (\<forall>b \<in> set hops. contains trusted b) \<and> client = AddrString (hd hops)" (is "?l \<longleftrightarrow> ?r")
proof -
  have "?l \<longleftrightarrow> (\<exists>c. (case nearest_untrusted trusted (rev hops) of Some a \<Rightarrow> a | None \<Rightarrow> hops ! 0) = c \<and> client = AddrString c)"
    by (auto split: option.splits)
  also have "\<dots> \<longleftrightarrow> ?r" unfolding client_hop [OF assms] by blast
  finally show ?thesis .
qed

text \<open>C11: exactly who the client is. The result is an address exactly when the peer's address parses and either the
  peer is outside the trusted ranges or sends no forwarding header, and then it is the peer itself; or the
  peer is trusted, every hop of the header parses, and it is the nearest hop that is not trusted, the first
  hop if all of them are. So a client that is not a trusted proxy cannot choose the address the policy sees.\<close>

theorem Resolve_exact:
  "clientaddr_Resolve remote forwarded trusted = Inr client \<longleftrightarrow>
     (\<exists>peer. peer_of remote = Some peer \<and>
        (if (\<forall>p \<in> set trusted. \<not> PrefixContains p peer) \<or> TrimSpace forwarded = [] then client = AddrString peer
         else \<exists>hops. map hop (Split forwarded CHR '','') = map Some hops \<and>
           ((\<exists>pre a post. hops = pre @ a # post \<and> \<not> contains trusted a \<and> (\<forall>b \<in> set post. contains trusted b) \<and>
               client = AddrString a) \<or>
            (\<forall>b \<in> set hops. contains trusted b) \<and> client = AddrString (hd hops))))"
proof (cases "peer_of remote")
  case None
  then show ?thesis by (auto simp: clientaddr_Resolve_def peer_of_def split: option.splits)
next
  case (Some peer)
  then obtain a where parsed: "ParseAddr (TrimSpace (peer_host remote)) = Some a" "peer = Unmap a"
    by (auto simp: peer_of_def)
  show ?thesis
  proof (cases "(\<forall>p \<in> set trusted. \<not> PrefixContains p peer) \<or> TrimSpace forwarded = []")
    case True
    with Some parsed show ?thesis by (auto simp: clientaddr_Resolve_def contains_iff)
  next
    case False
    then have t: "contains trusted peer" "TrimSpace forwarded \<noteq> []" by (auto simp: contains_iff)
    have eq: "clientaddr_Resolve remote forwarded trusted =
        bind_result (parse_hops (Split forwarded CHR '','')) (\<lambda>hops.
          case nearest_untrusted trusted (rev hops) of Some a \<Rightarrow> Inr (AddrString a) | None \<Rightarrow> Inr (AddrString (hops ! 0)))"
      using parsed t by (simp add: clientaddr_Resolve_def)
    have some: "map hop (Split forwarded CHR '','') = map Some hops \<Longrightarrow> hops \<noteq> []" for hops by auto
    have "clientaddr_Resolve remote forwarded trusted = Inr client \<longleftrightarrow>
        (\<exists>hops. map hop (Split forwarded CHR '','') = map Some hops \<and>
          (case nearest_untrusted trusted (rev hops) of Some a \<Rightarrow> Inr (AddrString a) | None \<Rightarrow> Inr (AddrString (hops ! 0))) =
            (Inr client :: (clientaddr_error, string) result))"
      unfolding eq by (cases "parse_hops (Split forwarded CHR '','')") (auto simp: parse_hops_Inr [symmetric] simp del: parse_hops_Inr)
    with client_hop_result some have "clientaddr_Resolve remote forwarded trusted = Inr client \<longleftrightarrow>
        (\<exists>hops. map hop (Split forwarded CHR '','') = map Some hops \<and>
           ((\<exists>pre a post. hops = pre @ a # post \<and> \<not> contains trusted a \<and> (\<forall>b \<in> set post. contains trusted b) \<and>
               client = AddrString a) \<or>
            (\<forall>b \<in> set hops. contains trusted b) \<and> client = AddrString (hd hops)))" by (simp cong: conj_cong)
    then show ?thesis using Some by (simp only: if_not_P [OF False] option.inject ex_simps simp_thms)
  qed
qed

theorem Resolve_exact_witness:
  "clientaddr_Resolve ''10.0.0.2:5000'' ''198.51.100.7, 203.0.113.9, 10.0.0.1'' [Prefix (IPv4 0x0A000000) 8] =
     Inr (AddrString (IPv4 0xCB007109))"
proof -
  let ?t = "[Prefix (IPv4 0x0A000000) 8]" and ?hops = "[IPv4 0xC6336407, IPv4 0xCB007109, IPv4 0x0A000001]"
  have hops: "map hop (Split ''198.51.100.7, 203.0.113.9, 10.0.0.1'' CHR '','') = map Some ?hops" by (simp add: clientaddr_eval)
  have peer: "peer_of ''10.0.0.2:5000'' = Some (IPv4 0x0A000002)" by (simp add: clientaddr_eval)
  have near: "?hops = [IPv4 0xC6336407] @ IPv4 0xCB007109 # [IPv4 0x0A000001] \<and> \<not> contains ?t (IPv4 0xCB007109) \<and>
      (\<forall>b \<in> set [IPv4 0x0A000001]. contains ?t b)" by (simp add: clientaddr_eval)
  have trusted: "\<not> ((\<forall>p \<in> set ?t. \<not> PrefixContains p (IPv4 0x0A000002)) \<or>
      TrimSpace ''198.51.100.7, 203.0.113.9, 10.0.0.1'' = [])" by (simp add: clientaddr_eval)
  show ?thesis
    unfolding Resolve_exact peer option.inject simp_thms ex_simps if_not_P [OF trusted]
    using hops near by blast
qed

text \<open>Every error names its cause: the peer's address does not parse, or the peer is trusted and
  the first malformed hop of the header is the one reported. A malformed header of an untrusted peer
  is no error.\<close>

theorem Resolve_errors:
  "(clientaddr_Resolve remote forwarded trusted = Inl (InvalidPeer r) \<longleftrightarrow> peer_of remote = None \<and> r = remote) \<and>
   (clientaddr_Resolve remote forwarded trusted = Inl (InvalidForwarded h) \<longleftrightarrow>
     (\<exists>peer part. peer_of remote = Some peer \<and> (\<exists>p \<in> set trusted. PrefixContains p peer) \<and>
        TrimSpace forwarded \<noteq> [] \<and>
        find (\<lambda>q. hop q = None) (Split forwarded CHR '','') = Some part \<and> h = TrimSpace part))"
  by (cases "ParseAddr (TrimSpace (peer_host remote))")
     (auto simp: clientaddr_Resolve_def peer_of_def Let_def contains_iff bind_result_Inl parse_hops_Inl
       split: option.splits)

end
