(* ===== verification/Registry.thy ===== *)
theory Registry
  imports Prelude
begin

text \<open>
  The two registries of live connections: \<^verbatim>\<open>connectionSessions\<close> of \<^verbatim>\<open>server/lifecycle.go\<close> and
  \<^verbatim>\<open>connections\<close> of \<^verbatim>\<open>link/bridge.go\<close>. Both guard a set of connections with a mutex, refuse additions
  once they are closing, and close what they hold on demand. Each method body up to the unlock is one
  atomic operation; the \<^verbatim>\<open>Close\<close> calls it makes after the unlock are returned as a set and are separate
  events, so that other operations can come in between. The locale \<open>conn_registry\<close> states the contract
  and proves once that nothing leaks; both registries interpret it.
\<close>

section \<open>The contract\<close>

text \<open>A connection is an identity, as an interface value of type \<^verbatim>\<open>net.Conn\<close> is when used as a map key.\<close>

type_synonym conn = nat

datatype reg_event = EvAdd conn | EvRemove conn | EvShut | EvQuiet | EvClose conn

text \<open>
  The bookkeeping around a registry: connections that were accepted by it and not removed by their
  owner, connections that a method has decided to close, and connections that are closed.
\<close>

record 's tracked =
  registry :: 's
  owned :: "conn set"
  pending_close :: "conn set"
  closed_conns :: "conn set"
  shut_called :: bool

locale conn_registry =
  fixes add :: "'s \<Rightarrow> conn \<Rightarrow> bool \<times> 's \<times> conn set"
    and remove :: "'s \<Rightarrow> conn \<Rightarrow> 's"
    and shut :: "'s \<Rightarrow> 's \<times> conn set"
    and quiet :: "'s \<Rightarrow> 's"
    and items :: "'s \<Rightarrow> conn set"
    and closing :: "'s \<Rightarrow> bool"
  assumes add_open: "\<not> closing s \<Longrightarrow>
      fst (add s c) \<and> items (fst (snd (add s c))) = insert c (items s) \<and>
      closing (fst (snd (add s c))) = closing s \<and> snd (snd (add s c)) = {}"
    and add_closing: "closing s \<Longrightarrow> add s c = (False, s, {c})"
    and remove_items: "items (remove s c) = items s - {c}"
    and remove_closing: "closing (remove s c) = closing s"
    and shut_closing: "closing (fst (shut s))"
    and shut_closes: "snd (shut s) = items s"
    and quiet_items: "items (quiet s) = items s"
    and quiet_closing: "closing s \<Longrightarrow> closing (quiet s)"
begin

fun event :: "'s tracked \<Rightarrow> reg_event \<Rightarrow> 's tracked" where
  "event t (EvAdd c) =
     (case add (registry t) c of (ok, s, toClose) \<Rightarrow>
        t\<lparr>registry := s, owned := (if ok then insert c (owned t) else owned t),
          pending_close := pending_close t \<union> toClose\<rparr>)"
| "event t (EvRemove c) = t\<lparr>registry := remove (registry t) c, owned := owned t - {c}\<rparr>"
| "event t EvShut =
     (case shut (registry t) of (s, toClose) \<Rightarrow>
        t\<lparr>registry := s, pending_close := pending_close t \<union> toClose, shut_called := True\<rparr>)"
| "event t EvQuiet = t\<lparr>registry := quiet (registry t)\<rparr>"
| "event t (EvClose c) =
     (if c \<in> pending_close t
      then t\<lparr>pending_close := pending_close t - {c}, closed_conns := insert c (closed_conns t)\<rparr>
      else t)"

definition accounted :: "'s tracked \<Rightarrow> bool" where
  "accounted t \<longleftrightarrow>
     owned t \<subseteq> items (registry t) \<union> pending_close t \<union> closed_conns t \<and>
     (shut_called t \<longrightarrow> closing (registry t) \<and> owned t \<subseteq> pending_close t \<union> closed_conns t)"

lemma accounted_event: "accounted t \<Longrightarrow> accounted (event t e)"
proof (cases e)
  case (EvAdd c)
  assume acc: "accounted t"
  show ?thesis
  proof (cases "closing (registry t)")
    case True
    with acc EvAdd show ?thesis by (auto simp: accounted_def add_closing)
  next
    case False
    obtain ok s k where "add (registry t) c = (ok, s, k)" by (cases "add (registry t) c") auto
    with acc EvAdd False add_open [OF False, of c] show ?thesis by (auto simp: accounted_def)
  qed
next
  case EvShut
  assume acc: "accounted t"
  obtain s k where "shut (registry t) = (s, k)" by (cases "shut (registry t)")
  with acc EvShut shut_closing [of "registry t"] shut_closes [of "registry t"]
  show ?thesis by (auto simp: accounted_def)
qed (auto simp: accounted_def remove_items remove_closing quiet_items quiet_closing)

lemma accounted_run: "accounted t \<Longrightarrow> accounted (foldl event t es)"
  by (induction es arbitrary: t) (auto intro: accounted_event)

lemma shut_called_run: "shut_called t \<or> EvShut \<in> set es \<Longrightarrow> shut_called (foldl event t es)"
proof (induction es arbitrary: t)
  case (Cons e es)
  have "shut_called t \<or> e = EvShut \<Longrightarrow> shut_called (event t e)"
    by (cases e) (auto split: prod.splits)
  with Cons show ?case by auto
qed simp

text \<open>Nothing leaks: once the registry has been shut and the closes it decided on have been made,
  every connection it accepted is closed, except those their owner removed.\<close>

lemma no_leak:
  assumes "accounted t" and "EvShut \<in> set es" and "pending_close (foldl event t es) = {}"
  shows "owned (foldl event t es) \<subseteq> closed_conns (foldl event t es)"
  using accounted_run [OF assms(1), of es] shut_called_run [of t es] assms(2,3)
  by (auto simp: accounted_def)

lemma refused_after_shut:
  assumes "accounted t" and "EvShut \<in> set es"
  shows "add (registry (foldl event t es)) c = (False, registry (foldl event t es), {c})"
  using accounted_run [OF assms(1), of es] shut_called_run [of t es] assms(2)
  by (auto simp: accounted_def intro: add_closing)

end

section \<open>Sessions of the HTTP server\<close>

text \<open>\<open>cancelled\<close> is the state of the context that dials inherit, \<open>drained\<close> that of the channel.\<close>

record connectionSessions =
  draining :: bool
  cancelled :: bool
  drained :: bool
  sItems :: "conn set"

definition newConnectionSessions :: connectionSessions where
  "newConnectionSessions = \<lparr>draining = False, cancelled = False, drained = False, sItems = {}\<rparr>"

definition closeDrainedLocked :: "connectionSessions \<Rightarrow> connectionSessions" where
  "closeDrainedLocked s = (if drained s then s else s\<lparr>drained := True\<rparr>)"

text \<open>\<^verbatim>\<open>add\<close> for a connection that is not nil; a nil one is refused and nothing else happens.\<close>

definition sessions_add :: "connectionSessions \<Rightarrow> conn option \<Rightarrow> bool \<times> connectionSessions \<times> conn set" where
  "sessions_add s connection =
     (case connection of
        None \<Rightarrow> (False, s, {})
      | Some c \<Rightarrow>
          if draining s then (False, s, {c})
          else (True, s\<lparr>sItems := insert c (sItems s)\<rparr>, {}))"

definition sessions_remove :: "connectionSessions \<Rightarrow> conn \<Rightarrow> connectionSessions" where
  "sessions_remove s c =
     (let s' = s\<lparr>sItems := sItems s - {c}\<rparr> in
      if draining s' \<and> sItems s' = {} then closeDrainedLocked s' else s')"

definition beginDrain :: "connectionSessions \<Rightarrow> connectionSessions" where
  "beginDrain s =
     (if \<not> draining s then
        (let s' = s\<lparr>draining := True, cancelled := True\<rparr> in
         if sItems s' = {} then closeDrainedLocked s' else s')
      else s)"

definition forceClose :: "connectionSessions \<Rightarrow> connectionSessions \<times> conn set" where
  "forceClose s =
     (closeDrainedLocked (s\<lparr>draining := True, cancelled := True, sItems := {}\<rparr>), sItems s)"

definition sessions_add_conn :: "connectionSessions \<Rightarrow> conn \<Rightarrow> bool \<times> connectionSessions \<times> conn set" where
  "sessions_add_conn s c = sessions_add s (Some c)"

interpretation sessions: conn_registry sessions_add_conn sessions_remove forceClose beginDrain
  sItems draining
  by unfold_locales
     (auto simp: sessions_add_conn_def sessions_add_def sessions_remove_def forceClose_def beginDrain_def
       closeDrainedLocked_def Let_def)

text \<open>The operations as a transition relation, and the reachable states.\<close>

inductive sessions_reachable :: "connectionSessions \<Rightarrow> bool" where
  new: "sessions_reachable newConnectionSessions"
| add: "sessions_reachable s \<Longrightarrow> sessions_reachable (fst (snd (sessions_add s c)))"
| remove: "sessions_reachable s \<Longrightarrow> sessions_reachable (sessions_remove s c)"
| drain: "sessions_reachable s \<Longrightarrow> sessions_reachable (beginDrain s)"
| force: "sessions_reachable s \<Longrightarrow> sessions_reachable (fst (forceClose s))"

lemma sessions_reachable_inv:
  "sessions_reachable s \<Longrightarrow>
     (drained s \<longleftrightarrow> draining s \<and> sItems s = {}) \<and> (cancelled s \<longleftrightarrow> draining s)"
  by (induction rule: sessions_reachable.induct)
     (auto simp: newConnectionSessions_def sessions_add_def sessions_remove_def beginDrain_def forceClose_def
       closeDrainedLocked_def Let_def split: option.splits)

section \<open>Connections of the link bridge\<close>

record connections =
  lclosing :: bool
  lItems :: "conn set"

definition newConnections :: connections where
  "newConnections = \<lparr>lclosing = False, lItems = {}\<rparr>"

definition connections_Add :: "connections \<Rightarrow> conn \<Rightarrow> bool \<times> connections \<times> conn set" where
  "connections_Add s c =
     (if lclosing s then (False, s, {c}) else (True, s\<lparr>lItems := insert c (lItems s)\<rparr>, {}))"

definition connections_Remove :: "connections \<Rightarrow> conn \<Rightarrow> connections" where
  "connections_Remove s c = s\<lparr>lItems := lItems s - {c}\<rparr>"

definition connections_Close :: "connections \<Rightarrow> connections \<times> conn set" where
  "connections_Close s = (s\<lparr>lclosing := True\<rparr>, lItems s)"

text \<open>This registry has no operation besides the three, hence no silent one.\<close>

interpretation bridge: conn_registry connections_Add connections_Remove connections_Close id lItems lclosing
  by unfold_locales (auto simp: connections_Add_def connections_Remove_def connections_Close_def)

section \<open>Properties\<close>

abbreviation fresh :: "'s \<Rightarrow> 's tracked" where
  "fresh s \<equiv> \<lparr>registry = s, owned = {}, pending_close = {}, closed_conns = {}, shut_called = False\<rparr>"

text \<open>The drain signal is exact. In every reachable state the channel \<^verbatim>\<open>drained\<close> is closed exactly
  when a drain has begun and no session is left, and the dial context is cancelled exactly when a drain
  has begun; so a waiter is neither woken early nor left waiting.\<close>

theorem sessions_drained_exact:
  assumes "sessions_reachable s"
  shows "(drained s \<longleftrightarrow> draining s \<and> sItems s = {}) \<and> (cancelled s \<longleftrightarrow> draining s)"
  by (rule sessions_reachable_inv [OF assms])

theorem sessions_drained_exact_witness:
  "drained (sessions_remove (beginDrain (fst (snd (sessions_add newConnectionSessions (Some 7))))) 7)"
proof -
  let ?s = "sessions_remove (beginDrain (fst (snd (sessions_add newConnectionSessions (Some 7))))) 7"
  have "sessions_reachable ?s" by (intro sessions_reachable.intros)
  from sessions_drained_exact [OF this] show ?thesis
    by (simp add: newConnectionSessions_def sessions_add_def sessions_remove_def beginDrain_def
        closeDrainedLocked_def Let_def)
qed

text \<open>A forced close leaves no session behind. After any interleaving of registrations, removals,
  drains and closes that contains a \<^verbatim>\<open>forceClose\<close>, once the closes it decided on have been made every
  connection that was registered and not removed is closed, and any later registration is refused and
  its connection closed.\<close>

theorem forceClose_no_leak:
  assumes "EvShut \<in> set es"
    and "t = foldl sessions.event (fresh newConnectionSessions) es"
    and "pending_close t = {}"
  shows "owned t \<subseteq> closed_conns t \<and> sessions_add (registry t) (Some c) = (False, registry t, {c})"
proof -
  have "sessions.accounted (fresh newConnectionSessions)"
    by (simp add: sessions.accounted_def)
  then show ?thesis
    using sessions.no_leak [OF _ assms(1)] sessions.refused_after_shut [OF _ assms(1)] assms(2,3)
    unfolding sessions_add_conn_def by blast
qed

theorem forceClose_no_leak_witness:
  "owned (foldl sessions.event (fresh newConnectionSessions) [EvAdd 1, EvAdd 2, EvRemove 2, EvShut, EvClose 1]) \<subseteq>
   closed_conns (foldl sessions.event (fresh newConnectionSessions) [EvAdd 1, EvAdd 2, EvRemove 2, EvShut, EvClose 1])"
  by (rule forceClose_no_leak [of "[EvAdd 1, EvAdd 2, EvRemove 2, EvShut, EvClose 1]", THEN conjunct1])
     (simp_all add: newConnectionSessions_def sessions_add_conn_def sessions_add_def sessions_remove_def
       forceClose_def closeDrainedLocked_def Let_def)

text \<open>The same for the bridge: after \<^verbatim>\<open>Close\<close>, in any interleaving, every connection that was added
  and not removed is closed, and a later one is refused and closed.\<close>

theorem connections_Close_no_leak:
  assumes "EvShut \<in> set es"
    and "t = foldl bridge.event (fresh newConnections) es"
    and "pending_close t = {}"
  shows "owned t \<subseteq> closed_conns t \<and> connections_Add (registry t) c = (False, registry t, {c})"
proof -
  have "bridge.accounted (fresh newConnections)" by (simp add: bridge.accounted_def)
  then show ?thesis
    using bridge.no_leak [OF _ assms(1)] bridge.refused_after_shut [OF _ assms(1)] assms(2,3) by blast
qed

theorem connections_Close_no_leak_witness:
  "owned (foldl bridge.event (fresh newConnections) [EvAdd 1, EvShut, EvAdd 2, EvClose 1, EvClose 2]) \<subseteq>
   closed_conns (foldl bridge.event (fresh newConnections) [EvAdd 1, EvShut, EvAdd 2, EvClose 1, EvClose 2])"
  by (rule connections_Close_no_leak [of "[EvAdd 1, EvShut, EvAdd 2, EvClose 1, EvClose 2]", THEN conjunct1])
     (simp_all add: newConnections_def connections_Add_def connections_Close_def)

end
