(* ===== verification/Http_Server.thy ===== *)
theory Http_Server
  imports Operation Clientaddr Registry
begin

text \<open>
  The request handler of \<^verbatim>\<open>server/http.go\<close>: how a request is resolved, authorised, turned into one
  operation on a connector, and answered. The connector is a parameter that reads and changes a state
  \<open>'s\<close>, everything outside the process: a call leaves its mark there, so that "the state is unchanged"
  says that no connector was called.
\<close>

section \<open>Requests and answers\<close>

record HTTPRequest =
  hMethod :: string
  hURL :: url
  hRequestURI :: string
  hHeader :: header
  hRemoteAddr :: string
  hContentLength :: int
  hBody :: "stream option"

text \<open>\<open>HTTPError\<close> is \<^verbatim>\<open>http.Error\<close>; \<open>HTTPResult\<close> is a status, the response header, the body bytes written and
  whether the handler aborted the connection while writing them.\<close>

datatype Response =
    HTTPError int string
  | HTTPResult int header string bool

definition maxStoreBodyBytes :: nat where
  "maxStoreBodyBytes = 33554432"

section \<open>Reading the request\<close>

definition remoteHost :: "string \<Rightarrow> string" where
  "remoteHost address = (case SplitHostPort address of Some (host, _) \<Rightarrow> host | None \<Rightarrow> address)"

datatype source_error = SourcePrefixError string | SourceAddressError clientaddr_error

fun parse_prefixes :: "string list \<Rightarrow> (source_error, ip_prefix list) result" where
  "parse_prefixes [] = Inr []"
| "parse_prefixes (t # ts) =
     (case ParsePrefix t of
        None \<Rightarrow> Inl (SourcePrefixError t)
      | Some p \<Rightarrow> bind_result (parse_prefixes ts) (\<lambda>ps. Inr (p # ps)))"

fun policySource :: "Server list \<Rightarrow> string \<Rightarrow> HTTPRequest \<Rightarrow> (source_error, string) result" where
  "policySource [] serverName request = Inr (remoteHost (hRemoteAddr request))"
| "policySource (frontend # rest) serverName request =
     (if sName frontend \<noteq> serverName \<or> ClientIPHeader frontend = [] then policySource rest serverName request
      else bind_result (parse_prefixes (TrustedProxies frontend)) (\<lambda>prefixes.
        map_error SourceAddressError
          (clientaddr_Resolve (hRemoteAddr request)
             (Join (HeaderValues (hHeader request) (ClientIPHeader frontend)) '','') prefixes)))"

definition targetHostname :: "string \<Rightarrow> string" where
  "targetHostname target = (case url_Parse target of None \<Rightarrow> [] | Some parsed \<Rightarrow> Hostname parsed)"

definition backendResource :: "string \<Rightarrow> string \<Rightarrow> string option" where
  "backendResource target rawQuery =
     (case url_Parse target of
        None \<Rightarrow> None
      | Some parsed \<Rightarrow>
          Some (URLString
            (if rawQuery \<noteq> [] then
               (if RawQuery parsed \<noteq> [] then parsed\<lparr>RawQuery := RawQuery parsed @ ''&'' @ rawQuery\<rparr>
                else parsed\<lparr>RawQuery := rawQuery\<rparr>)
             else parsed)))"

section \<open>Answering\<close>

definition resultHTTPStatus :: "OpResult \<Rightarrow> string \<Rightarrow> int option" where
  "resultHTTPStatus r meth =
     (if resOutcome r = OutcomePassthrough then
        (if resStatus r < 200 \<or> 599 < resStatus r then None else Some (resStatus r))
      else if resOutcome r = OutcomeSuccess then
        (if meth = ''PUT'' then Some 204 else Some 200)
      else if resOutcome r = OutcomeNotFound then Some 404
      else if resOutcome r = OutcomePermissionDenied then Some 403
      else if resOutcome r = OutcomeUpstreamFailure then Some 502
      else None)"

text \<open>
  \<^verbatim>\<open>io.Copy(response, body)\<close>: the bytes that reach the client, and whether the copy ended without error.
  The server refuses body bytes after the statuses 204 and 304; \<open>room\<close> is how many bytes the client takes
  before its connection fails.
\<close>

definition copy_body :: "nat option \<Rightarrow> int \<Rightarrow> stream \<Rightarrow> string \<times> bool" where
  "copy_body room status body =
     (if (status = 204 \<or> status = 304) \<and> content body \<noteq> [] then ([], False)
      else io_Copy room body)"

definition reason_text :: "ReasonCode \<Rightarrow> string" where
  "reason_text r =
     (case r of
        ReasonDefaultDeny \<Rightarrow> ''default_deny''
      | ReasonExplicitPermit \<Rightarrow> ''explicit_permit''
      | ReasonExplicitReject \<Rightarrow> ''explicit_reject'')"

section \<open>The handler\<close>

text \<open>The closure given to \<^verbatim>\<open>Enforce\<close>: at most one call of the connector; the result is part of the state it
  returns.\<close>

definition perform ::
    "'s connector \<Rightarrow> HTTPRequest \<Rightarrow> Match \<Rightarrow> 's \<times> OpResult option \<Rightarrow> ('s \<times> OpResult option) \<times> err option" where
  "perform conn request matched sr =
     (let deliver = (\<lambda>(t, r). case r of Inl e \<Rightarrow> ((t, None), Some e) | Inr res \<Rightarrow> ((t, Some res), None)) in
      case backendResource (matchTarget matched) (RawQuery (hURL request)) of
        None \<Rightarrow> (sr, Some [OtherError ''parse backend target''])
      | Some resource \<Rightarrow>
          (let metadata = cloneHeader (hHeader request) in
           if hMethod request = ''LIST'' then
             (case ListForMount conn of
                None \<Rightarrow> (sr, Some ErrUnsupported)
              | Some list \<Rightarrow>
                  deliver (list (matchMount matched) \<lparr>lResource = resource, lMetadata = metadata\<rparr> (fst sr)))
           else if hMethod request = ''PUT'' then
             (if int maxStoreBodyBytes < hContentLength request then (sr, Some [StoreBodyTooLarge])
              else (case StoreForMount conn of
                None \<Rightarrow> (sr, Some [OtherError ''backend connector does not support Store''])
              | Some store \<Rightarrow>
                  deliver (store (matchMount matched)
                    \<lparr>stMethod = hMethod request, stResource = resource, stMetadata = metadata,
                     stBody = map_option (\<lambda>b. MaxBytesReader b maxStoreBodyBytes) (hBody request),
                     stSize = hContentLength request\<rparr> (fst sr))))
           else
             deliver (FetchForMount conn (matchMount matched)
               \<lparr>fMethod = hMethod request, fResource = resource, fMetadata = metadata, fBody = hBody request\<rparr>
               (fst sr))))"

text \<open>What follows \<^verbatim>\<open>Enforce\<close>: the answer for its error, or for the result.\<close>

definition error_answer :: "Decision \<Rightarrow> err enforce_error \<Rightarrow> Response" where
  "error_answer decision e =
     (let has = (\<lambda>k. case e of NextError chain \<Rightarrow> errors_Is chain k | ErrDenied _ \<Rightarrow> k = PolicyDenied) in
      if has PolicyDenied then HTTPError 403 (reason_text (Reason decision))
      else if has StoreBodyTooLarge \<or> has MaxBytesError then HTTPError 413 ''store body too large''
      else if has Unsupported then HTTPError 405 ''method not supported by backend''
      else HTTPError 502 ''backend fetch failed'')"

definition result_answer :: "nat option \<Rightarrow> header \<Rightarrow> string \<Rightarrow> OpResult \<Rightarrow> Response" where
  "result_answer room hdr meth r =
     (case resultHTTPStatus r meth of
        None \<Rightarrow> HTTPError 502 ''invalid backend result''
      | Some status \<Rightarrow>
          (let h = copyResponseHeader hdr (resMetadata r) in
           case resBody r of
             None \<Rightarrow> HTTPResult status h [] False
           | Some body \<Rightarrow> (case copy_body room status body of (out, ok) \<Rightarrow> HTTPResult status h out (\<not> ok))))"

text \<open>A target of the absolute form must not have user information or a fragment.\<close>

definition bad_target :: "HTTPRequest \<Rightarrow> bool" where
  "bad_target request \<longleftrightarrow> IsAbs (hURL request) \<and> (User (hURL request) \<noteq> None \<or> Fragment (hURL request) \<noteq> [])"

definition mount_request :: "string \<Rightarrow> HTTPRequest \<Rightarrow> MountRequest" where
  "mount_request server request =
     \<lparr>rqPath = EscapedPath (hURL request), rqScheme = Scheme (hURL request),
      rqAuthority = Host (hURL request), rqServer = server, rqProtocol = ''http''\<rparr>"

definition policy_request :: "string \<Rightarrow> Match \<Rightarrow> string \<Rightarrow> PolicyRequest" where
  "policy_request source matched meth =
     \<lparr>prSource = source, prProtocol = ''http'', prDestination = targetHostname (matchTarget matched),
      prMethod = meth, prMount = Pattern (matchMount matched)\<rparr>"

definition resolve_answer :: "resolve_error \<Rightarrow> Response" where
  "resolve_answer e =
     (case e of
        ErrNoMatch \<Rightarrow> HTTPError 404 ''no matching mount''
      | ErrUnsafePath _ \<Rightarrow> HTTPError 400 ''unsafe request path''
      | ErrAmbiguous \<Rightarrow> HTTPError 500 ''mount resolution failed'')"

text \<open>\<^verbatim>\<open>ServeHTTP\<close> for every method but \<^verbatim>\<open>CONNECT\<close>. \<open>hdr\<close> is the header the response already has.\<close>

definition serve_operation ::
    "string \<Rightarrow> Config \<Rightarrow> 's connector \<Rightarrow> nat option \<Rightarrow> header \<Rightarrow> HTTPRequest \<Rightarrow> 's \<Rightarrow> 's \<times> Response" where
  "serve_operation server configured conn room hdr request s =
     (if bad_target request then (s, HTTPError 400 ''invalid absolute request target'')
      else (case ResolveFor (Mounts configured) (mount_request server request) of
        Inl e \<Rightarrow> (s, resolve_answer e)
      | Inr matched \<Rightarrow>
          (case policySource (Servers configured) server request of
             Inl _ \<Rightarrow> (s, HTTPError 400 ''invalid client address'')
           | Inr source \<Rightarrow>
               (let decision = Evaluate (Policies configured) (policy_request source matched (hMethod request)) in
                case Enforce decision (Some (perform conn request matched)) (s, None) of
                  ((t, _), Some e) \<Rightarrow> (t, error_answer decision e)
                | ((t, Some r), None) \<Rightarrow> (t, result_answer room hdr (hMethod request) r)
                | ((t, None), None) \<Rightarrow> (t, HTTPError 502 ''invalid backend result'')))))"

text \<open>The connector of a handler with one backend for all mappings, which may lack the two optional operations.\<close>

definition fixedMountConnector :: "('s, FetchOp) operate \<Rightarrow> ('s, StoreOp) operate option \<Rightarrow> ('s, ListOp) operate option \<Rightarrow> 's connector" where
  "fixedMountConnector fetch store list =
     \<lparr>FetchForMount = (\<lambda>_. fetch),
      StoreForMount = Some (\<lambda>_ op s. case store of
        None \<Rightarrow> (s, Inl [OtherError ''backend connector does not support Store'']) | Some f \<Rightarrow> f op s),
      ListForMount = Some (\<lambda>_ op s. case list of None \<Rightarrow> (s, Inl ErrUnsupported) | Some f \<Rightarrow> f op s)\<rparr>"

section \<open>Lemmas\<close>

lemma Enforce_Some:
  "Enforce d (Some f) s =
     (if Allowed d then (fst (f s), map_option NextError (snd (f s))) else (s, Some (ErrDenied (Reason d))))"
  by (simp add: Enforce_def split: prod.splits)

lemma perform_result:
  assumes "perform conn request matched (s, None) = ((t, r), e)"
  shows "(e = None \<longleftrightarrow> r \<noteq> None)"
  using assms
  by (auto simp: perform_def Let_def split: option.splits if_splits prod.splits sum.splits)

text \<open>The handler after authorisation.\<close>

definition answer_of :: "nat option \<Rightarrow> header \<Rightarrow> HTTPRequest \<Rightarrow> Decision \<Rightarrow> ('s \<times> OpResult option) \<times> err option \<Rightarrow> Response" where
  "answer_of room hdr request d x =
     (case x of
        (_, Some e) \<Rightarrow> error_answer d (NextError e)
      | ((_, Some r), None) \<Rightarrow> result_answer room hdr (hMethod request) r
      | ((_, None), None) \<Rightarrow> HTTPError 502 ''invalid backend result'')"

lemma serve_authorised:
  assumes "ResolveFor (Mounts configured) (mount_request server request) = Inr matched"
    and "policySource (Servers configured) server request = Inr source"
    and "d = Evaluate (Policies configured) (policy_request source matched (hMethod request))"
    and "Allowed d" and "\<not> bad_target request"
  shows "serve_operation server configured conn room hdr request s =
    (fst (fst (perform conn request matched (s, None))), answer_of room hdr request d (perform conn request matched (s, None)))"
  using assms
  by (simp add: serve_operation_def Enforce_Some answer_of_def split: prod.split option.split)

lemma serve_denied:
  assumes "ResolveFor (Mounts configured) (mount_request server request) = Inr matched"
    and "policySource (Servers configured) server request = Inr source"
    and "d = Evaluate (Policies configured) (policy_request source matched (hMethod request))"
    and "\<not> Allowed d" and "\<not> bad_target request"
  shows "serve_operation server configured conn room hdr request s = (s, HTTPError 403 (reason_text (Reason d)))"
  using assms by (simp add: serve_operation_def Enforce_Some error_answer_def Let_def)

lemma serve_refused:
  "bad_target request \<Longrightarrow>
     serve_operation server configured conn room hdr request s = (s, HTTPError 400 ''invalid absolute request target'')"
  "\<not> bad_target request \<Longrightarrow> ResolveFor (Mounts configured) (mount_request server request) = Inl e \<Longrightarrow>
     serve_operation server configured conn room hdr request s = (s, resolve_answer e)"
  "\<not> bad_target request \<Longrightarrow> ResolveFor (Mounts configured) (mount_request server request) = Inr matched \<Longrightarrow>
     policySource (Servers configured) server request = Inl e' \<Longrightarrow>
     serve_operation server configured conn room hdr request s = (s, HTTPError 400 ''invalid client address'')"
  by (simp_all add: serve_operation_def)

text \<open>The cases of a request.\<close>

lemma serve_cases:
  obtains (target) "bad_target request"
  | (unresolved) e where "\<not> bad_target request" "ResolveFor (Mounts configured) (mount_request server request) = Inl e"
  | (source) matched e where "\<not> bad_target request"
      "ResolveFor (Mounts configured) (mount_request server request) = Inr matched"
      "policySource (Servers configured) server request = Inl e"
  | (decided) matched source d where "\<not> bad_target request"
      "ResolveFor (Mounts configured) (mount_request server request) = Inr matched"
      "policySource (Servers configured) server request = Inr source"
      "d = Evaluate (Policies configured) (policy_request source matched (hMethod request))"
  by (metis sum.exhaust)

lemma error_answer_code: "error_answer d e = HTTPError n m \<Longrightarrow> n \<in> {403, 413, 405, 502}"
  by (auto simp: error_answer_def Let_def split: if_splits)

lemma answer_of_code: "answer_of room hdr request d x = HTTPError n m \<Longrightarrow> n \<in> {403, 413, 405, 502}"
  by (auto simp: answer_of_def result_answer_def Let_def dest: error_answer_code
      split: prod.splits option.splits)

lemma serve_operation_guarded:
  assumes "fst (serve_operation server configured conn room hdr request s) \<noteq> s"
  shows "\<exists>matched source.
    ResolveFor (Mounts configured) (mount_request server request) = Inr matched \<and>
    policySource (Servers configured) server request = Inr source \<and>
    Allowed (Evaluate (Policies configured) (policy_request source matched (hMethod request))) \<and>
    fst (serve_operation server configured conn room hdr request s) = fst (fst (perform conn request matched (s, None)))"
proof (cases rule: serve_cases [where request = request and configured = configured and server = server])
  case (decided matched source d)
  with assms serve_denied [OF decided(2,3,4) _ decided(1), of conn room hdr s] have "Allowed d" by fastforce
  with decided serve_authorised [OF decided(2,3,4) _ decided(1), of conn room hdr s] show ?thesis by auto
qed (use assms in \<open>simp_all add: serve_refused\<close>)

section \<open>Properties\<close>

text \<open>A small configuration, requests in origin form and a connector that records what it is asked.\<close>

abbreviation files_config :: Config where
  "files_config \<equiv> \<lparr>Servers = [plain_server ''web'' ''http'' '':80''],
     Mounts = [path_mount ''/files/*'' ''http://b/*''], Policies = [any_rule ''permit'' 0]\<rparr>"

abbreviation origin_request :: "string \<Rightarrow> string \<Rightarrow> HTTPRequest" where
  "origin_request meth path \<equiv> \<lparr>hMethod = meth, hURL = empty_url\<lparr>Path := path\<rparr>, hRequestURI = escape encodePath path,
     hHeader = [], hRemoteAddr = ''10.0.0.1:99'', hContentLength = 0, hBody = None\<rparr>"

definition recorder :: "FetchOp list connector" where
  "recorder = \<lparr>FetchForMount = (\<lambda>_ op s. (op # s, Inr \<lparr>resOutcome = OutcomePassthrough, resStatus = 200,
     resMetadata = [], resBody = None\<rparr>)), StoreForMount = None, ListForMount = None\<rparr>"

lemmas serve_eval = serve_operation_def bad_target_def mount_request_def policy_request_def perform_def recorder_def
  Enforce_def remoteHost_def targetHostname_def backendResource_def error_answer_def result_answer_def
  resultHTTPStatus_def copyResponseHeader_def cloneHeader_def sanitizeHeader_def outcome_defs resolve_answer_def
  Pattern_def reason_text_def resolve_eval policy_eval

text \<open>C6: no request reaches a backend unauthorised. If serving a request changes anything outside the
  process, whatever the connector is, then the path normalises and resolves to one mapping, the client
  address is known, and the policy allows exactly this source, destination, method and mapping; and the
  change is the one operation performed for that mapping.\<close>

theorem ServeHTTP_guarded:
  assumes "fst (serve_operation server configured conn room hdr request s) \<noteq> s"
  shows "\<exists>matched source.
    ResolveFor (Mounts configured) (mount_request server request) = Inr matched \<and>
    policySource (Servers configured) server request = Inr source \<and>
    Allowed (Evaluate (Policies configured) (policy_request source matched (hMethod request))) \<and>
    fst (serve_operation server configured conn room hdr request s) = fst (fst (perform conn request matched (s, None)))"
  by (rule serve_operation_guarded [OF assms])

theorem ServeHTTP_guarded_witness:
  "\<exists>matched source.
    ResolveFor (Mounts files_config) (mount_request ''web'' (origin_request ''GET'' ''/files/x'')) = Inr matched \<and>
    policySource (Servers files_config) ''web'' (origin_request ''GET'' ''/files/x'') = Inr source \<and>
    Allowed (Evaluate (Policies files_config) (policy_request source matched ''GET''))"
proof -
  have "fst (serve_operation ''web'' files_config recorder None [] (origin_request ''GET'' ''/files/x'') []) \<noteq> []"
    by (simp add: serve_eval)
  from ServeHTTP_guarded [OF this] show ?thesis by auto
qed

text \<open>C23: every early answer has exactly its cause, and leaves the backend alone. 404 is sent exactly when no
  mapping matches, 500 exactly when the best match is ambiguous, 400 exactly for a bad absolute target,
  an unsafe path or an unknown client address; a request that the policy denies is answered 403 with the
  reason; and in all these cases nothing outside the process changes.\<close>

theorem ServeHTTP_errors:
  fixes server configured conn room hdr request s
  defines "out \<equiv> serve_operation server configured conn room hdr request s"
    and "resolved \<equiv> ResolveFor (Mounts configured) (mount_request server request)"
    and "source \<equiv> policySource (Servers configured) server request"
  shows "((\<exists>m. snd out = HTTPError 404 m) \<longleftrightarrow> \<not> bad_target request \<and> resolved = Inl ErrNoMatch) \<and>
    ((\<exists>m. snd out = HTTPError 500 m) \<longleftrightarrow> \<not> bad_target request \<and> resolved = Inl ErrAmbiguous) \<and>
    ((\<exists>m. snd out = HTTPError 400 m) \<longleftrightarrow>
       bad_target request \<or> (\<exists>e. resolved = Inl (ErrUnsafePath e)) \<or> (\<exists>a e. resolved = Inr a \<and> source = Inl e)) \<and>
    (\<forall>a x. \<not> bad_target request \<and> resolved = Inr a \<and> source = Inr x \<and>
       \<not> Allowed (Evaluate (Policies configured) (policy_request x a (hMethod request))) \<longrightarrow>
       out = (s, HTTPError 403 (reason_text (Reason (Evaluate (Policies configured) (policy_request x a (hMethod request))))))) \<and>
    (\<forall>n m. snd out = HTTPError n m \<and> n \<in> {400, 404, 500} \<longrightarrow> fst out = s)"
proof (cases rule: serve_cases [where request = request and configured = configured and server = server])
  case target
  then show ?thesis by (simp add: out_def serve_refused)
next
  case (unresolved e)
  then show ?thesis
    by (cases e) (simp_all add: out_def resolved_def serve_refused resolve_answer_def)
next
  case (source matched e)
  then show ?thesis by (simp add: out_def resolved_def source_def serve_refused)
next
  case (decided matched src d)
  show ?thesis
  proof (cases "Allowed d")
    case True
    have code: "snd out = HTTPError n m \<Longrightarrow> n \<in> {403, 413, 405, 502}" for n m
      unfolding out_def serve_authorised [OF decided(2,3,4) True decided(1)] by (simp only: snd_conv) (rule answer_of_code)
    have "(\<exists>m. snd out = HTTPError n m) = False" if "n \<in> {400, 404, 500}" for n
      using code that by fastforce
    then show ?thesis
      using decided True code by (simp add: resolved_def source_def) (use code in fastforce)
  next
    case False
    from serve_denied [OF decided(2,3,4) False decided(1), of conn room hdr s] decided False show ?thesis
      by (simp add: out_def resolved_def source_def)
  qed
qed

theorem ServeHTTP_errors_witness:
  "\<exists>m. snd (serve_operation ''web'' files_config recorder None [] (origin_request ''GET'' ''/other'') []) = HTTPError 404 m"
  using ServeHTTP_errors [of "''web''" files_config recorder None "[]" "origin_request ''GET'' ''/other''" "[]", THEN conjunct1]
  by (simp add: bad_target_def mount_request_def resolve_eval go_defs go_loops)

text \<open>C24: uploads are bounded. Two store connectors that agree on bodies of at most 32 MiB give the same
  answer and the same state for every request, so a connector never sees more of a body than that; and a
  request that declares more is answered with an error before the connector is called.\<close>

theorem ServeHTTP_store_bounded:
  assumes "\<And>m op s. (\<forall>b. stBody op = Some b \<longrightarrow> length (content b) \<le> 33554432) \<Longrightarrow> st m op s = st' m op s"
  shows "serve_operation server configured (conn\<lparr>StoreForMount := Some st\<rparr>) room hdr request s =
      serve_operation server configured (conn\<lparr>StoreForMount := Some st'\<rparr>) room hdr request s \<and>
    (hMethod request = ''PUT'' \<and> 33554432 < hContentLength request \<longrightarrow>
      (\<exists>n m. serve_operation server configured conn room hdr request s = (s, HTTPError n m)))"
proof -
  have len: "length (content (MaxBytesReader b maxStoreBodyBytes)) \<le> 33554432" for b
    by (auto simp: MaxBytesReader_def maxStoreBodyBytes_def)
  have eq: "perform (conn\<lparr>StoreForMount := Some st\<rparr>) request matched sr =
      perform (conn\<lparr>StoreForMount := Some st'\<rparr>) request matched sr" for matched sr
  proof -
    have "st (matchMount matched) op t = st' (matchMount matched) op t"
      if "stBody op = map_option (\<lambda>b. MaxBytesReader b maxStoreBodyBytes) (hBody request)" for op t
      using that len by (intro assms) auto
    then show ?thesis by (simp add: perform_def Let_def split: option.split)
  qed
  have "\<exists>n m. serve_operation server configured conn room hdr request s = (s, HTTPError n m)"
    if put: "hMethod request = ''PUT''" "33554432 < hContentLength request"
  proof -
    have big: "fst (perform conn request matched sr) = sr \<and> snd (perform conn request matched sr) \<noteq> None" for matched sr
      using put by (simp add: perform_def maxStoreBodyBytes_def Let_def split: option.split)
    show ?thesis
    proof (cases rule: serve_cases [where request = request and configured = configured and server = server])
      case (unresolved e)
      then show ?thesis by (cases e) (simp_all add: serve_refused resolve_answer_def)
    next
      case (decided matched src d)
      show ?thesis
      proof (cases "Allowed d")
        case True
        obtain e where "perform conn request matched (s, None) = ((s, None), Some e)"
          using big [of matched "(s, None)"] by (cases "perform conn request matched (s, None)") auto
        with serve_authorised [OF decided(2,3,4) True decided(1), of conn room hdr s] show ?thesis
          by (simp add: answer_of_def error_answer_def Let_def)
      next
        case False
        with serve_denied [OF decided(2,3,4) _ decided(1), of conn room hdr s] show ?thesis by simp
      qed
    qed (simp_all add: serve_refused)
  qed
  moreover have "serve_operation server configured (conn\<lparr>StoreForMount := Some st\<rparr>) room hdr request s =
      serve_operation server configured (conn\<lparr>StoreForMount := Some st'\<rparr>) room hdr request s"
    unfolding serve_operation_def eq ..
  ultimately show ?thesis by blast
qed

theorem ServeHTTP_store_bounded_witness:
  "serve_operation ''web'' files_config (recorder\<lparr>StoreForMount := Some (\<lambda>_ op s. (s, Inl []))\<rparr>) None [] (origin_request ''PUT'' ''/files/x'') [] =
   serve_operation ''web'' files_config
     (recorder\<lparr>StoreForMount := Some (\<lambda>_ op s. if \<exists>b. stBody op = Some b \<and> 33554432 < length (content b) then (s, Inl ErrUnsupported) else (s, Inl []))\<rparr>)
     None [] (origin_request ''PUT'' ''/files/x'') []"
  by (rule ServeHTTP_store_bounded [THEN conjunct1]) auto

text \<open>A captured path can inject a query. The capture is spliced into the target decoded and the target is
  parsed again, so a request path with an encoded question mark and no query of its own reaches the
  backend as a path and a query: \<^verbatim>\<open>/files/a%3Fadmin=1\<close> under \<^verbatim>\<open>/files/* -> http://b/*\<close> asks the backend for
  the path \<^verbatim>\<open>/a\<close> with the query \<^verbatim>\<open>admin=1\<close>.\<close>

theorem ServeHTTP_query_injection:
  "EscapedPath (hURL (origin_request ''GET'' ''/files/a?admin=1'')) = ''/files/a%3Fadmin=1'' \<and>
   RawQuery (hURL (origin_request ''GET'' ''/files/a?admin=1'')) = [] \<and>
   map fResource (fst (serve_operation ''web'' files_config recorder None [] (origin_request ''GET'' ''/files/a?admin=1'') [])) =
     [''http://b/a?admin=1'']"
  by (simp add: serve_eval)

end
