(* ===== verification/Http_Connect.thy ===== *)
theory Http_Connect
  imports Http_Server
begin

text \<open>
  \<^verbatim>\<open>serveCONNECT\<close> of \<^verbatim>\<open>server/http.go\<close> with \<^verbatim>\<open>dialContext\<close> of \<^verbatim>\<open>server/lifecycle.go\<close> and the TCP connector of
  \<^verbatim>\<open>connector/tcp.go\<close>. The handler shares the session registry with all other handlers and with the
  shutdown: what these do to it while the handler dials, hijacks and relays is a parameter, the lists of
  registry events of \<open>connect_env\<close>, so that a theorem about all of them covers all interleavings.
\<close>

section \<open>The TCP connector\<close>

type_synonym 's dialer = "bool \<Rightarrow> string \<Rightarrow> string \<Rightarrow> 's \<Rightarrow> 's \<times> (err, conn) result"
type_synonym 's relay_connector = "bool \<Rightarrow> RelayOp \<Rightarrow> 's \<Rightarrow> 's \<times> (err, conn) result"

text \<open>The first argument says whether the context is already cancelled.\<close>

definition TCP_Connect :: "'s dialer option \<Rightarrow> 's relay_connector" where
  "TCP_Connect dialer cancel_ctx relay s =
     (case dialer of
        None \<Rightarrow> (s, Inl [OtherError ''TCP dialer is required''])
      | Some DialContext \<Rightarrow>
          if rlNetwork relay \<noteq> ''tcp'' then (s, Inl [OtherError ''unsupported relay network''])
          else if ValidateConnectAuthority (rlAddress relay) \<noteq> None then (s, Inl [OtherError ''CONNECT authority''])
          else DialContext cancel_ctx (rlNetwork relay) (rlAddress relay) s)"

section \<open>The environment of one CONNECT request\<close>

record connect_env =
  request_cancelled :: bool
  hijackable :: bool
  dial_events :: "reg_event list"
  hijack_events :: "reg_event list"
  hijack_result :: "conn option"
  handshake_ok :: bool
  from_client :: stream
  from_backend :: stream
  client_room :: "nat option"
  backend_room :: "nat option"
  relay_events :: "reg_event list"

text \<open>
  How the handler ends. \<open>ImplicitOK\<close>: it returns without having written anything or taken the connection
  over, upon which \<^verbatim>\<open>net/http\<close> sends status 200. \<open>HijackedClosed\<close>: the client connection was taken over and
  closed without an answer. \<open>Tunnelled\<close>: the bytes relayed to the backend and to the client.
\<close>

datatype connect_response =
    ConnectError int string
  | ImplicitOK
  | HijackedClosed
  | HandshakeFailed
  | Tunnelled string string

section \<open>The handler\<close>

definition dialContext :: "connectionSessions \<Rightarrow> bool \<Rightarrow> bool" where
  "dialContext s request_done \<longleftrightarrow> cancelled s \<or> request_done"

definition relayOperation :: "string \<Rightarrow> RelayOp option" where
  "relayOperation target =
     (case url_Parse target of
        None \<Rightarrow> None
      | Some parsed \<Rightarrow>
          if \<not> EqualFold (Scheme parsed) ''tcp'' \<or> Host parsed = [] then None
          else if ValidateConnectAuthority (Host parsed) \<noteq> None then None
          else Some \<lparr>rlNetwork = ''tcp'', rlAddress = Host parsed\<rparr>)"

definition copyRelay :: "nat option \<Rightarrow> stream \<Rightarrow> string" where
  "copyRelay room src = fst (io_Copy room src)"

definition relayStreams :: "connect_env \<Rightarrow> string \<times> string" where
  "relayStreams env = (copyRelay (backend_room env) (from_client env), copyRelay (client_room env) (from_backend env))"

text \<open>\<^verbatim>\<open>sessions.add\<close> with the close it makes when it refuses, and \<^verbatim>\<open>Close\<close> on a connection.\<close>

definition add_session :: "connectionSessions tracked \<Rightarrow> conn \<Rightarrow> bool \<times> connectionSessions tracked" where
  "add_session t c = (fst (sessions_add (registry t) (Some c)), foldl sessions.event t [EvAdd c, EvClose c])"

definition close_conn :: "conn \<Rightarrow> 's tracked \<Rightarrow> 's tracked" where
  "close_conn c t = t\<lparr>closed_conns := insert c (closed_conns t)\<rparr>"

text \<open>From the dial on. The deferred calls run in reverse order at each return.\<close>

definition connect_tunnel ::
    "'s relay_connector \<Rightarrow> connect_env \<Rightarrow> RelayOp \<Rightarrow> 's \<Rightarrow> connectionSessions tracked \<Rightarrow>
       connect_response \<times> 's \<times> connectionSessions tracked" where
  "connect_tunnel relay env op s t =
     (case relay (dialContext (registry t) (request_cancelled env)) op s of
        (s', Inl _) \<Rightarrow> (ConnectError 502 ''backend relay failed'', s', foldl sessions.event t (dial_events env))
      | (s', Inr backend) \<Rightarrow>
          (case add_session (foldl sessions.event t (dial_events env)) backend of
             (False, t1) \<Rightarrow> (ImplicitOK, s', t1)
           | (True, t1) \<Rightarrow>
               (let t2 = foldl sessions.event t1 (hijack_events env) in
                case hijack_result env of
                  None \<Rightarrow> (ImplicitOK, s', sessions.event (close_conn backend t2) (EvRemove backend))
                | Some client \<Rightarrow>
                    (case add_session t2 client of
                       (False, t3) \<Rightarrow> (HijackedClosed, s', sessions.event t3 (EvRemove backend))
                     | (True, t3) \<Rightarrow>
                         (let t4 = foldl sessions.event t3 (relay_events env) in
                          (if handshake_ok env then (case relayStreams env of (up, down) \<Rightarrow> Tunnelled up down)
                           else HandshakeFailed,
                           s', foldl sessions.event (close_conn client (close_conn backend t4))
                                 [EvRemove client, EvRemove backend]))))))"

definition connect_request :: "string \<Rightarrow> string \<Rightarrow> MountRequest" where
  "connect_request server auth =
     \<lparr>rqPath = ''/'', rqScheme = ''connect'', rqAuthority = auth, rqServer = server, rqProtocol = ''http''\<rparr>"

definition connect_authority :: "HTTPRequest \<Rightarrow> string" where
  "connect_authority request = (if hRequestURI request = [] then Host (hURL request) else hRequestURI request)"

definition serveCONNECT ::
    "string \<Rightarrow> Config \<Rightarrow> 's relay_connector option \<Rightarrow> connect_env \<Rightarrow> HTTPRequest \<Rightarrow> 's \<Rightarrow> connectionSessions tracked \<Rightarrow>
       connect_response \<times> 's \<times> connectionSessions tracked" where
  "serveCONNECT server configured relay env request s t =
     (if ValidateConnectAuthority (connect_authority request) \<noteq> None
      then (ConnectError 400 ''invalid CONNECT authority'', s, t)
      else (case ResolveFor (Mounts configured) (connect_request server (connect_authority request)) of
        Inl e \<Rightarrow> ((if e = ErrNoMatch then ConnectError 404 ''no matching mount''
                    else ConnectError 500 ''mount resolution failed''), s, t)
      | Inr matched \<Rightarrow>
          (case policySource (Servers configured) server request of
             Inl _ \<Rightarrow> (ConnectError 400 ''invalid client address'', s, t)
           | Inr source \<Rightarrow>
               (let decision = Evaluate (Policies configured) (policy_request source matched ''CONNECT'') in
                if \<not> Allowed decision then (ConnectError 403 (reason_text (Reason decision)), s, t)
                else if \<not> hijackable env then (ConnectError 501 ''CONNECT relay unavailable'', s, t)
                else (case relay of
                  None \<Rightarrow> (ConnectError 501 ''CONNECT relay unavailable'', s, t)
                | Some Connect \<Rightarrow>
                    (case relayOperation (matchTarget matched) of
                       None \<Rightarrow> (ConnectError 502 ''invalid relay target'', s, t)
                     | Some op \<Rightarrow> connect_tunnel Connect env op s t))))))"

section \<open>The whole handler\<close>

datatype served = Operation Response | Connected connect_response

definition ServeHTTP ::
    "string \<Rightarrow> Config \<Rightarrow> 's connector \<Rightarrow> 's relay_connector option \<Rightarrow> nat option \<Rightarrow> header \<Rightarrow> connect_env \<Rightarrow>
       HTTPRequest \<Rightarrow> 's \<Rightarrow> connectionSessions tracked \<Rightarrow> served \<times> 's \<times> connectionSessions tracked" where
  "ServeHTTP server configured conn relay room hdr env request s t =
     (if hMethod request = ''CONNECT''
      then (case serveCONNECT server configured relay env request s t of (r, s', t') \<Rightarrow> (Connected r, s', t'))
      else (case serve_operation server configured conn room hdr request s of (s', r) \<Rightarrow> (Operation r, s', t)))"

section \<open>Lemmas\<close>

lemma closed_event: "closed_conns t \<subseteq> closed_conns (sessions.event t e)"
  by (cases e) (auto split: prod.splits)

lemma closed_run: "c \<in> closed_conns t \<Longrightarrow> c \<in> closed_conns (foldl sessions.event t es)"
  using closed_event by (induction es arbitrary: t) fastforce+

lemma closed_close_conn [simp]: "c \<in> closed_conns (close_conn d t) \<longleftrightarrow> c = d \<or> c \<in> closed_conns t"
  by (simp add: close_conn_def)



lemma relayOperation_valid:
  "relayOperation target = Some op \<Longrightarrow> rlNetwork op = ''tcp'' \<and> ValidateConnectAuthority (rlAddress op) = None"
  by (auto simp: relayOperation_def split: option.splits if_splits)

lemma connect_tunnel_state:
  "fst (snd (connect_tunnel relay env op s t)) = fst (relay (dialContext (registry t) (request_cancelled env)) op s)"
  by (simp add: connect_tunnel_def Let_def split: prod.splits sum.splits option.splits bool.splits)

text \<open>What an accepted CONNECT request has passed.\<close>

lemma serveCONNECT_passes:
  assumes "serveCONNECT server configured relay env request s t = (resp, s', t')"
  obtains (refused) n m where "resp = ConnectError n m" "s' = s" "t' = t"
  | (accepted) matched source Connect op where
      "ValidateConnectAuthority (connect_authority request) = None"
      "ResolveFor (Mounts configured) (connect_request server (connect_authority request)) = Inr matched"
      "policySource (Servers configured) server request = Inr source"
      "Allowed (Evaluate (Policies configured) (policy_request source matched ''CONNECT''))"
      "hijackable env" "relay = Some Connect" "relayOperation (matchTarget matched) = Some op"
      "connect_tunnel Connect env op s t = (resp, s', t')"
  using assms
  by (auto simp: serveCONNECT_def Let_def split: if_splits sum.splits option.splits)

lemmas connect_eval = connect_tunnel_def add_session_def close_conn_def dialContext_def newConnectionSessions_def
  sessions_add_def sessions_add_conn_def sessions_remove_def beginDrain_def forceClose_def closeDrainedLocked_def
  relayStreams_def copyRelay_def io_Copy_def empty_stream_def

abbreviation quiet_env :: connect_env where
  "quiet_env \<equiv> \<lparr>request_cancelled = False, hijackable = True, dial_events = [], hijack_events = [],
     hijack_result = Some 2, handshake_ok = True, from_client = empty_stream, from_backend = empty_stream,
     client_room = None, backend_room = None, relay_events = []\<rparr>"

abbreviation dial_one :: "string list relay_connector" where
  "dial_one \<equiv> TCP_Connect (Some (\<lambda>_ _ address s. (address # s, Inr 1)))"

section \<open>Properties\<close>

text \<open>C8: \<^verbatim>\<open>CONNECT\<close> dials only where the policy lets it. If a CONNECT request changes anything outside the
  process, its authority is a valid host and port, it resolves to one mapping, the client address is
  known and the policy allows it; and the one dial made is over TCP to the validated authority of that
  mapping's target, never to an address of the client's choosing.\<close>

theorem serveCONNECT_guarded:
  assumes "fst (snd (serveCONNECT server configured (Some relay) env request s t)) \<noteq> s"
  shows "ValidateConnectAuthority (connect_authority request) = None \<and>
    (\<exists>matched source op.
      ResolveFor (Mounts configured) (connect_request server (connect_authority request)) = Inr matched \<and>
      policySource (Servers configured) server request = Inr source \<and>
      Allowed (Evaluate (Policies configured) (policy_request source matched ''CONNECT'')) \<and>
      relayOperation (matchTarget matched) = Some op \<and>
      rlNetwork op = ''tcp'' \<and> ValidateConnectAuthority (rlAddress op) = None \<and>
      fst (snd (serveCONNECT server configured (Some relay) env request s t)) =
        fst (relay (dialContext (registry t) (request_cancelled env)) op s))"
proof -
  obtain resp s' t' where out: "serveCONNECT server configured (Some relay) env request s t = (resp, s', t')"
    by (rule prod_cases3)
  from out show ?thesis
  proof (cases rule: serveCONNECT_passes)
    case refused
    with assms out show ?thesis by simp
  next
    case (accepted matched source Connect op)
    with out connect_tunnel_state [of relay env op s t] relayOperation_valid show ?thesis by auto
  qed
qed

abbreviation tunnel_config :: Config where
  "tunnel_config \<equiv> \<lparr>Servers = [plain_server ''web'' ''http'' '':80''],
     Mounts = [(path_mount [] ''tcp://db:5432'')\<lparr>mSource := ''connect://db.example:443''\<rparr>],
     Policies = [any_rule ''permit'' 0]\<rparr>"

theorem serveCONNECT_guarded_witness:
  "\<exists>matched op. ResolveFor (Mounts tunnel_config) (connect_request ''web'' ''db.example:443'') = Inr matched \<and>
     relayOperation (matchTarget matched) = Some op \<and> ValidateConnectAuthority (rlAddress op) = None"
proof -
  let ?r = "(origin_request ''CONNECT'' [])\<lparr>hRequestURI := ''db.example:443''\<rparr>"
  have "fst (snd (serveCONNECT ''web'' tunnel_config (Some dial_one) quiet_env ?r [] (fresh newConnectionSessions))) \<noteq> []"
    by (simp add: serveCONNECT_def connect_authority_def connect_request_def relayOperation_def TCP_Connect_def
        connect_tunnel_state ValidateConnectAuthority_def parseSourceURL_def source_path_def serve_eval)
  from serveCONNECT_guarded [OF this] show ?thesis by (auto simp: connect_authority_def)
qed



text \<open>The exception leaks. When a drain begins after the backend is registered and before the client is,
  the handler returns with the backend connection open and unregistered, while the registry reports that
  it is drained.\<close>

theorem serveCONNECT_leaks_backend:
  "case connect_tunnel dial_one (quiet_env\<lparr>hijack_events := [EvQuiet]\<rparr>) \<lparr>rlNetwork = ''tcp'', rlAddress = ''db:5432''\<rparr> []
     (fresh newConnectionSessions) of
   (resp, dialled, t) \<Rightarrow> resp = HijackedClosed \<and> dialled = [''db:5432''] \<and> 1 \<notin> closed_conns t \<and> pending_close t = {} \<and>
     sItems (registry t) = {} \<and> drained (registry t)"
proof -
  have "ValidateConnectAuthority ''db:5432'' = None" by (simp add: ValidateConnectAuthority_def go_defs go_loops)
  then show ?thesis by (simp add: connect_eval TCP_Connect_def)
qed

text \<open>A refused tunnel is announced as one. When a drain begins while the backend is dialled, the handler
  returns without an answer and without having taken the connection over, so the client of the CONNECT
  request is told 200 by \<^verbatim>\<open>net/http\<close> although no tunnel exists.\<close>

theorem serveCONNECT_implicit_ok:
  "fst (connect_tunnel dial_one (quiet_env\<lparr>dial_events := [EvQuiet]\<rparr>) \<lparr>rlNetwork = ''tcp'', rlAddress = ''db:5432''\<rparr> []
     (fresh newConnectionSessions)) = ImplicitOK"
proof -
  have "ValidateConnectAuthority ''db:5432'' = None" by (simp add: ValidateConnectAuthority_def go_defs go_loops)
  then show ?thesis by (simp add: connect_eval TCP_Connect_def)
qed

end
