(* ===== verification/Explain.thy ===== *)
theory Explain
  imports Http_Connect
begin

text \<open>
  \<^verbatim>\<open>explain/explain.go\<close>: the evaluation of routing and policy without runtime resources, and its agreement
  with the request handler.
\<close>

section \<open>Requests and results\<close>

definition OutcomePermit :: string where "OutcomePermit = ''permit''"
definition OutcomeReject :: string where "OutcomeReject = ''reject''"
definition OutcomeNoMount :: string where "OutcomeNoMount = ''no_mount''"
definition OutcomeUnsafePath :: string where "OutcomeUnsafePath = ''unsafe_path''"
definition OutcomeAmbiguous :: string where "OutcomeAmbiguous = ''ambiguous_mount''"

lemmas explain_outcomes = OutcomePermit_def OutcomeReject_def OutcomeNoMount_def OutcomeUnsafePath_def
  OutcomeAmbiguous_def

record ExplainRequest =
  ePath :: string
  eURL :: string
  eSource :: string
  eServer :: string
  eProtocol :: string
  eMethod :: string

record MountResult =
  mrPath :: string
  mrSource :: string
  mrNormalizedPath :: string
  mrTarget :: string

record PolicyResult =
  plAllowed :: bool
  plReason :: ReasonCode
  plRuleIndex :: int

record ExplainResult =
  xOutcome :: string
  xRequest :: ExplainRequest
  xMount :: "MountResult option"
  xPolicy :: "PolicyResult option"

datatype explain_error =
    ExplainConfig config_error
  | ExplainPathOrURL
  | ExplainSource
  | ExplainProtocol
  | ExplainServer
  | ExplainMethod
  | ExplainURL
  | ExplainTarget

section \<open>Evaluation\<close>

text \<open>The checks before anything is resolved.\<close>

definition explain_checks :: "Config \<Rightarrow> ExplainRequest \<Rightarrow> explain_error option" where
  "explain_checks configured q =
     check (map_option ExplainConfig (Config_Validate configured))
       (if (TrimSpace (ePath q) = []) = (TrimSpace (eURL q) = []) then Some ExplainPathOrURL
        else if TrimSpace (eSource q) = [] then Some ExplainSource
        else if TrimSpace (eProtocol q) = [] then Some ExplainProtocol
        else if TrimSpace (eServer q) = [] then Some ExplainServer
        else if TrimSpace (eMethod q) = [] then Some ExplainMethod
        else None)"

text \<open>The request for the resolver, and the request as it is reported back.\<close>

definition explain_target :: "ExplainRequest \<Rightarrow> (explain_error, MountRequest \<times> ExplainRequest) result" where
  "explain_target q =
     (let base = \<lparr>rqPath = ePath q, rqScheme = [], rqAuthority = [], rqServer = eServer q, rqProtocol = eProtocol q\<rparr> in
      if eURL q = [] then Inr (base, q)
      else (case ParseRequestURI (eURL q) of
        None \<Rightarrow> Inl ExplainURL
      | Some parsed \<Rightarrow>
          if \<not> IsAbs parsed \<or> Host parsed = [] \<or> User parsed \<noteq> None \<or> Fragment parsed \<noteq> [] then Inl ExplainURL
          else
            (let path = (if EscapedPath parsed = [] then ''/'' else EscapedPath parsed) in
             Inr (base\<lparr>rqPath := path, rqScheme := Scheme parsed, rqAuthority := Host parsed\<rparr>, q\<lparr>ePath := path\<rparr>))))"

definition explain_Evaluate :: "Config \<Rightarrow> ExplainRequest \<Rightarrow> (explain_error, ExplainResult) result" where
  "explain_Evaluate configured q0 =
     (case explain_checks configured q0 of
        Some e \<Rightarrow> Inl e
      | None \<Rightarrow>
          bind_result (explain_target q0) (\<lambda>(mountRequest, q).
            case ResolveFor (Mounts configured) mountRequest of
              Inl e \<Rightarrow>
                Inr \<lparr>xOutcome = (case e of ErrNoMatch \<Rightarrow> OutcomeNoMount | ErrUnsafePath _ \<Rightarrow> OutcomeUnsafePath
                                    | ErrAmbiguous \<Rightarrow> OutcomeAmbiguous),
                     xRequest = q, xMount = None, xPolicy = None\<rparr>
            | Inr matched \<Rightarrow>
                (case url_Parse (matchTarget matched) of
                   None \<Rightarrow> Inl ExplainTarget
                 | Some target \<Rightarrow>
                     (let decision = Evaluate (Policies configured)
                            \<lparr>prSource = eSource q, prProtocol = eProtocol q, prDestination = Hostname target,
                             prMethod = eMethod q, prMount = Pattern (matchMount matched)\<rparr> in
                      Inr \<lparr>xOutcome = (if Allowed decision then OutcomePermit else OutcomeReject), xRequest = q,
                           xMount = Some \<lparr>mrPath = mPath (matchMount matched), mrSource = mSource (matchMount matched),
                             mrNormalizedPath = NormalizedPath matched, mrTarget = matchTarget matched\<rparr>,
                           xPolicy = Some \<lparr>plAllowed = Allowed decision, plReason = Reason decision,
                             plRuleIndex = RuleIndex decision\<rparr>\<rparr>))))"

section \<open>Lemmas\<close>

lemma explain_target_request:
  "explain_target q0 = Inr (m, q) \<Longrightarrow>
     eSource q = eSource q0 \<and> eMethod q = eMethod q0 \<and> eProtocol q = rqProtocol m \<and> rqServer m = eServer q0"
  by (auto simp: explain_target_def Let_def split: if_splits option.splits)

text \<open>The decision of the handler, given what the explanation resolved.\<close>

lemma explain_decision:
  assumes "url_Parse (matchTarget matched) = Some target"
  shows "policy_request source matched meth =
    \<lparr>prSource = source, prProtocol = ''http'', prDestination = Hostname target, prMethod = meth,
     prMount = Pattern (matchMount matched)\<rparr>"
  using assms by (simp add: policy_request_def targetHostname_def)

text \<open>The request that an explanation is about, as it reaches the handler: the same method, and either a target in
  origin form with the given path, or the given URL as absolute target, parsed by \<^verbatim>\<open>net/http\<close>. A URL with an
  empty path is left out, see \<open>explain_empty_path_differs\<close>.\<close>

definition same_request :: "ExplainRequest \<Rightarrow> HTTPRequest \<Rightarrow> bool" where
  "same_request q request \<longleftrightarrow> hMethod request = eMethod q \<and> eProtocol q = ''http'' \<and>
     (if eURL q = [] then Scheme (hURL request) = [] \<and> Host (hURL request) = [] \<and> EscapedPath (hURL request) = ePath q
      else ParseRequestURI (eURL q) = Some (hURL request) \<and> EscapedPath (hURL request) \<noteq> [])"

lemma explain_target_served:
  assumes "same_request q request" and "explain_target q = Inr (m, q')"
  shows "m = mount_request (eServer q) request \<and> \<not> bad_target request"
  using assms
  by (auto simp: same_request_def explain_target_def mount_request_def bad_target_def IsAbs_def Let_def split: if_splits)

lemma explain_outcome:
  assumes "explain_Evaluate configured q = Inr res"
  shows "xOutcome res \<in> {''no_mount'', ''unsafe_path'', ''ambiguous_mount'', ''reject'', ''permit''}"
proof -
  obtain m q' where t: "explain_target q = Inr (m, q')"
    using assms by (auto simp: explain_Evaluate_def split: option.splits)
  show ?thesis
  proof (cases "ResolveFor (Mounts configured) m")
    case (Inl e)
    with assms t show ?thesis by (cases e) (auto simp: explain_Evaluate_def explain_outcomes split: option.splits)
  next
    case (Inr matched)
    with assms t show ?thesis by (auto simp: explain_Evaluate_def explain_outcomes Let_def split: option.splits if_splits)
  qed
qed

lemma explained_answer:
  assumes "explain_Evaluate configured q = Inr res"
    and "explain_target q = Inr (mount_request (eServer q) request, q')"
    and "policySource (Servers configured) (eServer q) request = Inr (eSource q)"
    and "hMethod request = eMethod q" and "\<not> bad_target request"
    and out_def: "out = serve_operation (eServer q) configured conn room hdr request s"
  shows "(xOutcome res = ''no_mount'' \<longrightarrow> out = (s, HTTPError 404 ''no matching mount'')) \<and>
    (xOutcome res = ''unsafe_path'' \<longrightarrow> out = (s, HTTPError 400 ''unsafe request path'')) \<and>
    (xOutcome res = ''ambiguous_mount'' \<longrightarrow> out = (s, HTTPError 500 ''mount resolution failed'')) \<and>
    (xOutcome res = ''reject'' \<longrightarrow>
       (\<exists>p. xPolicy res = Some p \<and> out = (s, HTTPError 403 (reason_text (plReason p))))) \<and>
    (xOutcome res = ''permit'' \<longrightarrow>
       (\<exists>m matched. xMount res = Some m \<and> mrTarget m = matchTarget matched \<and> mrPath m = mPath (matchMount matched) \<and>
          ResolveFor (Mounts configured) (mount_request (eServer q) request) = Inr matched \<and>
          fst out = fst (fst (perform conn request matched (s, None)))))"
proof -
  have chk: "explain_checks configured q = None"
    using assms(1) by (auto simp: explain_Evaluate_def split: option.splits)
  have q': "eSource q' = eSource q" "eMethod q' = eMethod q" "eProtocol q' = ''http''"
    using explain_target_request [OF assms(2)] by (simp_all add: mount_request_def)
  show ?thesis
  proof (cases "ResolveFor (Mounts configured) (mount_request (eServer q) request)")
    case (Inl e)
    have "xOutcome res = (case e of ErrNoMatch \<Rightarrow> OutcomeNoMount | ErrUnsafePath _ \<Rightarrow> OutcomeUnsafePath
        | ErrAmbiguous \<Rightarrow> OutcomeAmbiguous)"
      using assms(1,2) Inl chk by (auto simp: explain_Evaluate_def)
    moreover have "out = (s, resolve_answer e)"
      unfolding out_def by (rule serve_refused(2) [OF assms(5) Inl])
    ultimately show ?thesis by (cases e) (simp_all add: explain_outcomes resolve_answer_def)
  next
    case (Inr matched)
    obtain target where t: "url_Parse (matchTarget matched) = Some target"
      using assms(1,2) Inr chk by (auto simp: explain_Evaluate_def split: option.splits)
    let ?d = "Evaluate (Policies configured) (policy_request (eSource q) matched (hMethod request))"
    have res: "res = \<lparr>xOutcome = (if Allowed ?d then OutcomePermit else OutcomeReject), xRequest = q',
        xMount = Some \<lparr>mrPath = mPath (matchMount matched), mrSource = mSource (matchMount matched),
          mrNormalizedPath = NormalizedPath matched, mrTarget = matchTarget matched\<rparr>,
        xPolicy = Some \<lparr>plAllowed = Allowed ?d, plReason = Reason ?d, plRuleIndex = RuleIndex ?d\<rparr>\<rparr>"
      using assms(1,2,4) Inr chk t q' by (simp add: explain_Evaluate_def explain_decision [OF t] Let_def)
    show ?thesis
    proof (cases "Allowed ?d")
      case True
      from serve_authorised [OF Inr assms(3) refl True assms(5), of conn room hdr s] True res Inr
      show ?thesis by (simp add: out_def explain_outcomes)
    next
      case False
      from serve_denied [OF Inr assms(3) refl False assms(5), of conn room hdr s] False res
      show ?thesis by (simp add: out_def explain_outcomes)
    qed
  qed
qed

section \<open>Properties\<close>

text \<open>C19: an explanation predicts the server. For an explanation that succeeds and the same request at the HTTP
  handler of that server, not a \<^verbatim>\<open>CONNECT\<close>, from a client whose address the handler takes to be the explained
  source, the handler answers 404 when the outcome is \<^verbatim>\<open>no_mount\<close>, 400 for \<^verbatim>\<open>unsafe_path\<close>, 500 for
  \<^verbatim>\<open>ambiguous_mount\<close> and 403 with the explained reason for \<^verbatim>\<open>reject\<close>, all without touching a backend or a session;
  and for \<^verbatim>\<open>permit\<close> it performs the operation on the explained mapping and target. An absolute URL with an
  empty path is the one exception.\<close>

theorem explain_agrees:
  assumes "explain_Evaluate configured q = Inr res" and "same_request q request" and "hMethod request \<noteq> ''CONNECT''"
    and "policySource (Servers configured) (eServer q) request = Inr (eSource q)"
    and "out = ServeHTTP (eServer q) configured conn relay room hdr env request s t"
  shows "(xOutcome res = ''no_mount'' \<longrightarrow> out = (Operation (HTTPError 404 ''no matching mount''), s, t)) \<and>
    (xOutcome res = ''unsafe_path'' \<longrightarrow> out = (Operation (HTTPError 400 ''unsafe request path''), s, t)) \<and>
    (xOutcome res = ''ambiguous_mount'' \<longrightarrow> out = (Operation (HTTPError 500 ''mount resolution failed''), s, t)) \<and>
    (xOutcome res = ''reject'' \<longrightarrow>
       (\<exists>p. xPolicy res = Some p \<and> out = (Operation (HTTPError 403 (reason_text (plReason p))), s, t))) \<and>
    (xOutcome res = ''permit'' \<longrightarrow>
       (\<exists>m matched. xMount res = Some m \<and> mrTarget m = matchTarget matched \<and> mrPath m = mPath (matchMount matched) \<and>
          ResolveFor (Mounts configured) (mount_request (eServer q) request) = Inr matched \<and>
          fst (snd out) = fst (fst (perform conn request matched (s, None))))) \<and>
    xOutcome res \<in> {''no_mount'', ''unsafe_path'', ''ambiguous_mount'', ''reject'', ''permit''}"
proof -
  obtain m q' where target: "explain_target q = Inr (m, q')"
    using assms(1) by (auto simp: explain_Evaluate_def split: option.splits)
  then have t: "explain_target q = Inr (mount_request (eServer q) request, q')" "\<not> bad_target request"
    using explain_target_served [OF assms(2)] by auto
  have meth: "hMethod request = eMethod q" using assms(2) by (simp add: same_request_def)
  obtain s' r where so: "serve_operation (eServer q) configured conn room hdr request s = (s', r)" by fastforce
  then have out: "out = (Operation r, s', t)" using assms(3,5) by (simp add: ServeHTTP_def)
  have "xOutcome res \<in> {''no_mount'', ''unsafe_path'', ''ambiguous_mount'', ''reject'', ''permit''}"
    by (rule explain_outcome [OF assms(1)])
  with explained_answer [OF assms(1) t(1) assms(4) meth t(2) so [symmetric]] show ?thesis
    unfolding out by (simp only: prod.inject served.inject fst_conv snd_conv) blast
qed

abbreviation explain_files :: ExplainRequest where
  "explain_files \<equiv> \<lparr>ePath = ''/other'', eURL = [], eSource = ''10.0.0.1'', eServer = ''web'', eProtocol = ''http'', eMethod = ''GET''\<rparr>"

lemmas explain_eval = explain_Evaluate_def explain_checks_def explain_target_def explain_outcomes
  Config_Validate_def validate_server_def validate_mount_def validate_scope_def mount_eval
  serve_eval

theorem explain_agrees_witness:
  "fst (ServeHTTP ''web'' files_config recorder None None [] quiet_env (origin_request ''GET'' ''/other'') [] (fresh newConnectionSessions)) =
     Operation (HTTPError 404 ''no matching mount'')"
proof -
  let ?res = "\<lparr>xOutcome = OutcomeNoMount, xRequest = explain_files, xMount = None, xPolicy = None\<rparr>"
  have "explain_Evaluate files_config explain_files = Inr ?res" by (simp add: explain_eval)
  moreover have "same_request explain_files (origin_request ''GET'' ''/other'')"
    by (simp add: same_request_def go_defs go_loops)
  ultimately show ?thesis
    using explain_agrees [of files_config explain_files ?res "origin_request ''GET'' ''/other''" _ recorder None None "[]" quiet_env "[]"
        "fresh newConnectionSessions", OF _ _ _ _ refl]
    by (simp add: explain_outcomes remoteHost_def go_defs go_loops)
qed

text \<open>An absolute target with an empty path is explained differently from how it is served. For
  \<^verbatim>\<open>GET http://h\<close> the explanation resolves the path \<^verbatim>\<open>/\<close> and reports \<^verbatim>\<open>permit\<close>, while the handler refuses the
  empty path with 400.\<close>

theorem explain_empty_path_differs:
  "\<exists>u res configured.
     ParseRequestURI ''http://h'' = Some u \<and>
     explain_Evaluate configured (explain_files\<lparr>ePath := [], eURL := ''http://h''\<rparr>) = Inr res \<and>
     xOutcome res = ''permit'' \<and>
     serve_operation ''web'' configured recorder None []
       ((origin_request ''GET'' [])\<lparr>hURL := u, hRequestURI := ''http://h''\<rparr>) [] = ([], HTTPError 400 ''unsafe request path'')"
proof -
  let ?u = "empty_url\<lparr>Scheme := ''http'', Host := ''h''\<rparr>" and ?c = "files_config\<lparr>Mounts := [path_mount ''/*'' ''http://b/*'']\<rparr>"
  have u: "ParseRequestURI ''http://h'' = Some ?u" by (simp add: go_defs go_loops)
  have "explain_target (explain_files\<lparr>ePath := [], eURL := ''http://h''\<rparr>) =
      Inr (\<lparr>rqPath = ''/'', rqScheme = ''http'', rqAuthority = ''h'', rqServer = ''web'', rqProtocol = ''http''\<rparr>,
        explain_files\<lparr>ePath := ''/'', eURL := ''http://h''\<rparr>)"
    by (simp add: explain_target_def u) (simp add: Let_def go_defs go_loops)
  then obtain res where "explain_Evaluate ?c (explain_files\<lparr>ePath := [], eURL := ''http://h''\<rparr>) = Inr res" "xOutcome res = ''permit''"
    by (simp add: explain_Evaluate_def) (simp add: explain_eval)
  moreover have "serve_operation ''web'' ?c recorder None []
      ((origin_request ''GET'' [])\<lparr>hURL := ?u, hRequestURI := ''http://h''\<rparr>) [] = ([], HTTPError 400 ''unsafe request path'')"
    by (simp add: serve_eval)
  ultimately show ?thesis using u by blast
qed

end
