(* ===== verification/Legacy.thy ===== *)
theory Legacy
  imports Config
begin

text \<open>
  \<^verbatim>\<open>config/legacy.go\<close>: the directives of the original DeleGate command line. \<^verbatim>\<open>strconv.Unquote\<close> is
  modelled for double-quoted text, the only quoting the code passes to it.
\<close>

section \<open>Unquoting\<close>

definition hex_digits :: "string \<Rightarrow> nat option" where
  "hex_digits ds =
     (if list_all (\<lambda>c. hex_value c \<noteq> None) ds
      then Some (foldl (\<lambda>n c. 16 * n + nat (the (hex_value c))) 0 ds) else None)"

definition octal_digit :: "char \<Rightarrow> bool" where
  "octal_digit c \<longleftrightarrow> 48 \<le> byte c \<and> byte c \<le> 55"

definition valid_rune :: "nat \<Rightarrow> bool" where
  "valid_rune r \<longleftrightarrow> r < 0xD800 \<or> 0xDFFF < r \<and> r \<le> 0x10FFFF"

text \<open>The escape after a backslash: the bytes it stands for and the rest.\<close>

definition numeric_escape :: "nat \<Rightarrow> string \<Rightarrow> (string \<times> string) option" where
  "numeric_escape n s =
     (if length s < n then None
      else (case hex_digits (take n s) of
        None \<Rightarrow> None
      | Some v \<Rightarrow>
          if n = 2 then Some ([char_of v], drop n s)
          else if valid_rune v then Some (encode_rune v, drop n s)
          else None))"

definition octal_escape :: "string \<Rightarrow> (string \<times> string) option" where
  "octal_escape s =
     (if length s < 3 \<or> \<not> list_all octal_digit (take 3 s) then None
      else
        (let v = foldl (\<lambda>n c. 8 * n + (byte c - 48)) 0 (take 3 s) in
         if 255 < v then None else Some ([char_of v], drop 3 s)))"

fun unquote_escape :: "string \<Rightarrow> (string \<times> string) option" where
  "unquote_escape [] = None"
| "unquote_escape (c # s) =
     (if c = CHR ''a'' then Some ([CHR 0x07], s)
      else if c = CHR ''b'' then Some ([CHR 0x08], s)
      else if c = CHR ''f'' then Some ([CHR 0x0C], s)
      else if c = CHR ''n'' then Some ([CHR 0x0A], s)
      else if c = CHR ''r'' then Some ([CHR 0x0D], s)
      else if c = CHR ''t'' then Some ([CHR 0x09], s)
      else if c = CHR ''v'' then Some ([CHR 0x0B], s)
      else if c = CHR ''x'' then numeric_escape 2 s
      else if c = CHR ''u'' then numeric_escape 4 s
      else if c = CHR ''U'' then numeric_escape 8 s
      else if octal_digit c then octal_escape (c # s)
      else if c = CHR 0x5C then Some ([CHR 0x5C], s)
      else if c = CHR 0x22 then Some ([CHR 0x22], s)
      else None)"

text \<open>The bytes of the next rune, as \<^verbatim>\<open>UnquoteChar\<close> reads one; an invalid byte becomes U+FFFD.\<close>

definition unquote_char :: "string \<Rightarrow> (string \<times> string) option" where
  "unquote_char s =
     (if hd s = CHR 0x0A then None
      else if hd s = CHR 0x5C then unquote_escape (tl s)
      else if byte (hd s) < 128 then Some ([hd s], tl s)
      else (case decode_rune s of
        Some (r, n) \<Rightarrow> Some (encode_rune r, drop n s)
      | None \<Rightarrow> Some (encode_rune RuneError, tl s)))"

lemma unquote_escape_size: "unquote_escape s = Some (out, rest) \<Longrightarrow> length rest < length s"
  by (cases s) (auto simp: numeric_escape_def octal_escape_def Let_def split: if_splits option.splits)

lemma unquote_char_size:
  "s \<noteq> [] \<Longrightarrow> unquote_char s = Some (out, rest) \<Longrightarrow> length rest < length s"
  using unquote_escape_size [of "tl s" out rest] decode_rune_size [of s] length_greater_0_conv [of s]
  by (auto simp: unquote_char_def split: if_splits option.splits)

text \<open>The loop up to the closing quote, which must end the text.\<close>

function unquote_loop :: "string \<Rightarrow> string option" where
  "unquote_loop s =
     (if s = [] then None
      else if hd s = CHR 0x22 then (if tl s = [] then Some [] else None)
      else (case unquote_char s of
        None \<Rightarrow> None
      | Some (out, rest) \<Rightarrow> map_option (\<lambda>t. out @ t) (unquote_loop rest)))"
  by pat_completeness auto
termination
  by (relation "measure length") (auto dest: unquote_char_size)

declare unquote_loop.simps [simp del, go_loops]

definition Unquote :: "string \<Rightarrow> string option" where
  "Unquote s = (if s = [] \<or> hd s \<noteq> CHR 0x22 then None else unquote_loop (tl s))"

section \<open>Directives\<close>

definition legacyDefaultPorts :: "string \<Rightarrow> int option" where
  "legacyDefaultPorts =
     [''ftp'' \<mapsto> 21, ''gopher'' \<mapsto> 70, ''http'' \<mapsto> 80, ''https'' \<mapsto> 443, ''socks'' \<mapsto> 1080]"

datatype legacy_error =
    ServerProtocolMissing
  | ConflictingServers string string
  | PortValueMissing
  | InvalidPort string
  | ConflictingPorts int int
  | MountQuoting
  | MountFields
  | MountUnknownOption string
  | MountPriority string
  | LegacyMount mount_error
  | PolicyQuoting string
  | PolicySelectors string
  | PolicyEmptySelector string
  | LegacyPolicy string policy_error
  | UnknownDirective string
  | ServerRequired
  | NoDefaultPort string
  | LegacyInvalid config_error

definition parseLegacyPort :: "string \<Rightarrow> (legacy_error, int) result" where
  "parseLegacyPort val =
     (case Atoi val of
        None \<Rightarrow> Inl (InvalidPort val)
      | Some port \<Rightarrow> if port < 1 \<or> 65535 < port then Inl (InvalidPort val) else Inr port)"

text \<open>The quotes around a directive's value, if it has them.\<close>

definition unquote_value :: "string \<Rightarrow> string option" where
  "unquote_value val =
     (if 2 \<le> length val \<and> hd val = CHR 0x22 \<and> last val = CHR 0x22 then Unquote val else Some val)"

text \<open>One option of a mount, and the loop over them.\<close>

definition mount_option :: "Mount \<Rightarrow> string \<Rightarrow> (legacy_error, Mount) result" where
  "mount_option m opt =
     (case Cut opt CHR ''='' of (key, val, hasValue) \<Rightarrow>
        if \<not> hasValue then Inl (MountUnknownOption opt)
        else
          (let k = ToLower key in
           if k = ''priority'' then
             (case Atoi val of None \<Rightarrow> Inl (MountPriority opt) | Some p \<Rightarrow> Inr (m\<lparr>mPriority := p\<rparr>))
           else if k = ''server'' then Inr (m\<lparr>mServer := val\<rparr>)
           else if k = ''protocol'' then Inr (m\<lparr>mProtocol := ToLower val\<rparr>)
           else Inl (MountUnknownOption opt)))"

fun mount_options :: "Mount \<Rightarrow> string list \<Rightarrow> (legacy_error, Mount) result" where
  "mount_options m [] = Inr m"
| "mount_options m (opt # opts) = bind_result (mount_option m opt) (\<lambda>m'. mount_options m' opts)"

definition parseLegacyMount :: "string \<Rightarrow> (legacy_error, Mount) result" where
  "parseLegacyMount text =
     (case unquote_value text of
        None \<Rightarrow> Inl MountQuoting
      | Some val \<Rightarrow>
          (case Fields val of
             path # target # opts \<Rightarrow>
               bind_result
                 (mount_options
                   \<lparr>mPath = (if Contains path ''://'' then [] else path),
                    mSource = (if Contains path ''://'' then path else []),
                    mTarget = target, mPriority = 0, mServer = [], mProtocol = [], mTLS = None\<rparr> opts)
                 (\<lambda>m. case Mount_Validate m of Some e \<Rightarrow> Inl (LegacyMount e) | None \<Rightarrow> Inr m)
           | _ \<Rightarrow> Inl MountFields))"

definition parseLegacyPolicy :: "string \<Rightarrow> string \<Rightarrow> int \<Rightarrow> (legacy_error, Rule) result" where
  "parseLegacyPolicy effect text prio =
     (case unquote_value text of
        None \<Rightarrow> Inl (PolicyQuoting (ToUpper effect))
      | Some val \<Rightarrow>
          (case map TrimSpace (SplitN 3 val CHR '':'') of
             [protocol, destination, source] \<Rightarrow>
               if protocol = [] \<or> destination = [] \<or> source = []
               then Inl (PolicyEmptySelector (ToUpper effect))
               else
                 (let rule = \<lparr>Effect = effect, Priority = prio, rSource = source,
                              rProtocol = ToLower protocol, rDestination = ToLower destination,
                              rMethod = [], rMount = []\<rparr>
                  in case Rule_Validate rule of
                       Some e \<Rightarrow> Inl (LegacyPolicy (ToUpper effect) e)
                     | None \<Rightarrow> Inr rule)
           | _ \<Rightarrow> Inl (PolicySelectors (ToUpper effect))))"

section \<open>The argument loop\<close>

record legacy_state =
  lProtocol :: string
  lPort :: int
  lMounts :: "Mount list"
  lPolicies :: "Rule list"

definition set_server :: "legacy_state \<Rightarrow> string \<Rightarrow> (legacy_error, legacy_state) result" where
  "set_server st text =
     (let val = ToLower (TrimSpace text) in
      if val = [] then Inl ServerProtocolMissing
      else if lProtocol st \<noteq> [] \<and> lProtocol st \<noteq> val then Inl (ConflictingServers (lProtocol st) val)
      else Inr (st\<lparr>lProtocol := val\<rparr>))"

definition set_port :: "legacy_state \<Rightarrow> string \<Rightarrow> (legacy_error, legacy_state) result" where
  "set_port st text =
     bind_result (parseLegacyPort (TrimSpace text)) (\<lambda>val.
       if lPort st \<noteq> 0 \<and> lPort st \<noteq> val then Inl (ConflictingPorts (lPort st) val)
       else Inr (st\<lparr>lPort := val\<rparr>))"

definition add_policy :: "legacy_state \<Rightarrow> string \<Rightarrow> string \<Rightarrow> (legacy_error, legacy_state) result" where
  "add_policy st effect text =
     bind_result (parseLegacyPolicy effect (TrimSpace text) (- int (length (lPolicies st)))) (\<lambda>rule.
       Inr (st\<lparr>lPolicies := lPolicies st @ [rule]\<rparr>))"

definition add_mount :: "legacy_state \<Rightarrow> string \<Rightarrow> (legacy_error, legacy_state) result" where
  "add_mount st text =
     bind_result (parseLegacyMount (TrimSpace text)) (\<lambda>m. Inr (st\<lparr>lMounts := lMounts st @ [m]\<rparr>))"

text \<open>Every directive but a \<^verbatim>\<open>-P\<close> that takes the next argument.\<close>

definition directive :: "legacy_state \<Rightarrow> string \<Rightarrow> (legacy_error, legacy_state) result" where
  "directive st arg =
     (if HasPrefix arg ''SERVER='' then set_server st (TrimPrefix arg ''SERVER='')
      else if HasPrefix arg ''-P'' then set_port st (TrimPrefix arg ''-P'')
      else if HasPrefix arg ''MOUNT='' then add_mount st (TrimPrefix arg ''MOUNT='')
      else if HasPrefix arg ''PERMIT='' then add_policy st Permit (TrimPrefix arg ''PERMIT='')
      else if HasPrefix arg ''REJECT='' then add_policy st Reject (TrimPrefix arg ''REJECT='')
      else Inl (UnknownDirective arg))"

fun legacy_loop :: "legacy_state \<Rightarrow> string list \<Rightarrow> (legacy_error, legacy_state) result" where
  "legacy_loop st [] = Inr st"
| "legacy_loop st (a # args) =
     (if TrimSpace a = ''-P'' then
        (case args of
           [] \<Rightarrow> Inl PortValueMissing
         | val # rest \<Rightarrow> bind_result (set_port st val) (\<lambda>st'. legacy_loop st' rest))
      else bind_result (directive st (TrimSpace a)) (\<lambda>st'. legacy_loop st' args))"

definition ParseLegacyArgs :: "string list \<Rightarrow> (legacy_error, Config) result" where
  "ParseLegacyArgs args =
     bind_result (legacy_loop \<lparr>lProtocol = [], lPort = 0, lMounts = [], lPolicies = []\<rparr> args) (\<lambda>st.
       if lProtocol st = [] then Inl ServerRequired
       else (case (if lPort st = 0 then legacyDefaultPorts (lProtocol st) else Some (lPort st)) of
         None \<Rightarrow> Inl (NoDefaultPort (lProtocol st))
       | Some port \<Rightarrow>
           (let result =
              \<lparr>Servers = [\<lparr>sName = ''default'', sProtocol = lProtocol st, sListen = '':'' @ Itoa port,
                  ClientIPHeader = [], TrustedProxies = [], sTLS = None\<rparr>],
               Mounts = lMounts st, Policies = lPolicies st\<rparr>
            in case Config_Validate result of Some e \<Rightarrow> Inl (LegacyInvalid e) | None \<Rightarrow> Inr result)))"

section \<open>The loop's invariant\<close>

text \<open>A port in range once one is set, and rules whose priorities count down from zero.\<close>

definition countdown :: "Rule list \<Rightarrow> bool" where
  "countdown rs \<longleftrightarrow>
     (\<forall>i < length rs. Priority (rs ! i) = - int i \<and> Effect (rs ! i) \<in> {Permit, Reject})"

definition legacy_inv :: "legacy_state \<Rightarrow> bool" where
  "legacy_inv st \<longleftrightarrow>
     (lPort st = 0 \<or> 1 \<le> lPort st \<and> lPort st \<le> 65535) \<and> countdown (lPolicies st)"

lemma countdown_snoc:
  assumes "countdown rs" and "Priority r = - int (length rs)" and "Effect r \<in> {Permit, Reject}"
  shows "countdown (rs @ [r])"
  unfolding countdown_def
proof (intro allI impI)
  fix i
  assume "i < length (rs @ [r])"
  then consider "i < length rs" | "i = length rs" by fastforce
  then show "Priority ((rs @ [r]) ! i) = - int i \<and> Effect ((rs @ [r]) ! i) \<in> {Permit, Reject}"
    using assms by cases (simp_all add: countdown_def nth_append)
qed

lemma parseLegacyPolicy_Inr:
  "parseLegacyPolicy e t p = Inr r \<Longrightarrow> Effect r = e \<and> Priority r = p \<and> Rule_Validate r = None"
  by (auto simp: parseLegacyPolicy_def Let_def split: option.splits list.splits if_splits)

lemma set_server_inv: "set_server st t = Inr st' \<Longrightarrow> legacy_inv st \<Longrightarrow> legacy_inv st'"
  by (auto simp: set_server_def legacy_inv_def Let_def split: if_splits)

lemma set_port_inv: "set_port st t = Inr st' \<Longrightarrow> legacy_inv st \<Longrightarrow> legacy_inv st'"
  by (auto simp: set_port_def legacy_inv_def parseLegacyPort_def split: if_splits option.splits)

lemma add_mount_inv: "add_mount st t = Inr st' \<Longrightarrow> legacy_inv st \<Longrightarrow> legacy_inv st'"
  by (auto simp: add_mount_def legacy_inv_def)

lemma add_policy_inv:
  "add_policy st e t = Inr st' \<Longrightarrow> e = Permit \<or> e = Reject \<Longrightarrow> legacy_inv st \<Longrightarrow> legacy_inv st'"
  by (auto simp: add_policy_def legacy_inv_def intro!: countdown_snoc dest!: parseLegacyPolicy_Inr)

lemma directive_inv: "directive st a = Inr st' \<Longrightarrow> legacy_inv st \<Longrightarrow> legacy_inv st'"
  unfolding directive_def
  by (auto split: if_splits intro: set_server_inv set_port_inv add_mount_inv add_policy_inv)

lemma legacy_loop_inv: "legacy_loop st args = Inr st' \<Longrightarrow> legacy_inv st \<Longrightarrow> legacy_inv st'"
proof (induction st args rule: legacy_loop.induct)
  case (2 st a args)
  show ?case
  proof (cases "TrimSpace a = ''-P''")
    case True
    then obtain val rest st1 where "args = val # rest" "set_port st val = Inr st1"
      "legacy_loop st1 rest = Inr st'" using 2(3) by (cases args) auto
    then show ?thesis using 2(1) [OF True] 2(4) set_port_inv by blast
  next
    case False
    then obtain st1 where "directive st (TrimSpace a) = Inr st1" "legacy_loop st1 args = Inr st'"
      using 2(3) by auto
    then show ?thesis using 2(2) [OF False] 2(4) directive_inv by blast
  qed
qed simp

lemma ParseLegacyArgs_Inr:
  assumes "ParseLegacyArgs args = Inr c"
  obtains st port where "legacy_inv st" "lProtocol st \<noteq> []" "1 \<le> port" "port \<le> 65535" "wf_config c"
    "Servers c = [\<lparr>sName = ''default'', sProtocol = lProtocol st, sListen = '':'' @ Itoa port,
       ClientIPHeader = [], TrustedProxies = [], sTLS = None\<rparr>]"
    "Mounts c = lMounts st" "Policies c = lPolicies st"
proof -
  let ?s0 = "\<lparr>lProtocol = [], lPort = 0, lMounts = [], lPolicies = []\<rparr>"
  from assms obtain st port where st: "legacy_loop ?s0 args = Inr st"
    and port: "(if lPort st = 0 then legacyDefaultPorts (lProtocol st) else Some (lPort st)) = Some port"
    and c: "c = \<lparr>Servers = [\<lparr>sName = ''default'', sProtocol = lProtocol st, sListen = '':'' @ Itoa port,
       ClientIPHeader = [], TrustedProxies = [], sTLS = None\<rparr>], Mounts = lMounts st, Policies = lPolicies st\<rparr>"
    and rest: "lProtocol st \<noteq> []" "Config_Validate c = None"
    by (auto simp: ParseLegacyArgs_def Let_def split: if_splits option.splits)
  have inv: "legacy_inv st" using legacy_loop_inv [OF st] by (simp add: legacy_inv_def countdown_def)
  have "1 \<le> port \<and> port \<le> 65535"
    using port inv by (auto simp: legacy_inv_def legacyDefaultPorts_def split: if_splits)
  then show ?thesis
    using that [of st port] inv rest unfolding Config_Validate_wf by (simp add: c)
qed

text \<open>Rules whose priorities count down are evaluated as first match.\<close>

lemma countdown_first_match:
  assumes "countdown rs"
  shows "Allowed (Evaluate rs request) \<longleftrightarrow>
    (case find (\<lambda>r. ruleMatches r request) rs of None \<Rightarrow> False | Some r \<Rightarrow> Effect r = Permit)"
proof -
  have prio: "Priority (rs ! i) = - int i" and eff: "Effect (rs ! i) = Permit \<or> Effect (rs ! i) = Reject"
    if "i < length rs" for i using that assms by (auto simp: countdown_def)
  have app: "applies request (rs ! i) \<longleftrightarrow> ruleMatches (rs ! i) request" if "i < length rs" for i
    using eff [OF that] by (auto simp: applies_def)
  show ?thesis
  proof (cases rule: Evaluate_cases [of rs request])
    case none
    have "\<not> ruleMatches r request" if "r \<in> set rs" for r
    proof -
      from that obtain i where "i < length rs" "r = rs ! i" by (auto simp: in_set_conv_nth)
      with none(1) app [of i] that show ?thesis by simp
    qed
    then have "find (\<lambda>r. ruleMatches r request) rs = None" by (auto simp: find_None_iff)
    with none show ?thesis by simp
  next
    case (rule i)
    note best = first_best_applicable [OF rule(1)]
    have "\<not> ruleMatches (rs ! j) request" if "j < i" for j
      using best(4) [OF that] app [of j] prio [of i] prio [of j] that best(1)
      by (auto simp: strength_less)
    then have "find (\<lambda>r. ruleMatches r request) rs = Some (rs ! i)"
      unfolding find_Some_iff using best(1,2) app by blast
    moreover have "Allowed (Evaluate rs request) \<longleftrightarrow> Effect (rs ! i) = Permit"
      using rule(2) eff [OF best(1)] by auto
    ultimately show ?thesis by simp
  qed
qed

lemma HasPrefix_append [simp]: "HasPrefix (p @ s) p"
  by (simp add: HasPrefix_def)

lemma TrimPrefix_append [simp]: "TrimPrefix (p @ s) p = s"
  by (simp add: TrimPrefix_def)

lemma TrimSpace_last_digit:
  assumes "all_digits ds" and "p \<noteq> []" "byte (hd p) < 128" "\<not> ascii_space (byte (hd p))"
  shows "TrimSpace (p @ ds) = p @ ds"
proof -
  have "is_digit (last ds)" "ds \<noteq> []" using assms(1) by (auto simp: all_digits_def list_all_iff)
  then show ?thesis using assms is_digit_plain [of "last ds"] by (intro TrimSpace_bounds) auto
qed

text \<open>A joined port argument.\<close>

lemma legacy_loop_port:
  assumes "1 \<le> n" "n \<le> 65535" "lPort st = 0 \<or> lPort st = n"
  shows "legacy_loop st ((''-P'' @ Itoa n) # args) = legacy_loop (st\<lparr>lPort := n\<rparr>) args"
proof -
  have d: "all_digits (Itoa n)" using assms by (intro Itoa_digits) simp
  then have "Itoa n \<noteq> []" by (auto simp: all_digits_def)
  moreover have "TrimSpace (''-P'' @ Itoa n) = ''-P'' @ Itoa n"
    using d by (rule TrimSpace_last_digit) (simp_all add: ascii_space_def)
  moreover have "set_port st (Itoa n) = Inr (st\<lparr>lPort := n\<rparr>)"
    using assms Atoi_Itoa [of n] TrimSpace_digits [OF d] by (auto simp: set_port_def parseLegacyPort_def)
  moreover have "\<not> HasPrefix (''-P'' @ Itoa n) ''SERVER=''" "HasPrefix (''-P'' @ Itoa n) ''-P''"
    "TrimPrefix (''-P'' @ Itoa n) ''-P'' = Itoa n"
    by (simp_all add: HasPrefix_def TrimPrefix_def)
  ultimately show ?thesis by (simp add: directive_def)
qed

lemma legacy_server_directive:
  "protocol \<in> {''ftp'', ''gopher'', ''http'', ''https'', ''socks''} \<Longrightarrow>
   TrimSpace (''SERVER='' @ protocol) \<noteq> ''-P'' \<and>
   directive \<lparr>lProtocol = [], lPort = 0, lMounts = [], lPolicies = []\<rparr> (TrimSpace (''SERVER='' @ protocol)) =
     Inr (\<lparr>lProtocol = protocol, lPort = 0, lMounts = [], lPolicies = []\<rparr>)"
  by (elim insertE emptyE) (simp_all add: directive_def set_server_def go_defs go_loops)

lemma legacy_port_args:
  assumes "protocol \<in> {''ftp'', ''gopher'', ''http'', ''https'', ''socks''}" and "1 \<le> n" and "n \<le> 65535"
  shows "ParseLegacyArgs [''SERVER='' @ protocol, ''-P'' @ Itoa n] =
    Inr \<lparr>Servers = [plain_server ''default'' protocol ('':'' @ Itoa n)], Mounts = [], Policies = []\<rparr>"
proof -
  let ?s0 = "\<lparr>lProtocol = [], lPort = 0, lMounts = [], lPolicies = []\<rparr>"
  let ?s1 = "\<lparr>lProtocol = protocol, lPort = 0, lMounts = [], lPolicies = []\<rparr>"
  have "TrimSpace (''SERVER='' @ protocol) \<noteq> ''-P'' \<and>
      directive ?s0 (TrimSpace (''SERVER='' @ protocol)) = Inr (?s1)"
    using assms(1) by (rule legacy_server_directive)
  then have "legacy_loop ?s0 [''SERVER='' @ protocol, ''-P'' @ Itoa n] =
      legacy_loop ?s1 [''-P'' @ Itoa n]"
    by (simp only: legacy_loop.simps if_False bind_result_simps)
  also have "\<dots> = Inr (?s1\<lparr>lPort := n\<rparr>)"
    using assms legacy_loop_port [of n ?s1 "[]"] by simp
  finally have loop: "legacy_loop ?s0 [''SERVER='' @ protocol, ''-P'' @ Itoa n] =
      Inr (?s1\<lparr>lPort := n\<rparr>)" .
  have "all_digits (Itoa n)" using assms by (intro Itoa_digits) simp
  then have listen: "TrimSpace ('':'' @ Itoa n) \<noteq> []"
    using TrimSpace_last_digit [of "Itoa n" "'':''"] by (simp add: ascii_space_def)
  have "TrimSpace protocol \<noteq> []"
    using assms(1) by (elim insertE emptyE) (simp_all add: TrimSpace_bounds ascii_space_def)
  with listen have "Config_Validate
      \<lparr>Servers = [plain_server ''default'' protocol ('':'' @ Itoa n)], Mounts = [], Policies = []\<rparr> = None"
    using TrimSpace_bounds [of "''default''"]
    by (simp add: Config_Validate_wf wf_config_def good_server_def ascii_space_def)
  moreover have "protocol \<noteq> []" using assms(1) by auto
  ultimately show ?thesis using loop assms(2) by (simp add: ParseLegacyArgs_def)
qed

section \<open>Properties\<close>

text \<open>What legacy arguments give. The result is a valid configuration with the one server
  \<^verbatim>\<open>default\<close>, which listens on a port between 1 and 65535.\<close>

theorem ParseLegacyArgs_valid:
  assumes "ParseLegacyArgs args = Inr c"
  shows "Config_Validate c = None \<and>
    (\<exists>protocol port. protocol \<noteq> [] \<and> 1 \<le> port \<and> port \<le> 65535 \<and>
      Servers c = [\<lparr>sName = ''default'', sProtocol = protocol, sListen = '':'' @ Itoa port,
        ClientIPHeader = [], TrustedProxies = [], sTLS = None\<rparr>])"
  by (rule ParseLegacyArgs_Inr [OF assms]) (auto simp: Config_Validate_wf)

lemmas legacy_eval = ParseLegacyArgs_def directive_def set_server_def set_port_def add_policy_def add_mount_def
  parseLegacyPort_def parseLegacyPolicy_def parseLegacyMount_def unquote_value_def legacyDefaultPorts_def
  Config_Validate_def validate_server_def policy_eval

abbreviation two_rules :: "Rule list" where
  "two_rules \<equiv>
     [\<lparr>Effect = ''reject'', Priority = 0, rSource = ''10.0.0.1'', rProtocol = ''http'', rDestination = ''*'',
       rMethod = [], rMount = []\<rparr>,
      \<lparr>Effect = ''permit'', Priority = -1, rSource = ''*'', rProtocol = ''*'', rDestination = ''*'',
       rMethod = [], rMount = []\<rparr>]"

lemma legacy_two_rules:
  "ParseLegacyArgs [''SERVER=http'', ''REJECT=http:*:10.0.0.1'', ''PERMIT=*:*:*''] =
     Inr \<lparr>Servers = [plain_server ''default'' ''http'' '':80''], Mounts = [], Policies = two_rules\<rparr>"
  by (simp add: legacy_eval)

theorem ParseLegacyArgs_valid_witness:
  "Config_Validate \<lparr>Servers = [plain_server ''default'' ''http'' '':80''], Mounts = [], Policies = two_rules\<rparr> = None"
  using ParseLegacyArgs_valid [OF legacy_two_rules] by simp

text \<open>C28: legacy \<^verbatim>\<open>PERMIT\<close> and \<^verbatim>\<open>REJECT\<close> directives are evaluated as first match: the first directive
  that matches the request decides, and without one the request is denied.\<close>

theorem legacy_first_match:
  assumes "ParseLegacyArgs args = Inr c"
  shows "Allowed (Evaluate (Policies c) request) \<longleftrightarrow>
    (case find (\<lambda>r. ruleMatches r request) (Policies c) of
       None \<Rightarrow> False
     | Some r \<Rightarrow> Effect r = Permit)"
  by (rule ParseLegacyArgs_Inr [OF assms]) (simp only: legacy_inv_def countdown_first_match)

theorem legacy_first_match_witness:
  "\<not> Allowed (Evaluate two_rules get_request) \<and>
   Allowed (Evaluate two_rules (get_request\<lparr>prSource := ''10.0.0.2''\<rparr>))"
  using legacy_first_match [OF legacy_two_rules, of get_request]
    legacy_first_match [OF legacy_two_rules, of "get_request\<lparr>prSource := ''10.0.0.2''\<rparr>"]
  by (simp add: ruleMatches_def sourceMatches_def matches_def destinationMatches_def go_defs go_loops)

text \<open>The port directive round-trips. For every protocol with a default port and every port from 1
  to 65535, the printed port is read back: the server listens on exactly that port.\<close>

theorem legacy_port_roundtrip:
  assumes "protocol \<in> {''ftp'', ''gopher'', ''http'', ''https'', ''socks''}" and "1 \<le> n" and "n \<le> 65535"
  shows "ParseLegacyArgs [''SERVER='' @ protocol, ''-P'' @ Itoa n] =
    Inr \<lparr>Servers = [plain_server ''default'' protocol ('':'' @ Itoa n)], Mounts = [], Policies = []\<rparr>"
  by (rule legacy_port_args [OF assms])

theorem legacy_port_roundtrip_witness:
  "ParseLegacyArgs [''SERVER='' @ ''http'', ''-P'' @ Itoa 8080] =
     Inr \<lparr>Servers = [plain_server ''default'' ''http'' ('':'' @ Itoa 8080)], Mounts = [], Policies = []\<rparr>"
  by (rule legacy_port_roundtrip) simp_all

end
