(* ===== verification/Endpoint.thy ===== *)
theory Endpoint
  imports Go_Net
begin

text \<open>
  \<^verbatim>\<open>endpoint/address.go\<close>: the two-address grammar of byte-stream routes. Parsing performs no I/O; the
  theorems say that the canonical text of an address parses to it and that every parsed address is
  well formed.
\<close>

section \<open>Addresses and routes\<close>

text \<open>\<^verbatim>\<open>Kind\<close> and \<^verbatim>\<open>Input\<close> are string types in the source.\<close>

definition TCPListen :: string where "TCPListen = ''TCP-LISTEN''"
definition TCPConnect :: string where "TCPConnect = ''TCP-CONNECT''"
definition TailcatListen :: string where "TailcatListen = ''TAILCAT-LISTEN''"
definition TailcatConnect :: string where "TailcatConnect = ''TAILCAT-CONNECT''"
definition Stdin :: string where "Stdin = ''@stdin''"

lemmas kinds = TCPListen_def TCPConnect_def TailcatListen_def TailcatConnect_def Stdin_def

record Address =
  Kind :: string
  aHost :: string
  aPort :: "16 word"
  Input :: string

record Route =
  Ingress :: Address
  Egress :: Address

datatype endpoint_error =
    AddressRequired
  | SurroundingWhitespace
  | UnknownAddressType string
  | OptionsUnsupported string
  | NotHostPort string
  | HostRequired string
  | InvalidHost string string
  | InvalidEndpointPort string string
  | HandoffSource string
  | RouteArity
  | FirstAddress endpoint_error
  | FirstMustListen string
  | SecondAddress endpoint_error
  | SecondMustConnect string

section \<open>Parsing\<close>

definition parsePort :: "string \<Rightarrow> string \<Rightarrow> (endpoint_error, 16 word) result" where
  "parsePort kind val =
     (case ParseUint16 val of
        None \<Rightarrow> Inl (InvalidEndpointPort kind val)
      | Some parsed \<Rightarrow> if parsed = 0 then Inl (InvalidEndpointPort kind val) else Inr (of_int parsed))"

text \<open>The branch of the two TCP kinds.\<close>

definition parse_tcp :: "string \<Rightarrow> string \<Rightarrow> (endpoint_error, Address) result" where
  "parse_tcp kind argument =
     (if Contains argument '','' then Inl (OptionsUnsupported kind)
      else (case SplitHostPort argument of
        None \<Rightarrow> Inl (NotHostPort kind)
      | Some (host, rawPort) \<Rightarrow>
          if host = [] then Inl (HostRequired kind)
          else if HasSpace host then Inl (InvalidHost kind host)
          else bind_result (parsePort kind rawPort) (\<lambda>port.
            Inr \<lparr>Kind = kind, aHost = host, aPort = port, Input = []\<rparr>)))"

definition ParseAddress :: "string \<Rightarrow> (endpoint_error, Address) result" where
  "ParseAddress val =
     (if val = [] then Inl AddressRequired
      else if val \<noteq> TrimSpace val then Inl SurroundingWhitespace
      else (case Cut val CHR '':'' of (kind, argument, found) \<Rightarrow>
        if \<not> found then Inl (UnknownAddressType val)
        else if kind = TCPListen \<or> kind = TCPConnect then parse_tcp kind argument
        else if kind = TailcatListen then
          (if Contains argument '','' then Inl (OptionsUnsupported kind)
           else bind_result (parsePort kind argument) (\<lambda>port.
             Inr \<lparr>Kind = kind, aHost = [], aPort = port, Input = []\<rparr>))
        else if kind = TailcatConnect then
          (if Contains argument '','' then Inl (OptionsUnsupported kind)
           else if argument \<noteq> Stdin then Inl (HandoffSource kind)
           else Inr \<lparr>Kind = kind, aHost = [], aPort = 0, Input = Stdin\<rparr>)
        else Inl (UnknownAddressType kind)))"

definition listens :: "Address \<Rightarrow> bool" where
  "listens a \<longleftrightarrow> Kind a = TCPListen \<or> Kind a = TailcatListen"

definition connects :: "Address \<Rightarrow> bool" where
  "connects a \<longleftrightarrow> Kind a = TCPConnect \<or> Kind a = TailcatConnect"

definition ParseRoute :: "string list \<Rightarrow> (endpoint_error, Route) result" where
  "ParseRoute args =
     (case args of
        [first, second] \<Rightarrow>
          (case ParseAddress first of
             Inl e \<Rightarrow> Inl (FirstAddress e)
           | Inr ingress \<Rightarrow>
               if \<not> listens ingress then Inl (FirstMustListen (Kind ingress))
               else (case ParseAddress second of
                 Inl e \<Rightarrow> Inl (SecondAddress e)
               | Inr egress \<Rightarrow>
                   if \<not> connects egress then Inl (SecondMustConnect (Kind egress))
                   else Inr \<lparr>Ingress = ingress, Egress = egress\<rparr>))
      | _ \<Rightarrow> Inl RouteArity)"

section \<open>Well-formed addresses and their text\<close>

text \<open>What a parsed address looks like, kind by kind.\<close>

definition wf_address :: "Address \<Rightarrow> bool" where
  "wf_address a \<longleftrightarrow>
     (Kind a = TCPListen \<or> Kind a = TCPConnect) \<and> aPort a \<noteq> 0 \<and> Input a = [] \<and> aHost a \<noteq> [] \<and>
        \<not> HasSpace (aHost a) \<and> set (aHost a) \<inter> {CHR '','', CHR ''['', CHR '']''} = {} \<or>
     Kind a = TailcatListen \<and> aPort a \<noteq> 0 \<and> Input a = [] \<and> aHost a = [] \<or>
     Kind a = TailcatConnect \<and> aPort a = 0 \<and> Input a = Stdin \<and> aHost a = []"

text \<open>The canonical text of an address.\<close>

definition address_text :: "Address \<Rightarrow> string" where
  "address_text a =
     (if Kind a = TCPListen \<or> Kind a = TCPConnect then
        Kind a @ '':'' @ JoinHostPort (aHost a) (Itoa (uint (aPort a)))
      else if Kind a = TailcatListen then Kind a @ '':'' @ Itoa (uint (aPort a))
      else Kind a @ '':'' @ Input a)"

lemma parsePort_Inr:
  "parsePort kind val = Inr p \<Longrightarrow> p \<noteq> 0"
proof -
  assume "parsePort kind val = Inr p"
  then obtain n where n: "ParseUint16 val = Some n" "n \<noteq> 0" "p = of_int n"
    by (auto simp: parsePort_def split: option.splits if_splits)
  then have "0 \<le> n" "n < 65536"
    by (auto simp: ParseUint16_def all_digits_def split: if_splits intro: digits_value_nonneg)
  then have "uint p = n" using n(3) by (simp add: uint_word_of_int take_bit_eq_mod)
  with n(2) show "p \<noteq> 0" by auto
qed

lemma parsePort_Itoa:
  assumes "(p :: 16 word) \<noteq> 0"
  shows "parsePort kind (Itoa (uint p)) = Inr p"
proof -
  have "uint p < 65536" using uint_lt2p [of p] by simp
  then have "ParseUint16 (Itoa (uint p)) = Some (uint p)" by (intro ParseUint16_Itoa) simp_all
  moreover have "uint p \<noteq> 0" using assms by (simp add: uint_0_iff)
  ultimately show ?thesis by (simp add: parsePort_def)
qed

lemma SplitHostPort_chars:
  assumes "SplitHostPort s = Some (host, port)"
  shows "set host \<inter> {CHR ''['', CHR '']''} = {} \<and> set host \<subseteq> set s \<and> set port \<subseteq> set s"
proof -
  have sub: "set (take i s) \<subseteq> set s" "set (drop i s) \<subseteq> set s" for i
    by (rule set_take_subset, rule set_drop_subset)
  show ?thesis
    using assms sub IndexByte_take [of s "CHR '']''"]
    by (auto simp: SplitHostPort_def Let_def split: option.splits if_splits
        dest: in_set_takeD in_set_dropD) (auto simp: drop_take dest: in_set_takeD)
qed

lemma parse_tcp_Inr:
  assumes "parse_tcp kind argument = Inr a" "kind = TCPListen \<or> kind = TCPConnect"
  shows "wf_address a"
proof -
  from assms(1) obtain host rawPort port where h: "\<not> Contains argument '',''" "SplitHostPort argument = Some (host, rawPort)"
    "host \<noteq> []" "\<not> HasSpace host" "parsePort kind rawPort = Inr port"
    "a = \<lparr>Kind = kind, aHost = host, aPort = port, Input = []\<rparr>"
    by (auto simp: parse_tcp_def split: option.splits if_splits)
  have "CHR '','' \<notin> set host" using h(1) SplitHostPort_chars [OF h(2)] by (auto simp: Contains_def)
  then show ?thesis
    using assms(2) h SplitHostPort_chars [OF h(2)] parsePort_Inr [OF h(5)] by (auto simp: wf_address_def)
qed

lemma ParseAddress_wf: "ParseAddress val = Inr a \<Longrightarrow> wf_address a"
  by (auto simp: ParseAddress_def split: prod.splits if_splits dest: parsePort_Inr
      intro: parse_tcp_Inr) (auto simp: wf_address_def dest: parsePort_Inr)

lemma Cut_prefix: "d \<notin> set k \<Longrightarrow> Cut (k @ d # t) d = (k, t, True)"
  by (induction k) (auto simp: Cut_def)

lemma digits_plain:
  assumes "all_digits ds"
  shows "set ds \<inter> {CHR '','', CHR '':'', CHR ''['', CHR '']''} = {}"
  using assms by (auto simp: all_digits_def list_all_iff is_digit_def)

lemma Itoa_port: "all_digits (Itoa (uint (p :: 16 word)))"
  by (rule Itoa_digits) simp

lemma ParseAddress_text:
  assumes "wf_address a"
  shows "ParseAddress (address_text a) = Inr a"
proof -
  let ?port = "Itoa (uint (aPort a))"
  note digits = Itoa_port [of "aPort a"] digits_plain [OF Itoa_port [of "aPort a"]]
  have trim: "TrimSpace (k @ ds) = k @ ds" if "all_digits ds" "k \<noteq> []" "hd k = CHR ''T''" for k ds
    using that is_digit_plain [of "last ds"]
    by (intro TrimSpace_bounds) (auto simp: all_digits_def list_all_iff ascii_space_def)
  consider (tcp) "Kind a = TCPListen \<or> Kind a = TCPConnect" "aPort a \<noteq> 0" "Input a = []" "aHost a \<noteq> []"
      "\<not> HasSpace (aHost a)" "set (aHost a) \<inter> {CHR '','', CHR ''['', CHR '']''} = {}"
    | (listen) "Kind a = TailcatListen" "aPort a \<noteq> 0" "Input a = []" "aHost a = []"
    | (connect) "Kind a = TailcatConnect" "aPort a = 0" "Input a = Stdin" "aHost a = []"
    using assms unfolding wf_address_def by blast
  then show ?thesis
  proof cases
    case tcp
    let ?arg = "JoinHostPort (aHost a) ?port"
    have str: "address_text a = Kind a @ CHR '':'' # ?arg" using tcp(1) by (simp add: address_text_def)
    have cut: "Cut (address_text a) CHR '':'' = (Kind a, ?arg, True)"
      unfolding str using tcp(1) by (intro Cut_prefix) (auto simp: kinds)
    obtain k where "?arg = k @ ?port"
    proof
      show "?arg = (if CHR '':'' \<in> set (aHost a) then ''['' @ aHost a @ '']:'' else aHost a @ '':'') @ ?port"
        by (simp add: JoinHostPort_def)
    qed
    then have "address_text a = (Kind a @ CHR '':'' # k) @ ?port" using str by simp
    moreover have "hd (Kind a @ CHR '':'' # k) = CHR ''T''" using tcp(1) by (auto simp: kinds)
    ultimately have "TrimSpace (address_text a) = address_text a"
      using trim [OF digits(1), of "Kind a @ CHR '':'' # k"] by simp
    moreover have "SplitHostPort ?arg = Some (aHost a, ?port)"
      using tcp(6) digits(2) by (intro SplitHostPort_JoinHostPort) auto
    moreover have "CHR '','' \<notin> set ?arg" using tcp(6) digits(2) by (auto simp: JoinHostPort_def)
    ultimately show ?thesis
      using tcp cut parsePort_Itoa [OF tcp(2), of "Kind a"]
      by (simp add: ParseAddress_def parse_tcp_def Contains_def) (simp add: str)
  next
    case listen
    have str: "address_text a = TailcatListen @ CHR '':'' # ?port"
      using listen(1) by (simp add: address_text_def kinds)
    have "Cut (address_text a) CHR '':'' = (TailcatListen, ?port, True)"
      unfolding str by (intro Cut_prefix) (simp add: kinds)
    moreover have "TrimSpace (address_text a) = address_text a"
      unfolding str using trim [OF digits(1), of "TailcatListen @ '':''"] by (simp add: kinds)
    moreover have "CHR '','' \<notin> set ?port" using digits(2) by auto
    ultimately show ?thesis
      using listen parsePort_Itoa [OF listen(2), of TailcatListen]
      by (simp add: ParseAddress_def Contains_def kinds) (simp add: str)
  next
    case connect
    then show ?thesis
      by (cases a) (simp add: ParseAddress_def address_text_def kinds Contains_def Cut_def TrimSpace_bounds ascii_space_def)
  qed
qed

section \<open>Properties\<close>

text \<open>C40: parsing and printing agree. Every address that is parsed is well formed for its kind (a port
  that is not zero where there is one, a host without blanks, commas and brackets, only the fields of
  its kind), and the canonical text of a well-formed address parses to exactly that address.\<close>

theorem ParseAddress_roundtrip:
  "(\<forall>val a. ParseAddress val = Inr a \<longrightarrow> wf_address a) \<and>
   (\<forall>a. wf_address a \<longrightarrow> ParseAddress (address_text a) = Inr a)"
  using ParseAddress_wf ParseAddress_text by blast

theorem ParseAddress_roundtrip_witness:
  "ParseAddress (address_text \<lparr>Kind = TCPListen, aHost = ''::1'', aPort = 8080, Input = []\<rparr>) =
     Inr \<lparr>Kind = TCPListen, aHost = ''::1'', aPort = 8080, Input = []\<rparr>"
proof -
  have "wf_address \<lparr>Kind = TCPListen, aHost = ''::1'', aPort = 8080, Input = []\<rparr>"
    by (simp add: wf_address_def ascii_space_def)
  with ParseAddress_roundtrip show ?thesis by blast
qed

text \<open>The roles of a route. Two addresses form a route exactly when both parse, the first listens
  and the second connects; then the route has exactly these two.\<close>

theorem ParseRoute_iff:
  "ParseRoute args = Inr route \<longleftrightarrow>
     (\<exists>first second. args = [first, second] \<and>
        ParseAddress first = Inr (Ingress route) \<and> listens (Ingress route) \<and>
        ParseAddress second = Inr (Egress route) \<and> connects (Egress route))"
  by (cases route) (auto simp: ParseRoute_def split: list.splits sum.splits if_splits)

end
