(* ===== verification/Store.thy ===== *)
theory Store
  imports Config
begin

text \<open>
  \<^verbatim>\<open>config/store.go\<close> and \<^verbatim>\<open>config/reload.go\<close>: the published configuration and its replacement by a
  reloaded file. The locale \<open>snapshot_store\<close> states what readers of a store rely on; it is interpreted
  on the code's \<^verbatim>\<open>Replace\<close> and \<^verbatim>\<open>Snapshot\<close>. Go's copies of slices and pointers are copies of values
  here: the model has no aliasing, so \<open>clone\<close> returns an equal configuration.
\<close>

section \<open>The store\<close>

text \<open>The atomic pointer: \<open>None\<close> until a configuration has been published.\<close>

type_synonym Store = "Config option"

definition clone_server :: "Server \<Rightarrow> Server" where
  "clone_server s =
     s\<lparr>TrustedProxies := [] @ TrustedProxies s,
       sTLS := (case sTLS s of None \<Rightarrow> None | Some copied \<Rightarrow> Some copied)\<rparr>"

definition clone_mount :: "Mount \<Rightarrow> Mount" where
  "clone_mount m = m\<lparr>mTLS := (case mTLS m of None \<Rightarrow> None | Some copied \<Rightarrow> Some copied)\<rparr>"

definition clone :: "Config \<Rightarrow> Config" where
  "clone source =
     source\<lparr>Servers := map clone_server ([] @ Servers source),
            Mounts := map clone_mount ([] @ Mounts source),
            Policies := [] @ Policies source\<rparr>"

definition Replace :: "Store \<Rightarrow> Config \<Rightarrow> config_error option \<times> Store" where
  "Replace s candidate =
     (let private = clone candidate in
      case Config_Validate private of
        Some e \<Rightarrow> (Some e, s)
      | None \<Rightarrow> (None, Some private))"

definition NewStore :: "Config \<Rightarrow> (config_error, Store) result" where
  "NewStore initial =
     (case Replace None initial of
        (Some e, _) \<Rightarrow> Inl e
      | (None, store) \<Rightarrow> Inr store)"

definition Snapshot :: "Store \<Rightarrow> Config" where
  "Snapshot s =
     (case s of
        None \<Rightarrow> \<lparr>Servers = [], Mounts = [], Policies = []\<rparr>
      | Some current \<Rightarrow> clone current)"

section \<open>Reloading\<close>

definition sameFrontendTLS :: "Server \<Rightarrow> Server \<Rightarrow> bool" where
  "sameFrontendTLS current candidate =
     (case (sTLS current, sTLS candidate) of
        (Some a, Some b) \<Rightarrow> a = b
      | (None, None) \<Rightarrow> True
      | _ \<Rightarrow> False)"

definition sameListenerTopology :: "Server list \<Rightarrow> Server list \<Rightarrow> bool" where
  "sameListenerTopology current candidate =
     (if length current \<noteq> length candidate then False
      else
        (let listeners = foldl (\<lambda>m s. m(sName s \<mapsto> s)) Map.empty current in
         list_all (\<lambda>s. case listeners (sName s) of
              None \<Rightarrow> False
            | Some existing \<Rightarrow>
                sProtocol existing = sProtocol s \<and> sListen existing = sListen s \<and> sameFrontendTLS existing s)
           candidate))"

definition collect_policies :: "Config \<Rightarrow> Backend set" where
  "collect_policies configured = set (List.map_filter mTLS (Mounts configured))"

definition sameBackendTLSPolicies :: "Config \<Rightarrow> Config \<Rightarrow> bool" where
  "sameBackendTLSPolicies current candidate \<longleftrightarrow>
     card (collect_policies current) = card (collect_policies candidate) \<and>
     (\<forall>p \<in> collect_policies current. p \<in> collect_policies candidate)"

text \<open>Errors of a reload; \<open>'o\<close> is the operating system's and \<open>'v\<close> the runtime check's.\<close>

datatype ('o, 'v) reload_error =
    StoreRequired
  | ReloadOpen 'o
  | ReloadParse parse_error
  | ReloadClose 'o
  | ReloadCapability 'v
  | TopologyChanged
  | BackendTLSChanged
  | PublishFailed config_error

text \<open>
  \<open>opened\<close> is what the operating system answers to opening the file: an error, or its contents and the
  error that closing it reports. \<open>validate\<close> is the runtime's capability check, \<open>None\<close> for a nil function.
\<close>

definition reload_candidate ::
    "('i \<Rightarrow> (toml_error, Config) result) \<Rightarrow> ('o, 'i \<times> 'o option) result \<Rightarrow>
     (Config \<Rightarrow> 'v option) option \<Rightarrow> Config \<Rightarrow> (('o, 'v) reload_error, Config) result" where
  "reload_candidate decode opened validate current =
     (case opened of
        Inl e \<Rightarrow> Inl (ReloadOpen e)
      | Inr (contents, closeErr) \<Rightarrow>
          (case ParseTOML decode (Some contents) of
             Inl e \<Rightarrow> Inl (ReloadParse e)
           | Inr candidate \<Rightarrow>
               (case closeErr of
                  Some e \<Rightarrow> Inl (ReloadClose e)
                | None \<Rightarrow>
                    (case (case validate of None \<Rightarrow> None | Some f \<Rightarrow> f candidate) of
                       Some e \<Rightarrow> Inl (ReloadCapability e)
                     | None \<Rightarrow>
                         if \<not> sameListenerTopology (Servers current) (Servers candidate) then Inl TopologyChanged
                         else if \<not> sameBackendTLSPolicies current candidate then Inl BackendTLSChanged
                         else Inr candidate))))"

definition ReloadTOMLFileWithValidation ::
    "('i \<Rightarrow> (toml_error, Config) result) \<Rightarrow> ('o, 'i \<times> 'o option) result \<Rightarrow>
     (Config \<Rightarrow> 'v option) option \<Rightarrow> Store option \<Rightarrow> ('o, 'v) reload_error option \<times> Store option" where
  "ReloadTOMLFileWithValidation decode opened validate store =
     (case store of
        None \<Rightarrow> (Some StoreRequired, None)
      | Some st \<Rightarrow>
          (case reload_candidate decode opened validate (Snapshot st) of
             Inl e \<Rightarrow> (Some e, Some st)
           | Inr candidate \<Rightarrow>
               (case Replace st candidate of
                  (Some e, st') \<Rightarrow> (Some (PublishFailed e), Some st')
                | (None, st') \<Rightarrow> (None, Some st'))))"

definition ReloadTOMLFile ::
    "('i \<Rightarrow> (toml_error, Config) result) \<Rightarrow> ('o, 'i \<times> 'o option) result \<Rightarrow>
     Store option \<Rightarrow> ('o, 'v) reload_error option \<times> Store option" where
  "ReloadTOMLFile decode opened store = ReloadTOMLFileWithValidation decode opened None store"

section \<open>The contract of a store\<close>

locale snapshot_store =
  fixes replace :: "'s \<Rightarrow> 'c \<Rightarrow> 'e option \<times> 's"
    and snapshot :: "'s \<Rightarrow> 'c"
    and validate :: "'c \<Rightarrow> 'e option"
  assumes replace_valid: "validate c = None \<Longrightarrow> fst (replace s c) = None \<and> snapshot (snd (replace s c)) = c"
    and replace_invalid: "validate c = Some e \<Longrightarrow> replace s c = (Some e, s)"
begin

text \<open>A reader after any sequence of replacements sees the last valid one, whole.\<close>

lemma snapshot_run:
  "snapshot (foldl (\<lambda>s c. snd (replace s c)) s cs) =
     last (snapshot s # filter (\<lambda>c. validate c = None) cs)"
proof (induction cs rule: rev_induct)
  case (snoc c cs)
  then show ?case by (cases "validate c") (simp_all add: replace_valid replace_invalid)
qed simp

lemma snapshot_valid:
  assumes "validate (snapshot s) = None"
  shows "validate (snapshot (foldl (\<lambda>s c. snd (replace s c)) s cs)) = None"
proof -
  have "last (snapshot s # filter (\<lambda>c. validate c = None) cs) \<in>
      set (snapshot s # filter (\<lambda>c. validate c = None) cs)" by (rule last_in_set) simp
  with assms show ?thesis unfolding snapshot_run by auto
qed

end

lemma clone_id [simp]: "clone c = c"
proof -
  have "clone_server s = s" for s :: Server by (simp add: clone_server_def option.case_eq_if)
  moreover have "clone_mount m = m" for m :: Mount by (simp add: clone_mount_def option.case_eq_if)
  ultimately show ?thesis by (simp add: clone_def map_idI)
qed

interpretation config_store: snapshot_store Replace Snapshot Config_Validate
  by unfold_locales (auto simp: Replace_def Snapshot_def)

section \<open>Lemmas on reloading\<close>

text \<open>What a running process cannot change of a server.\<close>

definition topology :: "Server \<Rightarrow> string \<times> string \<times> string \<times> Frontend option" where
  "topology s = (sName s, sProtocol s, sListen s, sTLS s)"

lemma sameFrontendTLS_iff: "sameFrontendTLS a b \<longleftrightarrow> sTLS a = sTLS b"
  by (auto simp: sameFrontendTLS_def split: option.splits)

lemma listeners_lookup:
  assumes "distinct (map f xs)"
  shows "foldl (\<lambda>m s. m(f s \<mapsto> s)) Map.empty xs k = find (\<lambda>s. f s = k) xs"
  using assms
proof (induction xs rule: rev_induct)
  case (snoc x xs)
  then have "f x \<notin> f ` set xs" by simp
  then have "find (\<lambda>s. f s = f x) xs = None" unfolding find_None_iff by (metis imageI)
  with snoc show ?case by (auto simp: find_append split: option.splits)
qed simp

lemma sameListenerTopology_iff:
  assumes "distinct (map sName current)" and "distinct (map sName candidate)"
  shows "sameListenerTopology current candidate \<longleftrightarrow>
    mset (map topology current) = mset (map topology candidate)"
proof -
  have each: "(case find (\<lambda>y. sName y = sName s) current of None \<Rightarrow> False | Some existing \<Rightarrow>
      sProtocol existing = sProtocol s \<and> sListen existing = sListen s \<and> sameFrontendTLS existing s) \<longleftrightarrow>
      topology s \<in> topology ` set current" for s
  proof (cases "find (\<lambda>y. sName y = sName s) current")
    case None
    then have "\<forall>t \<in> set current. sName t \<noteq> sName s" by (auto simp: find_None_iff)
    then have "topology s \<notin> topology ` set current" by (auto simp: topology_def)
    with None show ?thesis by simp
  next
    case (Some e)
    then have e: "e \<in> set current" "sName e = sName s" by (auto simp: find_Some_iff)
    have "t = e" if "t \<in> set current" "sName t = sName s" for t
      using that e assms(1) by (metis distinct_map inj_onD)
    then have "topology s = topology e" if "topology s \<in> topology ` set current"
      using that by (metis (no_types, lifting) Pair_inject image_iff topology_def)
    then have "topology s \<in> topology ` set current \<longleftrightarrow> topology s = topology e" using e by blast
    moreover have "topology s = topology e \<longleftrightarrow>
        sProtocol e = sProtocol s \<and> sListen e = sListen s \<and> sameFrontendTLS e s"
      using e(2) by (auto simp: topology_def sameFrontendTLS_iff)
    ultimately show ?thesis using Some by simp
  qed
  have d: "distinct (map topology xs)" if "distinct (map sName xs)" for xs
    using that by (auto simp: distinct_map inj_on_def topology_def)
  have "sameListenerTopology current candidate \<longleftrightarrow>
      length current = length candidate \<and> set (map topology candidate) \<subseteq> set (map topology current)"
    by (auto simp: sameListenerTopology_def listeners_lookup [OF assms(1)] each list_all_iff Let_def)
  also have "\<dots> \<longleftrightarrow> set (map topology current) = set (map topology candidate)"
    using d [OF assms(1)] d [OF assms(2)]
    by (metis List.finite_set card_subset_eq distinct_card length_map order_refl)
  also have "\<dots> \<longleftrightarrow> mset (map topology current) = mset (map topology candidate)"
    using d [OF assms(1)] d [OF assms(2)] by (simp add: set_eq_iff_mset_eq_distinct del: set_map)
  finally show ?thesis .
qed

lemma sameBackendTLSPolicies_iff:
  "sameBackendTLSPolicies current candidate \<longleftrightarrow> collect_policies current = collect_policies candidate"
proof -
  have "finite (collect_policies c)" for c by (simp add: collect_policies_def)
  then show ?thesis unfolding sameBackendTLSPolicies_def by (metis card_subset_eq subsetI)
qed

lemma ParseTOML_Inr: "ParseTOML decode (Some t) = Inr c \<longleftrightarrow> decode t = Inr c \<and> wf_config c"
  by (auto simp: ParseTOML_def Config_Validate_wf [symmetric] split: sum.splits toml_error.splits option.splits)

text \<open>A successful reload publishes exactly the decoded file.\<close>

lemma Reload_success:
  assumes "ReloadTOMLFileWithValidation decode opened validate (Some st) = (None, st')"
  obtains contents candidate where "opened = Inr (contents, None)" "decode contents = Inr candidate"
    "wf_config candidate" "st' = Some (Some candidate)"
    "sameListenerTopology (Servers (Snapshot st)) (Servers candidate)"
    "sameBackendTLSPolicies (Snapshot st) candidate"
    "\<forall>f. validate = Some f \<longrightarrow> f candidate = None"
  using assms
  by (auto simp: ReloadTOMLFileWithValidation_def reload_candidate_def Replace_def ParseTOML_Inr
      split: sum.splits option.splits prod.splits if_splits)

lemma Reload_failure:
  assumes "ReloadTOMLFileWithValidation decode opened validate (Some st) = (Some e, st')"
  shows "st' = Some st"
  using assms
  by (auto simp: ReloadTOMLFileWithValidation_def Replace_def split: sum.splits option.splits)

text \<open>
  A running process: a store made from an initial configuration and then any number of reloads, each
  with its own file, operating system answers and capability check.
\<close>

inductive running :: "('i \<Rightarrow> (toml_error, Config) result) \<Rightarrow> Config \<Rightarrow> Store \<Rightarrow> bool" for decode initial where
  started: "NewStore initial = Inr st \<Longrightarrow> running decode initial st"
| reloaded: "running decode initial st \<Longrightarrow>
    ReloadTOMLFileWithValidation decode (opened :: (string, 'i \<times> string option) result)
      (validate :: (Config \<Rightarrow> string option) option) (Some st) = (err, Some st') \<Longrightarrow>
    running decode initial st'"

inductive_cases NewStore_running: "running decode initial st"

lemma NewStore_Inr: "NewStore c = Inr st \<longleftrightarrow> wf_config c \<and> st = Some c"
  by (auto simp: NewStore_def Replace_def Config_Validate_wf [symmetric] split: option.splits)

lemma running_invariant:
  assumes "running decode initial st"
  shows "wf_config (Snapshot st) \<and>
    mset (map topology (Servers (Snapshot st))) = mset (map topology (Servers initial)) \<and>
    collect_policies (Snapshot st) = collect_policies initial"
  using assms
proof (induction rule: running.induct)
  case (started st)
  then show ?case by (auto simp: NewStore_Inr Snapshot_def)
next
  case (reloaded st opened validate err st')
  show ?case
  proof (cases err)
    case None
    with reloaded.hyps obtain c where c: "st' = Some c" "wf_config c"
        "sameListenerTopology (Servers (Snapshot st)) (Servers c)" "sameBackendTLSPolicies (Snapshot st) c"
      using Reload_success by (metis option.inject)
    with reloaded.IH show ?thesis
      by (auto simp: Snapshot_def sameBackendTLSPolicies_iff sameListenerTopology_iff wf_config_def)
  next
    case (Some e)
    with reloaded.hyps have "st' = st" using Reload_failure by blast
    with reloaded.IH show ?thesis by simp
  qed
qed

section \<open>Properties\<close>

text \<open>C17: the published configuration of a running process is always valid, and no sequence of
  reloads, whatever the files hold and whatever fails, changes the listeners (name, protocol, address
  and TLS policy of each server) or the set of backend TLS policies that were loaded at the start.\<close>

theorem reload_invariant:
  assumes "running decode initial st"
  shows "Config_Validate (Snapshot st) = None \<and>
    mset (map topology (Servers (Snapshot st))) = mset (map topology (Servers initial)) \<and>
    collect_policies (Snapshot st) = collect_policies initial"
  using running_invariant [OF assms] by (simp add: Config_Validate_wf)

abbreviation small_config :: "Rule list \<Rightarrow> Config" where
  "small_config rs \<equiv> \<lparr>Servers = [plain_server ''a'' ''http'' '':80''], Mounts = [], Policies = rs\<rparr>"

lemma small_config_wf: "wf_config (small_config [])"
  by (simp add: wf_config_def good_server_def go_defs go_loops)

lemma small_config_permit_wf: "wf_config (small_config [any_rule ''permit'' 0])"
  by (simp add: wf_config_def good_server_def policy_eval)

lemma small_reload:
  "ReloadTOMLFileWithValidation (\<lambda>_. Inr (small_config [any_rule ''permit'' 0])) (Inr (''f'', None)) None
     (Some (Some (small_config []))) = (None, Some (Some (small_config [any_rule ''permit'' 0])))"
proof -
  have "Config_Validate (small_config [any_rule ''permit'' 0]) = None"
    using small_config_permit_wf by (simp only: Config_Validate_wf)
  then show ?thesis
    by (simp add: ReloadTOMLFileWithValidation_def reload_candidate_def ParseTOML_def
        Replace_def Snapshot_def sameListenerTopology_def sameFrontendTLS_def sameBackendTLSPolicies_def
        collect_policies_def)
qed

theorem reload_invariant_witness:
  "Config_Validate (Snapshot (Some (small_config [any_rule ''permit'' 0]))) = None"
proof -
  have "running (\<lambda>_ :: string. Inr (small_config [any_rule ''permit'' 0])) (small_config [])
      (Some (small_config []))"
    by (rule started) (simp add: NewStore_Inr small_config_wf)
  then have "running (\<lambda>_ :: string. Inr (small_config [any_rule ''permit'' 0])) (small_config [])
      (Some (small_config [any_rule ''permit'' 0]))"
    using small_reload by (rule reloaded)
  from reload_invariant [OF this] show ?thesis ..
qed

text \<open>A reload is all or nothing. With an error the store is what it was; without one, the file was
  opened, decoded and closed, and the next reader sees exactly the decoded configuration, which is
  valid and passed the capability check.\<close>

theorem reload_atomic:
  assumes "ReloadTOMLFileWithValidation decode opened validate (Some st) = (err, st')"
  shows "case err of
      Some e \<Rightarrow> st' = Some st
    | None \<Rightarrow> \<exists>contents candidate. opened = Inr (contents, None) \<and> decode contents = Inr candidate \<and>
        Config_Validate candidate = None \<and> (\<forall>f. validate = Some f \<longrightarrow> f candidate = None) \<and>
        map_option Snapshot st' = Some candidate"
proof (cases err)
  case None
  with assms have ok: "ReloadTOMLFileWithValidation decode opened validate (Some st) = (None, st')" by simp
  show ?thesis
  proof (rule Reload_success [OF ok])
    fix contents candidate
    assume "opened = Inr (contents, None)" "decode contents = Inr candidate" "wf_config candidate"
      "st' = Some (Some candidate)" "\<forall>f. validate = Some f \<longrightarrow> f candidate = None"
    then show ?thesis using None by (simp add: Snapshot_def Config_Validate_wf)
  qed
next
  case (Some e)
  with assms Reload_failure show ?thesis by auto
qed

theorem reload_atomic_witness:
  "map_option Snapshot (Some (Some (small_config [any_rule ''permit'' 0]))) =
     Some (small_config [any_rule ''permit'' 0])"
  using reload_atomic [OF small_reload] by auto

text \<open>C27: readers of the store see whole configurations. After any sequence of replacements the
  snapshot is the last candidate that was valid, or the initial one when none was.\<close>

theorem Snapshot_last_valid:
  assumes "NewStore initial = Inr st"
  shows "Snapshot (foldl (\<lambda>s c. snd (Replace s c)) st cs) =
    last (initial # filter (\<lambda>c. Config_Validate c = None) cs)"
  using config_store.snapshot_run [of st cs] assms by (simp add: NewStore_Inr Snapshot_def)

theorem Snapshot_last_valid_witness:
  "Snapshot (foldl (\<lambda>s c. snd (Replace s c)) (Some (small_config []))
     [small_config [any_rule ''permit'' 0], \<lparr>Servers = [], Mounts = [], Policies = []\<rparr>]) =
   small_config [any_rule ''permit'' 0]"
proof -
  have "NewStore (small_config []) = Inr (Some (small_config []))" by (simp add: NewStore_Inr small_config_wf)
  note run = Snapshot_last_valid [OF this, of "[small_config [any_rule ''permit'' 0],
      \<lparr>Servers = [], Mounts = [], Policies = []\<rparr>]"]
  show ?thesis unfolding run using small_config_permit_wf by (simp add: Config_Validate_wf wf_config_def)
qed

text \<open>The topology comparison is exact. For server lists with distinct names, as validation
  demands, it accepts precisely the permutations that keep each server's name, protocol, listen address
  and TLS policy.\<close>

theorem sameListenerTopology_permutation:
  assumes "distinct (map sName current)" and "distinct (map sName candidate)"
  shows "sameListenerTopology current candidate \<longleftrightarrow>
    mset (map topology current) = mset (map topology candidate)"
  by (rule sameListenerTopology_iff [OF assms])

theorem sameListenerTopology_permutation_witness:
  "sameListenerTopology [plain_server ''a'' ''http'' '':80'', plain_server ''b'' ''socks'' '':1080'']
     [plain_server ''b'' ''socks'' '':1080'', plain_server ''a'' ''http'' '':80'']"
  by (subst sameListenerTopology_permutation) (simp_all add: topology_def)

end
