(* ===== verification/Command.thy ===== *)
theory Command
  imports Explain Legacy Endpoint Store
begin

text \<open>
  The command line of \<^verbatim>\<open>cmd/delegate/main.go\<close>: which mode the arguments ask for, where the configuration
  comes from, and with which exit code the program ends. The file system, the TOML decoder, the output
  stream and the servers are parameters.
\<close>

section \<open>Finding the configuration\<close>

definition looksLikeAddressRoute :: "string list \<Rightarrow> bool" where
  "looksLikeAddressRoute args =
     (case args of
        [] \<Rightarrow> False
      | a # _ \<Rightarrow> (case Cut a CHR '':'' of (kind, _, found) \<Rightarrow>
          found \<and> \<not> Contains kind ''='' \<and> HasSuffix (ToUpper kind) ''-LISTEN''))"

text \<open>Where a reload reads from: the first configuration flag of the whole command line.\<close>

fun configPathFromArgs :: "string list \<Rightarrow> string" where
  "configPathFromArgs [] = []"
| "configPathFromArgs (arg # args) =
     (if arg = ''--config'' \<and> args \<noteq> [] then hd args
      else if HasPrefix arg ''--config='' then TrimPrefix arg ''--config=''
      else configPathFromArgs args)"

datatype load_config_error =
    LoadLegacy legacy_error
  | CannotCombine
  | ConfigPathRequired
  | ReadConfiguration string
  | LoadTOML parse_error

definition is_config_flag :: "string \<Rightarrow> bool" where
  "is_config_flag arg \<longleftrightarrow> arg = ''--config'' \<or> HasPrefix arg ''--config=''"

text \<open>The file named by the arguments; \<open>None\<close> for legacy directives.\<close>

definition config_file :: "string list \<Rightarrow> (load_config_error, string option) result" where
  "config_file args =
     (if \<not> list_ex is_config_flag args then Inr None
      else if \<not> is_config_flag (hd args) then Inl CannotCombine
      else if hd args = ''--config'' then
        (if length args < 2 \<or> TrimSpace (args ! 1) = [] then Inl ConfigPathRequired
         else if length args \<noteq> 2 then Inl CannotCombine
         else Inr (Some (args ! 1)))
      else
        (let path = TrimSpace (TrimPrefix (hd args) ''--config='') in
         if path = [] then Inl ConfigPathRequired
         else if length args \<noteq> 1 then Inl CannotCombine
         else Inr (Some path)))"

definition loadConfiguration ::
    "(string \<Rightarrow> (string, 'i) result) \<Rightarrow> ('i \<Rightarrow> (toml_error, Config) result) \<Rightarrow> string list \<Rightarrow> (load_config_error, Config) result" where
  "loadConfiguration open_file decode args =
     bind_result (config_file args) (\<lambda>file.
       case file of
         None \<Rightarrow> map_error LoadLegacy (ParseLegacyArgs args)
       | Some path \<Rightarrow>
           (case open_file path of
              Inl e \<Rightarrow> Inl (ReadConfiguration e)
            | Inr contents \<Rightarrow> map_error LoadTOML (ParseTOML decode (Some contents))))"

section \<open>Explanations\<close>

datatype explanation_error =
    RequiresValue string
  | OnePathOrURL
  | SourceRequired
  | MethodRequired
  | LoadForExplain load_config_error
  | OneServer

definition value_flags :: "string list" where
  "value_flags = [''--path'', ''--url'', ''--source'', ''--method'', ''--config'']"

text \<open>The cases of the loop's switch with a value of their own and with a value in the argument.\<close>

definition value_arg :: "string \<Rightarrow> string \<Rightarrow> ExplainRequest \<times> string list \<Rightarrow> ExplainRequest \<times> string list" where
  "value_arg arg v = (\<lambda>(request, configArgs).
     if arg = ''--path'' then (request\<lparr>ePath := v\<rparr>, configArgs)
     else if arg = ''--url'' then (request\<lparr>eURL := v\<rparr>, configArgs)
     else if arg = ''--source'' then (request\<lparr>eSource := v\<rparr>, configArgs)
     else if arg = ''--method'' then (request\<lparr>eMethod := v\<rparr>, configArgs)
     else (request, configArgs @ [''--config'', v]))"

definition inline_arg :: "string \<Rightarrow> ExplainRequest \<times> string list \<Rightarrow> ExplainRequest \<times> string list" where
  "inline_arg arg = (\<lambda>(request, configArgs).
     if HasPrefix arg ''--path='' then (request\<lparr>ePath := TrimPrefix arg ''--path=''\<rparr>, configArgs)
     else if HasPrefix arg ''--url='' then (request\<lparr>eURL := TrimPrefix arg ''--url=''\<rparr>, configArgs)
     else if HasPrefix arg ''--source='' then (request\<lparr>eSource := TrimPrefix arg ''--source=''\<rparr>, configArgs)
     else if HasPrefix arg ''--method='' then (request\<lparr>eMethod := TrimPrefix arg ''--method=''\<rparr>, configArgs)
     else (request, configArgs @ [arg]))"

fun explanation_args ::
    "string list \<Rightarrow> ExplainRequest \<times> string list \<Rightarrow> (explanation_error, ExplainRequest \<times> string list) result" where
  "explanation_args [] st = Inr st"
| "explanation_args [arg] st =
     (if List.member value_flags arg then Inl (RequiresValue arg) else Inr (inline_arg arg st))"
| "explanation_args (arg # v # rest) st =
     (if List.member value_flags arg then
        (if TrimSpace v = [] then Inl (RequiresValue arg) else explanation_args rest (value_arg arg v st))
      else explanation_args (v # rest) (inline_arg arg st))"

definition empty_explain :: ExplainRequest where
  "empty_explain = \<lparr>ePath = [], eURL = [], eSource = [], eServer = [], eProtocol = [], eMethod = []\<rparr>"

definition loadExplanation ::
    "(string \<Rightarrow> (string, 'i) result) \<Rightarrow> ('i \<Rightarrow> (toml_error, Config) result) \<Rightarrow> string list \<Rightarrow>
       (explanation_error, Config \<times> ExplainRequest) result" where
  "loadExplanation open_file decode args =
     bind_result (explanation_args args (empty_explain, [])) (\<lambda>(request, configArgs).
       if (TrimSpace (ePath request) = []) = (TrimSpace (eURL request) = []) then Inl OnePathOrURL
       else if TrimSpace (eSource request) = [] then Inl SourceRequired
       else if TrimSpace (eMethod request) = [] then Inl MethodRequired
       else
         bind_result (map_error LoadForExplain (loadConfiguration open_file decode configArgs)) (\<lambda>configured.
           case Servers configured of
             [s] \<Rightarrow> Inr (configured, request\<lparr>eProtocol := sProtocol s, eServer := sName s\<rparr>)
           | _ \<Rightarrow> Inl OneServer))"

section \<open>Running\<close>

definition validateRuntimeSupport :: "Config \<Rightarrow> bool" where
  "validateRuntimeSupport configured \<longleftrightarrow> list_all (\<lambda>frontend. EqualFold (sProtocol frontend) ''http'') (Servers configured)"

text \<open>What the program does besides writing to standard error, and its exit code. \<open>out_ok\<close> says whether writing
  to standard output succeeds, \<open>serve\<close> whether serving a configuration ends without error.\<close>

datatype cli_effect =
    NoEffect
  | PrintVersion
  | PrintExplanation ExplainResult
  | PrintConfig Config
  | ServeConfig Config
  | ServeRoute Route

definition run_config ::
    "(string \<Rightarrow> (string, 'i) result) \<Rightarrow> ('i \<Rightarrow> (toml_error, Config) result) \<Rightarrow> bool \<Rightarrow> (Config \<Rightarrow> bool) \<Rightarrow> bool \<Rightarrow> string list \<Rightarrow>
       nat \<times> cli_effect" where
  "run_config open_file decode out_ok serve checking args =
     (case loadConfiguration open_file decode args of
        Inl _ \<Rightarrow> (2, NoEffect)
      | Inr configured \<Rightarrow>
          if Config_Validate configured \<noteq> None then (2, NoEffect)
          else if checking then ((if out_ok then 0 else 1), PrintConfig configured)
          else if \<not> validateRuntimeSupport configured then (2, NoEffect)
          else ((if serve configured then 0 else 1), ServeConfig configured))"

definition run_explain ::
    "(string \<Rightarrow> (string, 'i) result) \<Rightarrow> ('i \<Rightarrow> (toml_error, Config) result) \<Rightarrow> bool \<Rightarrow> string list \<Rightarrow> nat \<times> cli_effect" where
  "run_explain open_file decode out_ok args =
     (case loadExplanation open_file decode args of
        Inl _ \<Rightarrow> (2, NoEffect)
      | Inr (configured, request) \<Rightarrow>
          (case explain_Evaluate configured request of
             Inl _ \<Rightarrow> (2, NoEffect)
           | Inr res \<Rightarrow> ((if out_ok then 0 else 1), PrintExplanation res)))"

definition run ::
    "(string \<Rightarrow> (string, 'i) result) \<Rightarrow> ('i \<Rightarrow> (toml_error, Config) result) \<Rightarrow> bool \<Rightarrow> (Config \<Rightarrow> bool) \<Rightarrow> string list \<Rightarrow> nat \<times> cli_effect" where
  "run open_file decode out_ok serve args =
     (case args of
        [] \<Rightarrow> run_config open_file decode out_ok serve False []
      | a # rest \<Rightarrow>
          if a = ''version'' then (if rest \<noteq> [] then (2, NoEffect) else (0, PrintVersion))
          else if a = ''explain'' then run_explain open_file decode out_ok rest
          else if a = ''check'' then run_config open_file decode out_ok serve True rest
          else if a = ''serve'' then run_config open_file decode out_ok serve False rest
          else run_config open_file decode out_ok serve False args)"

definition runCommand ::
    "(string \<Rightarrow> (string, 'i) result) \<Rightarrow> ('i \<Rightarrow> (toml_error, Config) result) \<Rightarrow> bool \<Rightarrow> (Config \<Rightarrow> bool) \<Rightarrow>
       (Route \<Rightarrow> bool) option \<Rightarrow> string list \<Rightarrow> nat \<times> cli_effect" where
  "runCommand open_file decode out_ok serve serveRoute args =
     (if \<not> looksLikeAddressRoute args then run open_file decode out_ok serve args
      else (case ParseRoute args of
        Inl _ \<Rightarrow> (2, NoEffect)
      | Inr route \<Rightarrow>
          (case serveRoute of
             None \<Rightarrow> (1, NoEffect)
           | Some f \<Rightarrow> ((if f route then 0 else 1), ServeRoute route))))"

section \<open>Lemmas\<close>

lemma loadConfiguration_valid:
  assumes "loadConfiguration open_file decode args = Inr c"
  shows "Config_Validate c = None"
proof (cases "config_file args")
  case (Inl e)
  with assms show ?thesis by (simp add: loadConfiguration_def)
next
  case (Inr named)
  show ?thesis
  proof (cases named)
    case None
    with assms Inr have "ParseLegacyArgs args = Inr c" by (simp add: loadConfiguration_def)
    then show ?thesis by (rule ParseLegacyArgs_Inr) (simp add: Config_Validate_wf)
  next
    case (Some path)
    with assms Inr obtain contents where "ParseTOML decode (Some contents) = Inr c"
      by (auto simp: loadConfiguration_def split: sum.splits)
    then show ?thesis by (simp add: ParseTOML_Inr Config_Validate_wf)
  qed
qed

lemma run_config_effect:
  assumes "run_config open_file decode out_ok serve checking args = (code, eff)"
  shows "(code = 2 \<longrightarrow> eff = NoEffect) \<and>
    (\<forall>c. eff = ServeConfig c \<longrightarrow> \<not> checking \<and> loadConfiguration open_file decode args = Inr c \<and>
       Config_Validate c = None \<and> validateRuntimeSupport c) \<and>
    (\<forall>c. eff = PrintConfig c \<longrightarrow> checking \<and> Config_Validate c = None) \<and>
    (\<forall>r. eff \<noteq> PrintExplanation r \<and> eff \<noteq> PrintVersion) \<and> (\<forall>r. eff \<noteq> ServeRoute r) \<and>
    (eff = NoEffect \<longrightarrow> code = 2)"
  using assms by (auto simp: run_config_def split: sum.splits if_splits)

lemma run_explain_effect:
  assumes "run_explain open_file decode out_ok args = (code, eff)"
  shows "(code = 2 \<longleftrightarrow> eff = NoEffect) \<and> (eff = NoEffect \<or> (\<exists>r. eff = PrintExplanation r))"
  using assms by (auto simp: run_explain_def split: sum.splits if_splits)

lemma serves_valid:
  assumes "runCommand open_file decode out_ok serve serveRoute args = (code, eff)"
  shows "(\<forall>c. eff = ServeConfig c \<longrightarrow> Config_Validate c = None \<and>
      (\<forall>s \<in> set (Servers c). EqualFold (sProtocol s) ''http'') \<and> (args = [] \<or> hd args \<notin> {''version'', ''check'', ''explain''})) \<and>
    (\<forall>r. eff = ServeRoute r \<longrightarrow> looksLikeAddressRoute args \<and> ParseRoute args = Inr r) \<and>
    (code = 2 \<longrightarrow> eff = NoEffect)"
proof (cases "looksLikeAddressRoute args")
  case True
  with assms show ?thesis by (auto simp: runCommand_def split: sum.splits option.splits if_splits)
next
  case False
  with assms have "run open_file decode out_ok serve args = (code, eff)" by (simp add: runCommand_def)
  then consider (conf) chk rest where "run_config open_file decode out_ok serve chk rest = (code, eff)"
      "\<not> chk \<longrightarrow> args = [] \<or> hd args \<notin> {''version'', ''check'', ''explain''}"
    | (expl) rest where "run_explain open_file decode out_ok rest = (code, eff)"
    | (version) "eff = PrintVersion \<and> code = 0 \<or> eff = NoEffect \<and> code = 2"
    by (cases args) (auto simp: run_def split: if_splits)
  then show ?thesis
  proof cases
    case conf
    with run_config_effect [OF conf(1)] show ?thesis by (auto simp: validateRuntimeSupport_def list_all_iff)
  next
    case expl
    with run_explain_effect [OF expl] show ?thesis by auto
  qed auto
qed

section \<open>Properties\<close>

text \<open>The program serves only what is valid. Whatever the arguments and the files, a configuration is served
  only if it passed validation and all its servers speak HTTP, a route only if it parsed as one; the
  subcommands \<^verbatim>\<open>version\<close>, \<^verbatim>\<open>check\<close> and \<^verbatim>\<open>explain\<close> serve nothing; and exit code 2 means that nothing was done.\<close>

theorem runCommand_serves_valid:
  assumes "runCommand open_file decode out_ok serve serveRoute args = (code, eff)"
  shows "(\<forall>c. eff = ServeConfig c \<longrightarrow> Config_Validate c = None \<and>
      (\<forall>s \<in> set (Servers c). EqualFold (sProtocol s) ''http'') \<and> (args = [] \<or> hd args \<notin> {''version'', ''check'', ''explain''})) \<and>
    (\<forall>r. eff = ServeRoute r \<longrightarrow> looksLikeAddressRoute args \<and> ParseRoute args = Inr r) \<and>
    (code = 2 \<longrightarrow> eff = NoEffect)"
  by (rule serves_valid [OF assms])

theorem runCommand_serves_valid_witness:
  "\<exists>configured code. runCommand (\<lambda>_. Inr ()) (\<lambda>_. Inr files_config) True (\<lambda>_. True) None [''--config'', ''/c.toml''] = (code, ServeConfig configured) \<and>
     Config_Validate configured = None"
proof -
  have "wf_config files_config"
    by (simp add: wf_config_def good_server_def good_scope_def Rule_Validate_def mount_eval path_eval go_defs go_loops)
  then have v: "Config_Validate files_config = None" by (simp only: Config_Validate_wf)
  then have "loadConfiguration (\<lambda>_. Inr ()) (\<lambda>_. Inr files_config) [''--config'', ''/c.toml''] = Inr files_config"
    by (simp add: loadConfiguration_def config_file_def is_config_flag_def ParseTOML_def go_defs go_loops)
  moreover have "validateRuntimeSupport files_config" by (simp add: validateRuntimeSupport_def go_defs go_loops)
  moreover have "\<not> looksLikeAddressRoute [''--config'', ''/c.toml'']"
    by (simp add: looksLikeAddressRoute_def go_defs go_loops)
  ultimately have run: "runCommand (\<lambda>_. Inr ()) (\<lambda>_. Inr files_config) True (\<lambda>_. True) None [''--config'', ''/c.toml''] = (0, ServeConfig files_config)"
    using v by (simp add: runCommand_def run_def run_config_def)
  from runCommand_serves_valid [OF run] run show ?thesis by simp
qed

text \<open>Reloads read the file the program was started with, unless the flag has blanks at its ends. When the
  arguments name a file, the reload path is that file's path, up to surrounding white space, which start-up
  removes from \<^verbatim>\<open>--config=PATH\<close> and the reload does not: \<^verbatim>\<open>--config= c\<close> starts from \<^verbatim>\<open>c\<close> and reloads from \<^verbatim>\<open> c\<close>.\<close>

theorem reload_path:
  "(config_file args = Inr (Some p) \<longrightarrow> configPathFromArgs args = p \<or> TrimSpace (configPathFromArgs args) = p) \<and>
   config_file [''--config= c''] = Inr (Some ''c'') \<and> configPathFromArgs [''--config= c''] = '' c''"
proof (intro conjI impI)
  assume f: "config_file args = Inr (Some p)"
  then obtain a rest where args: "args = a # rest" by (cases args) (auto simp: config_file_def)
  show "configPathFromArgs args = p \<or> TrimSpace (configPathFromArgs args) = p"
  proof (cases "a = ''--config''")
    case True
    with f args have "rest \<noteq> []" "p = hd rest"
      by (auto simp: config_file_def hd_conv_nth split: if_splits)
    with True args show ?thesis by simp
  next
    case False
    with f args have "HasPrefix a ''--config=''" "p = TrimSpace (TrimPrefix a ''--config='')"
      by (auto simp: config_file_def is_config_flag_def Let_def split: if_splits)
    with False args show ?thesis by simp
  qed
next
  show "config_file [''--config= c''] = Inr (Some ''c'')"
    by (simp add: config_file_def is_config_flag_def go_defs go_loops)
  show "configPathFromArgs [''--config= c''] = '' c''" by (simp add: go_defs go_loops)
qed

theorem reload_path_witness:
  "TrimSpace (configPathFromArgs [''--config= c'']) = ''c''"
  using reload_path [of "[''--config= c'']" "''c''"] by (simp add: go_defs go_loops)

end
