(* ===== verification/Ftp_Reply.thy ===== *)
theory Ftp_Reply
  imports Go_URL
begin

text \<open>
  The reply side of \<^verbatim>\<open>connector/ftp.go\<close>: the bounded reply reader, the parsers of the passive mode replies
  and of the resource. The bytes that a peer sends are a \<open>string\<close>; \<^verbatim>\<open>bufio.Reader.ReadSlice\<close> on a buffer of
  \<open>cap\<close> bytes sees the first \<open>cap\<close> of those not yet consumed, however they arrive.
\<close>

section \<open>Reading lines and replies\<close>

abbreviation newline :: char where "newline \<equiv> CHR 0x0A"

datatype ftp_error =
    ReplyTooLong
  | ReplyEnded
  | ReplyTooShort string
  | ReplyInvalidCode string
  | ReplyInvalidSeparator string
  | PassiveMalformed string string

record ftpReply =
  replyCode :: int
  replyBody :: string

record ftpReplyReader =
  unread :: string
  maxBytes :: nat

definition defaultFTPMaxReplyBytes :: nat where
  "defaultFTPMaxReplyBytes = 65536"

definition newFTPReplyReader :: "string \<Rightarrow> int \<Rightarrow> ftpReplyReader" where
  "newFTPReplyReader bytes m =
     \<lparr>unread = bytes, maxBytes = (if m \<le> 0 then defaultFTPMaxReplyBytes else nat m)\<rparr>"

datatype slice = SliceLine string string | SliceFull | SliceEOF string

definition ReadSlice :: "nat \<Rightarrow> string \<Rightarrow> slice" where
  "ReadSlice cap inp =
     (let l = takeWhile (\<lambda>c. c \<noteq> newline) inp in
      if length l < length inp \<and> length l < cap then SliceLine (l @ [newline]) (drop (length l + 1) inp)
      else if cap \<le> length inp then SliceFull
      else SliceEOF inp)"

text \<open>\<^verbatim>\<open>readLine\<close>: the line, how many bytes it took, and what is left. The buffer that \<^verbatim>\<open>newFTPReplyReader\<close> asks for has
  one byte more than the limit; \<^verbatim>\<open>bufio\<close> makes none smaller than 16 bytes.\<close>

definition readLine :: "nat \<Rightarrow> nat \<Rightarrow> string \<Rightarrow> (ftp_error, string \<times> nat \<times> string) result" where
  "readLine m remaining inp =
     (if remaining = 0 then Inl ReplyTooLong
      else (case ReadSlice (max 16 (m + 1)) inp of
        SliceFull \<Rightarrow> Inl ReplyTooLong
      | SliceEOF raw \<Rightarrow> if remaining < length raw then Inl ReplyTooLong else Inl ReplyEnded
      | SliceLine raw rest \<Rightarrow>
          if remaining < length raw then Inl ReplyTooLong
          else Inr (TrimSuffix (TrimSuffix raw [newline]) [CHR 0x0D], length raw, rest)))"

definition parseFTPReplyStart :: "string \<Rightarrow> (ftp_error, int \<times> char) result" where
  "parseFTPReplyStart line =
     (if length line < 3 then Inl (ReplyTooShort line)
      else (case Atoi (take 3 line) of
        None \<Rightarrow> Inl (ReplyInvalidCode line)
      | Some code \<Rightarrow>
          if code < 100 \<or> 599 < code then Inl (ReplyInvalidCode line)
          else if length line = 3 then Inr (code, CHR '' '')
          else if line ! 3 \<noteq> CHR '' '' \<and> line ! 3 \<noteq> CHR ''-'' then Inl (ReplyInvalidSeparator line)
          else Inr (code, line ! 3)))"

lemma ReadSlice_line:
  assumes "ReadSlice cap inp = SliceLine raw rest"
  shows "inp = raw @ rest \<and> raw \<noteq> [] \<and> length raw \<le> cap \<and> newline \<notin> set (butlast raw) \<and> last raw = newline"
proof -
  let ?l = "takeWhile (\<lambda>c. c \<noteq> newline) inp"
  have r: "length ?l < length inp" "length ?l < cap" "raw = ?l @ [newline]" "rest = drop (length ?l + 1) inp"
    using assms by (auto simp: ReadSlice_def Let_def split: if_splits)
  have "inp ! length ?l = newline" using nth_length_takeWhile [OF r(1)] by simp
  then have "drop (length ?l) inp = newline # rest" using Cons_nth_drop_Suc [OF r(1)] r(4) by simp
  then have "inp = ?l @ newline # rest" by (metis append_take_drop_id takeWhile_eq_take)
  moreover have "newline \<notin> set ?l" by (auto dest: set_takeWhileD)
  ultimately show ?thesis using r by auto
qed

lemma readLine_Inr:
  assumes "readLine m remaining inp = Inr (line, n, rest)"
  shows "\<exists>raw. inp = raw @ rest \<and> n = length raw \<and> 0 < n \<and> n \<le> remaining \<and>
    line = TrimSuffix (TrimSuffix raw [newline]) [CHR 0x0D]"
  using assms ReadSlice_line [of "max 16 (m + 1)" inp]
  by (auto simp: readLine_def Suc_le_eq split: if_splits slice.splits)

text \<open>The loop of \<^verbatim>\<open>ReadReply\<close> over the lines of a multi-line reply.\<close>

function more_lines :: "nat \<Rightarrow> nat \<Rightarrow> string \<Rightarrow> string list \<Rightarrow> string \<Rightarrow> (ftp_error, string list \<times> string) result" where
  "more_lines m used terminator lines inp =
     (case readLine m (m - used) inp of
        Inl e \<Rightarrow> Inl e
      | Inr (line, consumed, rest) \<Rightarrow>
          if HasPrefix line terminator then Inr (lines @ [line], rest)
          else more_lines m (used + consumed) terminator (lines @ [line]) rest)"
  by pat_completeness auto
termination
  by (relation "measure (\<lambda>(m, used, terminator, lines, inp). length inp)") (auto dest: readLine_Inr)

declare more_lines.simps [simp del]

text \<open>\<^verbatim>\<open>fmt.Sprintf("%03d ", code)\<close>.\<close>

definition terminator_of :: "int \<Rightarrow> string" where
  "terminator_of code = replicate (3 - length (Itoa code)) CHR ''0'' @ Itoa code @ '' ''"

definition ReadReply :: "ftpReplyReader \<Rightarrow> (ftp_error, ftpReply \<times> ftpReplyReader) result" where
  "ReadReply r =
     bind_result (readLine (maxBytes r) (maxBytes r) (unread r)) (\<lambda>(line, used, rest).
     bind_result (parseFTPReplyStart line) (\<lambda>(code, separator).
       if separator \<noteq> CHR ''-'' then Inr (\<lparr>replyCode = code, replyBody = line\<rparr>, r\<lparr>unread := rest\<rparr>)
       else bind_result (more_lines (maxBytes r) used (terminator_of code) [line] rest) (\<lambda>(lines, rest').
         Inr (\<lparr>replyCode = code, replyBody = Join lines [newline]\<rparr>, r\<lparr>unread := rest'\<rparr>))))"

section \<open>Passive mode replies\<close>

definition ftpParenthesizedReply :: "string \<Rightarrow> string \<Rightarrow> (ftp_error, string) result" where
  "ftpParenthesizedReply body command =
     (case (Index body ''('', Index body '')'') of
        (Some start, Some stop) \<Rightarrow>
          if stop \<le> start then Inl (PassiveMalformed command body)
          else Inr (drop (start + 1) (take stop body))
      | _ \<Rightarrow> Inl (PassiveMalformed command body))"

definition parseFTPPort :: "string \<Rightarrow> string \<Rightarrow> string \<Rightarrow> (ftp_error, int) result" where
  "parseFTPPort val command body =
     (case Atoi (TrimSpace val) of
        None \<Rightarrow> Inl (PassiveMalformed command body)
      | Some port \<Rightarrow> if port < 1 \<or> 65535 < port then Inl (PassiveMalformed command body) else Inr port)"

definition parseEPSVPort :: "string \<Rightarrow> (ftp_error, int) result" where
  "parseEPSVPort body =
     bind_result (ftpParenthesizedReply body ''EPSV'') (\<lambda>inside.
       if length inside < 5 then Inl (PassiveMalformed ''EPSV'' body)
       else (case Split inside (hd inside) of
         [p0, p1, p2, p3, p4] \<Rightarrow>
           if p0 \<noteq> [] \<or> p1 \<noteq> [] \<or> p2 \<noteq> [] \<or> p4 \<noteq> [] then Inl (PassiveMalformed ''EPSV'' body)
           else parseFTPPort p3 ''EPSV'' body
       | _ \<Rightarrow> Inl (PassiveMalformed ''EPSV'' body)))"

definition pasv_value :: "string \<Rightarrow> int option" where
  "pasv_value part =
     (case Atoi (TrimSpace part) of
        None \<Rightarrow> None
      | Some v \<Rightarrow> if v < 0 \<or> 255 < v then None else Some v)"

fun pasv_values :: "string list \<Rightarrow> int list option" where
  "pasv_values [] = Some []"
| "pasv_values (part # parts) =
     (case pasv_value part of None \<Rightarrow> None | Some v \<Rightarrow> map_option ((#) v) (pasv_values parts))"

definition parsePASVPort :: "string \<Rightarrow> (ftp_error, int) result" where
  "parsePASVPort body =
     bind_result (ftpParenthesizedReply body ''PASV'') (\<lambda>inside.
       let parts = Split inside CHR '','' in
       if length parts \<noteq> 6 then Inl (PassiveMalformed ''PASV'' body)
       else (case pasv_values parts of
         None \<Rightarrow> Inl (PassiveMalformed ''PASV'' body)
       | Some vs \<Rightarrow>
           (let port = vs ! 4 * 256 + vs ! 5 in
            if port = 0 then Inl (PassiveMalformed ''PASV'' body) else Inr port)))"

definition ftpEPSVUnsupported :: "int \<Rightarrow> bool" where
  "ftpEPSVUnsupported code \<longleftrightarrow> code = 500 \<or> code = 501 \<or> code = 502 \<or> code = 522"

section \<open>Resources\<close>

record ftpTarget =
  ftHost :: string
  ftPath :: string

datatype resource_error = ResourceParse | ResourceScheme string | ResourceHost

definition normalizeFTPPath :: "string \<Rightarrow> string" where
  "normalizeFTPPath path = (if path = [] then ''/'' else path)"

definition parseFTPResource :: "string \<Rightarrow> (resource_error, ftpTarget) result" where
  "parseFTPResource resource =
     (case url_Parse resource of
        None \<Rightarrow> Inl ResourceParse
      | Some parsed \<Rightarrow>
          if \<not> EqualFold (Scheme parsed) ''ftp'' then Inl (ResourceScheme (Scheme parsed))
          else if TrimSpace (Host parsed) = [] then Inl ResourceHost
          else Inr \<lparr>ftHost = Host parsed, ftPath = normalizeFTPPath (Path parsed)\<rparr>)"

section \<open>Lemmas on reading\<close>

lemma more_lines_Inr:
  "more_lines m used terminator lines inp = Inr (ls, rest) \<Longrightarrow>
     \<exists>raw. inp = raw @ rest \<and> raw \<noteq> [] \<and> used + length raw \<le> max used m"
proof (induction m used terminator lines inp rule: more_lines.induct)
  case (1 m used terminator lines inp)
  from "1.prems" obtain line n inp' where r: "readLine m (m - used) inp = Inr (line, n, inp')"
    by (subst (asm) more_lines.simps) (auto split: sum.splits)
  from readLine_Inr [OF r] obtain raw where raw: "inp = raw @ inp'" "n = length raw" "0 < n" "n \<le> m - used" by blast
  show ?case
  proof (cases "HasPrefix line terminator")
    case True
    with "1.prems" r have "rest = inp'" by (subst (asm) more_lines.simps) simp
    with raw show ?thesis by (intro exI [of _ raw]) auto
  next
    case False
    with "1.prems" r have "more_lines m (used + n) terminator (lines @ [line]) inp' = Inr (ls, rest)"
      by (subst (asm) more_lines.simps) simp
    from "1.IH" [OF r refl refl False this] obtain raw' where
      "inp' = raw' @ rest" "used + n + length raw' \<le> max (used + n) m" by blast
    with raw show ?thesis by (intro exI [of _ "raw @ raw'"]) auto
  qed
qed

text \<open>Bytes behind the first \<open>m + 1\<close> do not matter to a line.\<close>

lemma takeWhile_first:
  assumes "length (takeWhile P xs) < length xs"
  shows "takeWhile P (xs @ ys) = takeWhile P xs"
proof -
  have "\<exists>x \<in> set xs. \<not> P x" using assms by (metis less_irrefl takeWhile_eq_all_conv)
  then show ?thesis by (auto intro: takeWhile_append1)
qed

lemma ReadSlice_append:
  assumes "cap \<le> length u"
  shows "ReadSlice cap (u @ v) =
    (case ReadSlice cap u of SliceLine raw rest \<Rightarrow> SliceLine raw (rest @ v) | x \<Rightarrow> x)"
proof (cases "length (takeWhile (\<lambda>c. c \<noteq> newline) u) < length u")
  case True
  then show ?thesis using assms by (simp add: ReadSlice_def Let_def takeWhile_first)
next
  case False
  then have eq: "takeWhile (\<lambda>c. c \<noteq> newline) u = u"
    by (metis length_takeWhile_le linorder_le_less_linear take_all takeWhile_eq_take)
  then have "takeWhile (\<lambda>c. c \<noteq> newline) (u @ v) = u @ takeWhile (\<lambda>c. c \<noteq> newline) v"
    by (intro takeWhile_append2) (metis set_takeWhileD)
  then show ?thesis using assms by (simp add: ReadSlice_def Let_def eq)
qed

text \<open>A larger buffer makes no difference.\<close>

lemma readLine_buffer:
  assumes "remaining \<le> m"
  shows "readLine m remaining inp =
    (if remaining = 0 then Inl ReplyTooLong
     else (case ReadSlice (m + 1) inp of
       SliceFull \<Rightarrow> Inl ReplyTooLong
     | SliceEOF raw \<Rightarrow> if remaining < length raw then Inl ReplyTooLong else Inl ReplyEnded
     | SliceLine raw rest \<Rightarrow>
         if remaining < length raw then Inl ReplyTooLong
         else Inr (TrimSuffix (TrimSuffix raw [newline]) [CHR 0x0D], length raw, rest)))"
proof -
  define l where "l = takeWhile (\<lambda>c. c \<noteq> newline) inp"
  have slice: "ReadSlice cap inp =
      (if length l < length inp \<and> length l < cap then SliceLine (l @ [newline]) (drop (length l + 1) inp)
       else if cap \<le> length inp then SliceFull else SliceEOF inp)" for cap
    by (simp add: ReadSlice_def Let_def l_def)
  show ?thesis
    using assms by (cases "length l < length inp"; cases "length l < m + 1"; cases "m + 1 \<le> length inp")
      (simp_all add: readLine_def slice, (simp add: max_def)+)
qed

lemma readLine_append:
  assumes "m + 1 \<le> length u" and "k \<le> m"
  shows "readLine m k (u @ v) =
    (case readLine m k u of Inl e \<Rightarrow> Inl e | Inr (line, n, rest) \<Rightarrow> Inr (line, n, rest @ v))"
proof -
  have eof: "ReadSlice (m + 1) u \<noteq> SliceEOF x" for x using assms by (auto simp: ReadSlice_def Let_def)
  show ?thesis
    using eof ReadSlice_append [OF assms(1), of v] assms(2) by (cases "ReadSlice (m + 1) u") (simp_all add: readLine_buffer)
qed

lemma more_lines_append:
  assumes "m + 1 + (m - used) \<le> length u" and "used \<le> m"
  shows "more_lines m used terminator lines (u @ v) =
    (case more_lines m used terminator lines u of Inl e \<Rightarrow> Inl e | Inr (ls, rest) \<Rightarrow> Inr (ls, rest @ v))"
  using assms
proof (induction m used terminator lines u rule: more_lines.induct)
  case (1 m used terminator lines u)
  note eqs = more_lines.simps [of m used terminator lines u] more_lines.simps [of m used terminator lines "u @ v"]
  show ?case
  proof (cases "readLine m (m - used) u")
    case (Inl e)
    then show ?thesis using "1.prems" unfolding eqs by (simp add: readLine_append)
  next
    case (Inr x)
    obtain line n rest where x: "x = (line, n, rest)" by (cases x)
    with Inr have r: "readLine m (m - used) u = Inr (line, n, rest)" by simp
    from readLine_Inr [OF this] obtain raw where raw: "u = raw @ rest" "n = length raw" "0 < n" "n \<le> m - used" by blast
    then have "m + 1 + (m - (used + n)) \<le> length rest" "used + n \<le> m" using "1.prems" by auto
    with "1.IH" [OF r refl refl] "1.prems" r show ?thesis unfolding eqs by (simp add: readLine_append)
  qed
qed

text \<open>Complete lines.\<close>

definition crlf :: "string \<Rightarrow> string" where
  "crlf l = l @ [CHR 0x0D, newline]"

lemma TrimSuffix_append [simp]: "TrimSuffix (xs @ ys) ys = xs"
  by (simp add: TrimSuffix_def HasSuffix_def suffix_def)

lemma TrimSuffix_crlf: "TrimSuffix (TrimSuffix (l @ [CHR 0x0D, newline]) [newline]) [CHR 0x0D] = l"
  using TrimSuffix_append [of "l @ [CHR 0x0D]" "[newline]"] TrimSuffix_append [of l "[CHR 0x0D]"] by simp

lemma readLine_text:
  assumes "newline \<notin> set l" and "length l + 2 \<le> k" and "k \<le> m"
  shows "readLine m k (crlf l @ rest) = Inr (l, length l + 2, rest)"
proof -
  have t: "takeWhile (\<lambda>c. c \<noteq> newline) (crlf l @ rest) = l @ [CHR 0x0D]"
  proof -
    have "takeWhile (\<lambda>c. c \<noteq> newline) (l @ [CHR 0x0D] @ newline # rest) = l @ takeWhile (\<lambda>c. c \<noteq> newline) ([CHR 0x0D] @ newline # rest)"
      using assms(1) by (intro takeWhile_append2) auto
    then show ?thesis by (simp add: crlf_def)
  qed
  have "ReadSlice (m + 1) (crlf l @ rest) = SliceLine (l @ [CHR 0x0D, newline]) rest"
    using assms by (simp add: ReadSlice_def Let_def t) (simp add: crlf_def)
  then show ?thesis using assms TrimSuffix_crlf [of l] by (simp add: readLine_buffer)
qed

lemma more_lines_text:
  assumes "\<forall>l \<in> set mids. newline \<notin> set l \<and> \<not> HasPrefix l terminator"
    and "newline \<notin> set lst" and "HasPrefix lst terminator"
    and "used + length (concat (map crlf mids)) + length (crlf lst) \<le> m"
  shows "more_lines m used terminator acc (concat (map crlf mids) @ crlf lst @ rest) = Inr (acc @ mids @ [lst], rest)"
  using assms
proof (induction mids arbitrary: used acc)
  case Nil
  then have "readLine m (m - used) (crlf lst @ rest) = Inr (lst, length lst + 2, rest)"
    by (intro readLine_text) (auto simp: crlf_def)
  with Nil show ?case by (simp add: more_lines.simps)
next
  case (Cons l mids)
  have "readLine m (m - used) (crlf l @ (concat (map crlf mids) @ crlf lst @ rest)) =
      Inr (l, length l + 2, concat (map crlf mids) @ crlf lst @ rest)"
    using Cons.prems by (intro readLine_text) (auto simp: crlf_def)
  moreover have "used + (length l + 2) + length (concat (map crlf mids)) + length (crlf lst) \<le> m"
    using Cons.prems(4) by (simp add: crlf_def [of l])
  ultimately show ?case
    using Cons.IH [of "used + (length l + 2)" "acc @ [l]"] Cons.prems by (subst more_lines.simps) simp
qed

text \<open>Reply codes.\<close>

lemma length_Itoa_code:
  assumes "100 \<le> code" and "code \<le> 599"
  shows "length (Itoa code) = 3"
proof -
  have more: "length (decimal n) = Suc (length (decimal (n div 10)))" if "\<not> n < 10" for n
    using that decimal.simps [of n] by simp
  have one: "length (decimal n) = 1" if "n < 10" for n
    using that decimal.simps [of n] by simp
  have "\<not> code < 10" "\<not> code div 10 < 10" "code div 10 div 10 < 10" using assms by linarith+
  then have "length (decimal code) = 3" using more [of code] more [of "code div 10"] one [of "code div 10 div 10"] by linarith
  then show ?thesis using assms by (simp add: Itoa_def)
qed

lemma terminator_code: "100 \<le> code \<Longrightarrow> code \<le> 599 \<Longrightarrow> terminator_of code = Itoa code @ '' ''"
  by (simp add: terminator_of_def length_Itoa_code)

lemma parseFTPReplyStart_text:
  assumes "100 \<le> code" and "code \<le> 599" and "sep = CHR '' '' \<or> sep = CHR ''-''"
  shows "parseFTPReplyStart (Itoa code @ sep # t) = Inr (code, sep)"
  using assms length_Itoa_code [OF assms(1,2)] Atoi_Itoa [of code]
  by (auto simp: parseFTPReplyStart_def nth_append)

lemma parseFTPReplyStart_Inr: "parseFTPReplyStart line = Inr (code, sep) \<Longrightarrow> 100 \<le> code \<and> code \<le> 599"
  by (auto simp: parseFTPReplyStart_def split: if_splits option.splits)

section \<open>Lemmas on passive mode\<close>

lemma parseFTPPort_range: "parseFTPPort v c b = Inr p \<Longrightarrow> 1 \<le> p \<and> p \<le> 65535"
  by (auto simp: parseFTPPort_def split: option.splits if_splits)

lemma parseEPSVPort_range: "parseEPSVPort b = Inr p \<Longrightarrow> 1 \<le> p \<and> p \<le> 65535"
  by (auto simp: parseEPSVPort_def split: if_splits list.splits dest: parseFTPPort_range)

lemma pasv_values_range:
  "pasv_values ps = Some vs \<Longrightarrow> length vs = length ps \<and> (\<forall>v \<in> set vs. 0 \<le> v \<and> v \<le> 255)"
  by (induction ps arbitrary: vs) (auto simp: pasv_value_def split: option.splits if_splits)

lemma parsePASVPort_range: "parsePASVPort b = Inr p \<Longrightarrow> 1 \<le> p \<and> p \<le> 65535"
proof -
  assume "parsePASVPort b = Inr p"
  then obtain ps vs where ps: "length ps = 6" "pasv_values ps = Some vs" "p = vs ! 4 * 256 + vs ! 5" "p \<noteq> 0"
    by (auto simp: parsePASVPort_def Let_def split: if_splits option.splits)
  from pasv_values_range [OF ps(2)] ps(1) have "0 \<le> vs ! 4 \<and> vs ! 4 \<le> 255" "0 \<le> vs ! 5 \<and> vs ! 5 \<le> 255"
    by auto
  with ps(3,4) show ?thesis by auto
qed

lemma Index_char:
  assumes "c \<notin> set a"
  shows "Index (a @ c # b) [c] = Some (length a)"
  using assms by (induction a) auto

text \<open>A body whose first parentheses enclose a text.\<close>

lemma ftpParenthesizedReply_text:
  assumes "CHR ''('' \<notin> set pre" and "CHR '')'' \<notin> set pre" and "CHR '')'' \<notin> set inside"
  shows "ftpParenthesizedReply (pre @ ''('' @ inside @ '')'' @ post) command = Inr inside"
proof -
  have "Index (pre @ CHR ''('' # (inside @ CHR '')'' # post)) [CHR ''(''] = Some (length pre)"
    using assms(1) by (rule Index_char)
  moreover have "Index ((pre @ CHR ''('' # inside) @ CHR '')'' # post) [CHR '')''] = Some (length (pre @ CHR ''('' # inside))"
    using assms by (intro Index_char) auto
  ultimately show ?thesis by (simp add: ftpParenthesizedReply_def)
qed

lemma pasv_value_Itoa:
  assumes "0 \<le> v" and "v \<le> 255"
  shows "pasv_value (Itoa v) = Some v"
  using assms Atoi_Itoa [of v] TrimSpace_digits [OF Itoa_digits, of v] by (simp add: pasv_value_def)

section \<open>Properties\<close>

text \<open>C34: a reply is bounded and typed. Whatever the peer sends, an accepted reply has a code from 100 to
  599, was read from at least one and at most \<^verbatim>\<open>maxReplyBytes\<close> bytes, and the reader stands right behind it.\<close>

theorem ReadReply_bounded:
  assumes "ReadReply r = Inr (reply, r')"
  shows "100 \<le> replyCode reply \<and> replyCode reply \<le> 599 \<and> maxBytes r' = maxBytes r \<and>
    (\<exists>raw. unread r = raw @ unread r' \<and> raw \<noteq> [] \<and> length raw \<le> maxBytes r)"
proof -
  from assms obtain line used rest code sep where
    l: "readLine (maxBytes r) (maxBytes r) (unread r) = Inr (line, used, rest)"
    and c: "parseFTPReplyStart line = Inr (code, sep)" "replyCode reply = code" "maxBytes r' = maxBytes r"
    and t: "unread r' = rest \<or> (\<exists>ls. more_lines (maxBytes r) used (terminator_of code) [line] rest = Inr (ls, unread r'))"
    by (auto simp: ReadReply_def split: if_splits)
  from readLine_Inr [OF l] obtain raw where raw: "unread r = raw @ rest" "used = length raw" "0 < used" "used \<le> maxBytes r"
    by blast
  from t have "\<exists>raw'. rest = raw' @ unread r' \<and> used + length raw' \<le> maxBytes r"
  proof
    assume "unread r' = rest"
    with raw show ?thesis by (intro exI [of _ "[]"]) simp
  next
    assume "\<exists>ls. more_lines (maxBytes r) used (terminator_of code) [line] rest = Inr (ls, unread r')"
    then show ?thesis using more_lines_Inr raw(4) by fastforce
  qed
  then obtain raw' where "rest = raw' @ unread r'" "used + length raw' \<le> maxBytes r" by blast
  with raw have "unread r = (raw @ raw') @ unread r'" "raw @ raw' \<noteq> []" "length (raw @ raw') \<le> maxBytes r" by auto
  moreover have "100 \<le> code" "code \<le> 599" using parseFTPReplyStart_Inr [OF c(1)] by auto
  ultimately show ?thesis using c by auto
qed

theorem ReadReply_bounded_witness:
  "\<exists>reply r'. ReadReply \<lparr>unread = crlf ''220 hi'', maxBytes = 64\<rparr> = Inr (reply, r') \<and>
     replyCode reply \<le> 599 \<and> (\<exists>raw. crlf ''220 hi'' = raw @ unread r' \<and> length raw \<le> 64)"
proof -
  have "ReadReply \<lparr>unread = crlf ''220 hi'', maxBytes = 64\<rparr> =
      Inr (\<lparr>replyCode = 220, replyBody = ''220 hi''\<rparr>, \<lparr>unread = [], maxBytes = 64\<rparr>)"
    by (simp add: ReadReply_def readLine_def ReadSlice_def parseFTPReplyStart_def crlf_def go_defs go_loops)
  with ReadReply_bounded [OF this] show ?thesis by auto
qed

text \<open>C35: reading a reply always comes to an end. The verdict depends on at most twice the bound plus one byte:
  when that many bytes are there, whatever follows them, and however much, leaves verdict and reply
  unchanged, so a peer that never stops sending cannot keep the reader busy.\<close>

theorem ReadReply_decides:
  assumes "2 * maxBytes r + 1 \<le> length (unread r)"
  shows "ReadReply (r\<lparr>unread := unread r @ v\<rparr>) =
    (case ReadReply r of Inl e \<Rightarrow> Inl e | Inr (reply, r') \<Rightarrow> Inr (reply, r'\<lparr>unread := unread r' @ v\<rparr>))"
proof (cases "readLine (maxBytes r) (maxBytes r) (unread r)")
  case (Inl e)
  then show ?thesis using assms by (simp add: ReadReply_def readLine_append)
next
  case (Inr x)
  obtain line used rest where x: "x = (line, used, rest)" by (cases x)
  with Inr have l: "readLine (maxBytes r) (maxBytes r) (unread r) = Inr (line, used, rest)" by simp
  from readLine_Inr [OF l] have "maxBytes r + 1 + (maxBytes r - used) \<le> length rest" "used \<le> maxBytes r"
    using assms by auto
  note more = more_lines_append [OF this]
  have l': "readLine (maxBytes r) (maxBytes r) (unread r @ v) = Inr (line, used, rest @ v)"
    using assms l by (simp add: readLine_append)
  show ?thesis
  proof (cases "parseFTPReplyStart line")
    case (Inl e)
    then show ?thesis by (simp add: ReadReply_def l l')
  next
    case (Inr y)
    obtain code sep where "y = (code, sep)" by (cases y)
    with Inr show ?thesis
      by (cases "more_lines (maxBytes r) used (terminator_of code) [line] rest") (auto simp: ReadReply_def l l' more)
  qed
qed

theorem ReadReply_decides_witness:
  "ReadReply \<lparr>unread = replicate 9 CHR ''a'' @ replicate 1000 CHR ''b'', maxBytes = 4\<rparr> = Inl ReplyTooLong"
proof -
  let ?r = "\<lparr>unread = replicate 9 CHR ''a'', maxBytes = 4\<rparr>"
  have "ReadReply ?r = Inl ReplyTooLong"
    by (simp add: ReadReply_def readLine_def ReadSlice_def takeWhile_replicate)
  then show ?thesis using ReadReply_decides [of ?r "replicate 1000 CHR ''b''"] by simp
qed

text \<open>C36: every well-formed reply is read back. A reply of one line, and a reply of several lines whose middle
  lines do not look like its end, is read as its code and its lines as long as it fits the bound, and what
  follows it is left for the next reply.\<close>

theorem ReadReply_roundtrip:
  assumes "100 \<le> code" and "code \<le> 599" and "newline \<notin> set first" and "newline \<notin> set lst"
    and "\<forall>l \<in> set mids. newline \<notin> set l \<and> \<not> HasPrefix l (Itoa code @ '' '')"
    and "length (crlf (Itoa code @ CHR ''-'' # first) @ concat (map crlf mids) @ crlf (Itoa code @ CHR '' '' # lst)) \<le> m"
  shows "ReadReply \<lparr>unread = crlf (Itoa code @ CHR '' '' # lst) @ rest, maxBytes = m\<rparr> =
      Inr (\<lparr>replyCode = code, replyBody = Itoa code @ CHR '' '' # lst\<rparr>, \<lparr>unread = rest, maxBytes = m\<rparr>) \<and>
    ReadReply \<lparr>unread = crlf (Itoa code @ CHR ''-'' # first) @ concat (map crlf mids) @
        crlf (Itoa code @ CHR '' '' # lst) @ rest, maxBytes = m\<rparr> =
      Inr (\<lparr>replyCode = code,
            replyBody = Join ((Itoa code @ CHR ''-'' # first) # mids @ [Itoa code @ CHR '' '' # lst]) [newline]\<rparr>,
        \<lparr>unread = rest, maxBytes = m\<rparr>)"
proof -
  have "all_digits (Itoa code)" using assms(1) by (intro Itoa_digits) simp
  then have nl: "newline \<notin> set (Itoa code)" by (auto simp: all_digits_def list_all_iff is_digit_def)
  have line: "readLine m m (crlf (Itoa code @ sep # t) @ tail) = Inr (Itoa code @ sep # t, length (Itoa code @ sep # t) + 2, tail)"
    if "newline \<notin> set t" "sep \<noteq> newline" "length (crlf (Itoa code @ sep # t)) \<le> m" for sep t tail
    using that nl by (intro readLine_text) (auto simp: crlf_def)
  have more: "more_lines m (length (crlf (Itoa code @ CHR ''-'' # first))) (Itoa code @ '' '') [Itoa code @ CHR ''-'' # first]
      (concat (map crlf mids) @ crlf (Itoa code @ CHR '' '' # lst) @ rest) =
      Inr ([Itoa code @ CHR ''-'' # first] @ mids @ [Itoa code @ CHR '' '' # lst], rest)"
    using assms nl by (intro more_lines_text) (auto simp: HasPrefix_def)
  have len: "length (crlf l) = length l + 2" for l by (simp add: crlf_def)
  show ?thesis
    using assms more line [of lst "CHR '' ''" rest]
      line [of first "CHR ''-''" "concat (map crlf mids) @ crlf (Itoa code @ CHR '' '' # lst) @ rest"]
    by (simp add: ReadReply_def parseFTPReplyStart_text terminator_code len)
qed

theorem ReadReply_roundtrip_witness:
  "ReadReply \<lparr>unread = crlf ''220-hello'' @ crlf ''220 ready'' @ crlf ''331 next'', maxBytes = 64\<rparr> =
     Inr (\<lparr>replyCode = 220, replyBody = ''220-hello'' @ newline # ''220 ready''\<rparr>,
       \<lparr>unread = crlf ''331 next'', maxBytes = 64\<rparr>)"
proof -
  have "Itoa 220 = ''220''" by (simp add: go_defs go_loops)
  then show ?thesis
    using ReadReply_roundtrip [of 220 "''hello''" "''ready''" "[]" 64 "crlf ''331 next''"] by (simp add: crlf_def)
qed

text \<open>Passive replies are read exactly. The port of an \<^verbatim>\<open>EPSV\<close> or a \<^verbatim>\<open>PASV\<close> reply is always from 1 to 65535, and
  every port in that range survives the round trip through the text of a reply, whatever address a \<^verbatim>\<open>PASV\<close>
  reply names.\<close>

theorem passive_port_roundtrip:
  "(parseEPSVPort b = Inr p \<or> parsePASVPort b = Inr p \<longrightarrow> 1 \<le> p \<and> p \<le> 65535) \<and>
   (1 \<le> q \<and> q \<le> 65535 \<longrightarrow>
      parseEPSVPort (''229 Entering Extended Passive Mode (|||'' @ Itoa q @ ''|)'') = Inr q) \<and>
   (0 \<le> hi \<and> hi \<le> 255 \<and> 0 \<le> lo \<and> lo \<le> 255 \<and> hi * 256 + lo \<noteq> 0 \<and>
    list_all (\<lambda>n. 0 \<le> n \<and> n \<le> 255) [a1, a2, a3, a4] \<longrightarrow>
      parsePASVPort (''227 Entering Passive Mode ('' @ Join (map Itoa [a1, a2, a3, a4, hi, lo]) '','' @ '')'') =
        Inr (hi * 256 + lo))"
proof (intro conjI impI)
  assume "parseEPSVPort b = Inr p \<or> parsePASVPort b = Inr p"
  then show "1 \<le> p" "p \<le> 65535" using parseEPSVPort_range parsePASVPort_range by blast+
next
  assume q: "1 \<le> q \<and> q \<le> 65535"
  have d: "all_digits (Itoa q)" using q by (intro Itoa_digits) simp
  then have plain: "CHR ''|'' \<notin> set (Itoa q)" "CHR '')'' \<notin> set (Itoa q)" "Itoa q \<noteq> []"
    by (auto simp: all_digits_def list_all_iff is_digit_def)
  have "ftpParenthesizedReply (''229 Entering Extended Passive Mode '' @ ''('' @ (''|||'' @ Itoa q @ ''|'') @ '')'' @ []) ''EPSV'' =
      Inr (''|||'' @ Itoa q @ ''|'')"
    using plain by (intro ftpParenthesizedReply_text) auto
  moreover have "Split (''|||'' @ Itoa q @ ''|'') CHR ''|'' = [[], [], [], Itoa q, []]"
    using plain by (simp add: Split_append_sep)
  moreover have "parseFTPPort (Itoa q) c b' = Inr q" for c b'
    using q d Atoi_Itoa [of q] by (simp add: parseFTPPort_def TrimSpace_digits)
  ultimately show "parseEPSVPort (''229 Entering Extended Passive Mode (|||'' @ Itoa q @ ''|)'') = Inr q"
    using plain(3) by (cases "Itoa q") (simp_all add: parseEPSVPort_def)
next
  assume a: "0 \<le> hi \<and> hi \<le> 255 \<and> 0 \<le> lo \<and> lo \<le> 255 \<and> hi * 256 + lo \<noteq> 0 \<and>
    list_all (\<lambda>n. 0 \<le> n \<and> n \<le> 255) [a1, a2, a3, a4]"
  let ?vs = "[a1, a2, a3, a4, hi, lo]" and ?t = "Join (map Itoa [a1, a2, a3, a4, hi, lo]) '',''"
  have d: "all_digits (Itoa v)" if "v \<in> set ?vs" for v using a that by (intro Itoa_digits) auto
  then have plain: "CHR '','' \<notin> set (Itoa v)" "CHR '')'' \<notin> set (Itoa v)" if "v \<in> set ?vs" for v
    using d [OF that] by (auto simp: all_digits_def list_all_iff is_digit_def)
  have "Split ?t CHR '','' = map Itoa ?vs" using plain by (intro Split_Join) auto
  moreover have "ftpParenthesizedReply (''227 Entering Passive Mode '' @ ''('' @ ?t @ '')'' @ []) ''PASV'' = Inr ?t"
    using plain by (intro ftpParenthesizedReply_text) auto
  moreover have "pasv_values (map Itoa ?vs) = Some ?vs" using a by (simp add: pasv_value_Itoa)
  ultimately show "parsePASVPort (''227 Entering Passive Mode ('' @ ?t @ '')'') = Inr (hi * 256 + lo)"
    using a by (simp add: parsePASVPort_def)
qed

theorem passive_port_roundtrip_witness:
  "parseEPSVPort (''229 Entering Extended Passive Mode (|||'' @ Itoa 2121 @ ''|)'') = Inr 2121"
  using passive_port_roundtrip [of "[]" 0 2121 0 1 0 0 0 0] by simp

end
