(* ===== verification/Ftp.thy ===== *)
theory Ftp
  imports Ftp_Reply Operation
begin

text \<open>
  The FTP connector of \<^verbatim>\<open>connector/ftp.go\<close>: the session that \<^verbatim>\<open>operate\<close> runs on a control and a data
  connection, and the body it hands out. The network and the FTP server are a parameter, \<open>ftp_peer\<close>, on a
  state \<open>'s\<close>; the session is written in a monad of state and errors whose laws carry the proofs.
\<close>

section \<open>The outside\<close>

text \<open>
  \<open>dial_tcp\<close>: a dial, answered by the text of the remote address (\<open>None\<close> when the connection has none).
  \<open>greeting\<close>: what the server sends unasked. \<open>send_control\<close>: bytes written to the control connection,
  answered by an error or by what the server sends before it waits again. \<open>data_source\<close>: what the data
  connection delivers; \<open>data_room\<close>: how many bytes it takes before it fails; \<open>data_put\<close>: bytes written to it;
  \<open>data_done\<close>: what the server sends on the control connection once the data connection is closed or at its
  end. \<open>ctx_done\<close>: whether the request was cancelled.
\<close>

record 's ftp_peer =
  dial_tcp :: "string \<Rightarrow> 's \<Rightarrow> 's \<times> (err, string option) result"
  greeting :: "'s \<Rightarrow> string"
  send_control :: "string \<Rightarrow> 's \<Rightarrow> 's \<times> (err, string) result"
  data_source :: "'s \<Rightarrow> stream"
  data_room :: "'s \<Rightarrow> nat option"
  data_put :: "string \<Rightarrow> 's \<Rightarrow> 's"
  data_done :: "'s \<Rightarrow> string"
  ctx_done :: "'s \<Rightarrow> bool"

datatype conn_status = Unopened | Opened | Closed

record 's ftp_session =
  world :: 's
  replies :: ftpReplyReader
  control_conn :: conn_status
  data_conn :: conn_status
  transferOwned :: bool

type_synonym ('s, 'a) ftp = "'s ftp_session \<Rightarrow> 's ftp_session \<times> (err, 'a) result"

definition ftp_return :: "'a \<Rightarrow> ('s, 'a) ftp" where
  "ftp_return a st = (st, Inr a)"

definition ftp_fail :: "err \<Rightarrow> ('s, 'a) ftp" where
  "ftp_fail e st = (st, Inl e)"

definition ftp_bind :: "('s, 'a) ftp \<Rightarrow> ('a \<Rightarrow> ('s, 'b) ftp) \<Rightarrow> ('s, 'b) ftp" where
  "ftp_bind m k st = (case m st of (st', Inl e) \<Rightarrow> (st', Inl e) | (st', Inr a) \<Rightarrow> k a st')"

section \<open>Commands and replies\<close>

definition reply_error :: "ftp_error \<Rightarrow> err" where
  "reply_error e = [OtherError ''ftp reply'']"

definition readFTPReply :: "('s, ftpReply) ftp" where
  "readFTPReply st =
     (case ReadReply (replies st) of
        Inl e \<Rightarrow> (st, Inl (reply_error e))
      | Inr (reply, r) \<Rightarrow> (st\<lparr>replies := r\<rparr>, Inr reply))"

text \<open>\<^verbatim>\<open>writeFTPCommand\<close>: the line and \<^verbatim>\<open>PrintfLine\<close>'s line end.\<close>

definition command_line :: "string \<Rightarrow> string list \<Rightarrow> string" where
  "command_line command args =
     (if args \<noteq> [] \<and> TrimSpace (hd args) \<noteq> [] then command @ '' '' @ Join args '' '' else command)"

definition writeFTPCommand :: "'s ftp_peer \<Rightarrow> string \<Rightarrow> string list \<Rightarrow> ('s, unit) ftp" where
  "writeFTPCommand peer command args st =
     (case send_control peer (crlf (command_line command args)) (world st) of
        (w, Inl e) \<Rightarrow> (st\<lparr>world := w\<rparr>, Inl e)
      | (w, Inr bytes) \<Rightarrow>
          (st\<lparr>world := w, replies := (replies st)\<lparr>unread := unread (replies st) @ bytes\<rparr>\<rparr>, Inr ()))"

text \<open>A command and the reply to it.\<close>

definition ask :: "'s ftp_peer \<Rightarrow> string \<Rightarrow> string list \<Rightarrow> ('s, ftpReply) ftp" where
  "ask peer command args = ftp_bind (writeFTPCommand peer command args) (\<lambda>_. readFTPReply)"

definition ftpOutcome :: "int \<Rightarrow> Outcome" where
  "ftpOutcome code =
     (if code = 530 \<or> code = 532 then OutcomePermissionDenied
      else if code = 550 then OutcomeNotFound
      else OutcomeUpstreamFailure)"

definition outcome_result :: "Outcome \<Rightarrow> OpResult" where
  "outcome_result o' = \<lparr>resOutcome = o', resStatus = 0, resMetadata = [], resBody = None\<rparr>"

section \<open>Login, passive mode\<close>

text \<open>\<open>Some\<close> outcome when the session ends here.\<close>

definition ftp_login :: "'s ftp_peer \<Rightarrow> ('s, Outcome option) ftp" where
  "ftp_login peer =
     ftp_bind readFTPReply (\<lambda>_.
     ftp_bind (ask peer ''USER'' [''anonymous'']) (\<lambda>reply.
       if replyCode reply \<noteq> 331 \<and> replyCode reply \<noteq> 230
       then ftp_return (Some (ftpOutcome (replyCode reply)))
       else if replyCode reply = 331 then
         ftp_bind (ask peer ''PASS'' [''anonymous@example.com'']) (\<lambda>reply'.
           if replyCode reply' \<noteq> 230 then ftp_return (Some (ftpOutcome (replyCode reply')))
           else ftp_return None)
       else ftp_return None))"

definition ftp_type :: "'s ftp_peer \<Rightarrow> ('s, unit) ftp" where
  "ftp_type peer =
     ftp_bind (ask peer ''TYPE'' [''I'']) (\<lambda>reply.
       if replyCode reply \<noteq> 200 then ftp_fail [OtherError ''ftp TYPE rejected''] else ftp_return ())"

text \<open>\<^verbatim>\<open>net.ParseIP\<close> and \<^verbatim>\<open>IP.String\<close>: an address without a zone, IPv4-mapped ones as IPv4.\<close>

definition ftpControlPeerIP :: "string option \<Rightarrow> string option" where
  "ftpControlPeerIP remote =
     (case remote of
        None \<Rightarrow> None
      | Some text \<Rightarrow>
          (case SplitHostPort text of
             None \<Rightarrow> None
           | Some (host, _) \<Rightarrow>
               (case ParseAddr host of
                  None \<Rightarrow> None
                | Some ip \<Rightarrow> if hasZone ip then None else Some (AddrString (Unmap ip)))))"

definition passive_result :: "string \<Rightarrow> (ftp_error, int) result \<Rightarrow> ('s, string) ftp" where
  "passive_result peerIP r =
     (case r of
        Inl e \<Rightarrow> ftp_fail (reply_error e)
      | Inr port \<Rightarrow> ftp_return (JoinHostPort peerIP (Itoa port)))"

definition ftpPassiveAddress :: "'s ftp_peer \<Rightarrow> string option \<Rightarrow> ('s, string) ftp" where
  "ftpPassiveAddress peer remote =
     (case ftpControlPeerIP remote of
        None \<Rightarrow> ftp_fail [OtherError ''ftp control peer address'']
      | Some ip \<Rightarrow>
          ftp_bind (ask peer ''EPSV'' []) (\<lambda>reply.
            if replyCode reply = 229 then passive_result ip (parseEPSVPort (replyBody reply))
            else if \<not> ftpEPSVUnsupported (replyCode reply) then ftp_fail [OtherError ''ftp EPSV rejected'']
            else
              ftp_bind (ask peer ''PASV'' []) (\<lambda>reply'.
                if replyCode reply' \<noteq> 227 then ftp_fail [OtherError ''ftp PASV rejected'']
                else passive_result ip (parsePASVPort (replyBody reply')))))"

definition dial_data :: "'s ftp_peer \<Rightarrow> string \<Rightarrow> ('s, unit) ftp" where
  "dial_data peer address st =
     (case dial_tcp peer address (world st) of
        (w, Inl e) \<Rightarrow> (st\<lparr>world := w\<rparr>, Inl (OtherError ''dial ftp data'' # e))
      | (w, Inr _) \<Rightarrow> (st\<lparr>world := w, data_conn := Opened\<rparr>, Inr ()))"

section \<open>The body of a transfer\<close>

record ftpTransferBody =
  tData :: stream
  tReader :: ftpReplyReader
  tCancelled :: bool
  tClosed :: bool
  tDataOpen :: bool
  tControlOpen :: bool

datatype read_error =
    ReadEOF
  | ReadClosedPipe
  | ReadCancelled
  | ReadDataError err
  | ReadCompletionError ftp_error
  | ReadRejected int

definition finish :: "ftpTransferBody \<Rightarrow> ftpTransferBody" where
  "finish b = (if tClosed b then b else b\<lparr>tClosed := True, tDataOpen := False, tControlOpen := False\<rparr>)"

text \<open>\<^verbatim>\<open>Read\<close> into a buffer of \<open>n\<close> bytes: the new state, the bytes, the error. The data connection reports its
  end alone, as TCP connections do.\<close>

definition Read :: "nat \<Rightarrow> ftpTransferBody \<Rightarrow> ftpTransferBody \<times> string \<times> read_error option" where
  "Read n b =
     (if tClosed b then (b, [], Some ReadClosedPipe)
      else if n = 0 \<or> content (tData b) \<noteq> [] then
        (b\<lparr>tData := (tData b)\<lparr>content := drop n (content (tData b))\<rparr>\<rparr>, take n (content (tData b)), None)
      else if tCancelled b then (finish b, [], Some ReadCancelled)
      else (case stream_end (tData b) of
        StreamError e \<Rightarrow> (finish b, [], Some (ReadDataError e))
      | StreamEOF \<Rightarrow>
          (let b' = b\<lparr>tDataOpen := False\<rparr> in
           case ReadReply (tReader b') of
             Inl e \<Rightarrow> (finish b', [], Some (ReadCompletionError e))
           | Inr (reply, r) \<Rightarrow>
               (let b'' = b'\<lparr>tReader := r\<rparr> in
                if replyCode reply < 200 \<or> 299 < replyCode reply
                then (finish b'', [], Some (ReadRejected (replyCode reply)))
                else (finish b'', [], Some ReadEOF)))))"

definition Close :: "ftpTransferBody \<Rightarrow> ftpTransferBody" where
  "Close b = finish b"

text \<open>What a reader that reads on until an error sees.\<close>

fun run_reads :: "nat list \<Rightarrow> ftpTransferBody \<Rightarrow> ftpTransferBody \<times> string \<times> read_error option" where
  "run_reads [] b = (b, [], None)"
| "run_reads (n # ns) b =
     (case Read n b of
        (b', out, Some e) \<Rightarrow> (b', out, Some e)
      | (b', out, None) \<Rightarrow> (case run_reads ns b' of (b'', out', e) \<Rightarrow> (b'', out @ out', e)))"

text \<open>The same as a stream.\<close>

definition body_end :: "ftpTransferBody \<Rightarrow> read_error" where
  "body_end b =
     (if tClosed b then ReadClosedPipe
      else if tCancelled b then ReadCancelled
      else (case stream_end (tData b) of
        StreamError e \<Rightarrow> ReadDataError e
      | StreamEOF \<Rightarrow>
          (case ReadReply (tReader b) of
             Inl e \<Rightarrow> ReadCompletionError e
           | Inr (reply, r) \<Rightarrow>
               if replyCode reply < 200 \<or> 299 < replyCode reply then ReadRejected (replyCode reply) else ReadEOF)))"

definition body_stream :: "ftpTransferBody \<Rightarrow> stream" where
  "body_stream b =
     \<lparr>content = content (tData b),
      stream_end = (if body_end b = ReadEOF then StreamEOF else StreamError [OtherError ''ftp transfer''])\<rparr>"

section \<open>Transfers\<close>

definition close_data :: "('s, unit) ftp" where
  "close_data st = (st\<lparr>data_conn := Closed\<rparr>, Inr ())"

definition upload :: "'s ftp_peer \<Rightarrow> stream \<Rightarrow> ('s, unit) ftp" where
  "upload peer body st =
     (case io_Copy (data_room peer (world st)) body of (out, ok) \<Rightarrow>
        (st\<lparr>world := data_put peer out (world st)\<rparr>,
         if ok then Inr ()
         else Inl (OtherError ''ftp STOR data copy'' # (case stream_end body of StreamError e \<Rightarrow> e | StreamEOF \<Rightarrow> []))))"

text \<open>The completion reply arrives once the data connection is closed.\<close>

definition await_completion :: "'s ftp_peer \<Rightarrow> ('s, unit) ftp" where
  "await_completion peer st =
     (st\<lparr>replies := (replies st)\<lparr>unread := unread (replies st) @ data_done peer (world st)\<rparr>\<rparr>, Inr ())"

definition send_body :: "'s ftp_peer \<Rightarrow> stream option \<Rightarrow> ('s, OpResult) ftp" where
  "send_body peer body =
     ftp_bind (upload peer (case body of None \<Rightarrow> empty_stream | Some b \<Rightarrow> b)) (\<lambda>_.
     ftp_bind close_data (\<lambda>_.
     ftp_bind (await_completion peer) (\<lambda>_.
     ftp_bind readFTPReply (\<lambda>reply.
       if replyCode reply < 200 \<or> 299 < replyCode reply
       then ftp_return (outcome_result (ftpOutcome (replyCode reply)))
       else ftp_return (outcome_result OutcomeSuccess)))))"

definition ftp_store :: "'s ftp_peer \<Rightarrow> string \<Rightarrow> stream option \<Rightarrow> ('s, OpResult) ftp" where
  "ftp_store peer path body =
     ftp_bind (ask peer ''STOR'' [path]) (\<lambda>reply.
       if replyCode reply < 100 \<or> 199 < replyCode reply then ftp_return (outcome_result (ftpOutcome (replyCode reply)))
       else send_body peer body)"

text \<open>The body that a started transfer hands out, with the completion reply to come.\<close>

definition transfer_body :: "'s ftp_peer \<Rightarrow> 's ftp_session \<Rightarrow> ftpTransferBody" where
  "transfer_body peer st =
     \<lparr>tData = data_source peer (world st),
      tReader = (replies st)\<lparr>unread := unread (replies st) @ data_done peer (world st)\<rparr>,
      tCancelled = ctx_done peer (world st), tClosed = False, tDataOpen = True, tControlOpen = True\<rparr>"

definition ftp_retrieve :: "'s ftp_peer \<Rightarrow> string \<Rightarrow> string \<Rightarrow> ('s, OpResult) ftp" where
  "ftp_retrieve peer command path =
     ftp_bind (ask peer command [path]) (\<lambda>reply.
       if replyCode reply < 100 \<or> 199 < replyCode reply then ftp_return (outcome_result (ftpOutcome (replyCode reply)))
       else (\<lambda>st. (st\<lparr>transferOwned := True\<rparr>,
              Inr (outcome_result OutcomeSuccess\<lparr>resBody := Some (body_stream (transfer_body peer st))\<rparr>))))"

definition ftp_command :: "string \<Rightarrow> string" where
  "ftp_command meth =
     (let command = ToUpper meth in
      if command = ''PUT'' then ''STOR'' else if command = ''LIST'' then ''LIST'' else if command = ''GET'' then ''RETR''
      else command)"

definition ftp_transfer :: "'s ftp_peer \<Rightarrow> string \<Rightarrow> string \<Rightarrow> stream option \<Rightarrow> ('s, OpResult) ftp" where
  "ftp_transfer peer meth path body =
     (let command = ftp_command meth in
      if command = ''STOR'' then ftp_store peer path body
      else if command = ''RETR'' then ftp_retrieve peer ''RETR'' path
      else if command = ''LIST'' then ftp_retrieve peer ''LIST'' path
      else ftp_fail [OtherError ''unsupported ftp command''])"

section \<open>The operation\<close>

definition ftp_dialogue ::
    "'s ftp_peer \<Rightarrow> string option \<Rightarrow> string \<Rightarrow> string \<Rightarrow> stream option \<Rightarrow> ('s, OpResult) ftp" where
  "ftp_dialogue peer remote meth path body =
     ftp_bind (ftp_login peer) (\<lambda>early.
       case early of
         Some x \<Rightarrow> ftp_return (outcome_result x)
       | None \<Rightarrow>
           ftp_bind (ftp_type peer) (\<lambda>_.
           ftp_bind (ftpPassiveAddress peer remote) (\<lambda>pasv.
           ftp_bind (dial_data peer pasv) (\<lambda>_. ftp_transfer peer meth path body))))"

text \<open>The deferred closes: what the transfer does not own.\<close>

definition release :: "'s ftp_session \<Rightarrow> 's ftp_session" where
  "release st =
     (if transferOwned st then st
      else st\<lparr>control_conn := Closed, data_conn := (if data_conn st = Opened then Closed else data_conn st)\<rparr>)"

definition start_session :: "'s ftp_peer \<Rightarrow> int \<Rightarrow> 's \<Rightarrow> 's ftp_session" where
  "start_session peer maxReply w =
     \<lparr>world = w, replies = newFTPReplyReader (greeting peer w) maxReply, control_conn = Opened,
      data_conn = Unopened, transferOwned = False\<rparr>"

definition operate_session ::
    "'s ftp_peer \<Rightarrow> int \<Rightarrow> string \<Rightarrow> string \<Rightarrow> stream option \<Rightarrow> 's \<Rightarrow>
       ('s + 's ftp_session) \<times> (err, OpResult) result" where
  "operate_session peer maxReply meth resource body s =
     (case parseFTPResource resource of
        Inl _ \<Rightarrow> (Inl s, Inl [InvalidResource])
      | Inr target \<Rightarrow>
          (case dial_tcp peer (ftHost target) s of
             (w, Inl e) \<Rightarrow> (Inl w, Inl (OtherError ''dial ftp control'' # e))
           | (w, Inr remote) \<Rightarrow>
               (case ftp_dialogue peer remote meth (ftPath target) body (start_session peer maxReply w) of
                  (st, r) \<Rightarrow> (Inr (release st), r))))"

definition outer_world :: "'s + 's ftp_session \<Rightarrow> 's" where
  "outer_world x = (case x of Inl s \<Rightarrow> s | Inr st \<Rightarrow> world st)"

definition operate ::
    "'s ftp_peer \<Rightarrow> int \<Rightarrow> string \<Rightarrow> string \<Rightarrow> stream option \<Rightarrow> 's \<Rightarrow> 's \<times> (err, OpResult) result" where
  "operate peer maxReply meth resource body s =
     (case operate_session peer maxReply meth resource body s of (x, r) \<Rightarrow>
        (outer_world x,
         case r of
           Inl e \<Rightarrow> Inl (if ctx_done peer (outer_world x) then [OtherError ''context done''] else e)
         | Inr res \<Rightarrow> Inr res))"

section \<open>The connector\<close>

text \<open>Times are in nanoseconds. \<^verbatim>\<open>NewFTP\<close> always sets the dialer, \<^verbatim>\<open>net.Dialer\<close> if it is given none, so the check of
  \<^verbatim>\<open>operate\<close> for a missing one is left out. A deadline that is not positive is not set.\<close>

record 's FTP =
  ftpDialer :: "'s ftp_peer"
  dialTimeout :: int
  controlTimeout :: int
  dataTimeout :: int
  maxReplyBytes :: int

definition defaultFTPDialTimeout :: int where "defaultFTPDialTimeout = 10000000000"
definition defaultFTPControlTimeout :: int where "defaultFTPControlTimeout = 30000000000"
definition defaultFTPDataTimeout :: int where "defaultFTPDataTimeout = 120000000000"

definition NewFTP :: "'s ftp_peer \<Rightarrow> 's ftp_peer option \<Rightarrow> 's FTP" where
  "NewFTP net_dialer dialer =
     \<lparr>ftpDialer = (case dialer of None \<Rightarrow> net_dialer | Some d \<Rightarrow> d), dialTimeout = defaultFTPDialTimeout,
      controlTimeout = defaultFTPControlTimeout, dataTimeout = defaultFTPDataTimeout, maxReplyBytes = int defaultFTPMaxReplyBytes\<rparr>"

definition dialTimeoutValue :: "'s FTP \<Rightarrow> int" where
  "dialTimeoutValue f = (if dialTimeout f \<le> 0 then defaultFTPDialTimeout else dialTimeout f)"

definition controlTimeoutValue :: "'s FTP \<Rightarrow> int" where
  "controlTimeoutValue f = (if controlTimeout f > 0 then controlTimeout f else defaultFTPControlTimeout)"

definition dataTimeoutValue :: "'s FTP \<Rightarrow> int" where
  "dataTimeoutValue f = (if dataTimeout f > 0 then dataTimeout f else defaultFTPDataTimeout)"

definition maxReplyBytesValue :: "'s FTP \<Rightarrow> int" where
  "maxReplyBytesValue f = (if maxReplyBytes f > 0 then maxReplyBytes f else int defaultFTPMaxReplyBytes)"

definition ftpDeadline :: "int \<Rightarrow> int option" where
  "ftpDeadline timeout = (if timeout > 0 then Some timeout else None)"

definition FTP_Fetch :: "'s FTP \<Rightarrow> ('s, FetchOp) operate" where
  "FTP_Fetch f fetch s =
     (if fMethod fetch \<noteq> ''GET'' then (s, Inl (OtherError ''unsupported ftp fetch method'' # ErrUnsupported))
      else operate (ftpDialer f) (maxReplyBytesValue f) (fMethod fetch) (fResource fetch) (fBody fetch) s)"

definition FTP_List :: "'s FTP \<Rightarrow> ('s, ListOp) operate" where
  "FTP_List f list s = operate (ftpDialer f) (maxReplyBytesValue f) ''LIST'' (lResource list) None s"

definition FTP_Store :: "'s FTP \<Rightarrow> ('s, StoreOp) operate" where
  "FTP_Store f store s =
     (if stMethod store \<noteq> ''PUT'' then (s, Inl (OtherError ''unsupported ftp store method'' # ErrUnsupported))
      else operate (ftpDialer f) (maxReplyBytesValue f) (stMethod store) (stResource store) (stBody store) s)"

text \<open>Whatever the fields are set to, nothing blocks for ever: dialling has a time limit, every read and write on the
  control and data connections has a deadline, and the reply reader has a bound.\<close>

lemma ftp_limits:
  "dialTimeoutValue f > 0 \<and> ftpDeadline (controlTimeoutValue f) = Some (controlTimeoutValue f) \<and>
    ftpDeadline (dataTimeoutValue f) = Some (dataTimeoutValue f) \<and> maxReplyBytesValue f > 0"
  by (simp add: dialTimeoutValue_def controlTimeoutValue_def dataTimeoutValue_def maxReplyBytesValue_def ftpDeadline_def
      defaultFTPDialTimeout_def defaultFTPControlTimeout_def defaultFTPDataTimeout_def defaultFTPMaxReplyBytes_def)

section \<open>Laws of the session monad\<close>

lemma ftp_bind_Inr:
  "ftp_bind m k st = (st', Inr b) \<longleftrightarrow> (\<exists>st1 a. m st = (st1, Inr a) \<and> k a st1 = (st', Inr b))"
  by (auto simp: ftp_bind_def split: prod.splits sum.splits)

lemma ftp_bind_step: "m st = (st', Inr a) \<Longrightarrow> ftp_bind m k st = k a st'"
  by (simp add: ftp_bind_def)

lemma ftp_bind_cong:
  assumes "m st = m' st" and "\<And>st1 a. m' st = (st1, Inr a) \<Longrightarrow> k a st1 = k' a st1"
  shows "ftp_bind m k st = ftp_bind m' k' st"
  using assms by (auto simp: ftp_bind_def split: prod.splits sum.splits)

text \<open>An invariant of the session, and the relation between the outcome and the session at its end.\<close>

definition ftp_keeps :: "('s ftp_session \<Rightarrow> bool) \<Rightarrow> ('s, 'a) ftp \<Rightarrow> bool" where
  "ftp_keeps I m \<longleftrightarrow> (\<forall>st. I st \<longrightarrow> I (fst (m st)))"

definition ftp_ends :: "('s ftp_session \<Rightarrow> bool) \<Rightarrow> ('s, 'a) ftp \<Rightarrow> ('s ftp_session \<Rightarrow> (err, 'a) result \<Rightarrow> bool) \<Rightarrow> bool" where
  "ftp_ends I m Q \<longleftrightarrow> (\<forall>st st' r. I st \<longrightarrow> m st = (st', r) \<longrightarrow> Q st' r)"

lemma ftp_keeps_bind:
  "ftp_keeps I m \<Longrightarrow> (\<And>a. ftp_keeps I (k a)) \<Longrightarrow> ftp_keeps I (ftp_bind m k)"
  by (force simp: ftp_keeps_def ftp_bind_def split: prod.splits sum.splits)

lemma ftp_keeps_return [simp]: "ftp_keeps I (ftp_return a)" "ftp_keeps I (ftp_fail e)"
  by (simp_all add: ftp_keeps_def ftp_return_def ftp_fail_def)

lemma ftp_ends_bind:
  assumes "ftp_keeps I m" and "\<And>a. ftp_ends I (k a) Q" and "\<And>st e. I st \<Longrightarrow> Q st (Inl e)"
  shows "ftp_ends I (ftp_bind m k) Q"
  using assms unfolding ftp_ends_def ftp_keeps_def ftp_bind_def
  by (fastforce split: prod.splits sum.splits)

lemma ftp_ends_return: "(\<And>st. I st \<Longrightarrow> Q st (Inr a)) \<Longrightarrow> ftp_ends I (ftp_return a) Q"
  by (simp add: ftp_ends_def ftp_return_def)

lemma ftp_ends_fail: "(\<And>st. I st \<Longrightarrow> Q st (Inl e)) \<Longrightarrow> ftp_ends I (ftp_fail e) Q"
  by (simp add: ftp_ends_def ftp_fail_def)

section \<open>Who owns the connections\<close>

definition session_open :: "'s ftp_session \<Rightarrow> bool" where
  "session_open st \<longleftrightarrow> control_conn st = Opened \<and> \<not> transferOwned st"

definition data_ready :: "'s ftp_session \<Rightarrow> bool" where
  "data_ready st \<longleftrightarrow> session_open st \<and> data_conn st = Opened"

lemma keeps_ask: "(\<And>st w r. I st \<Longrightarrow> I (st\<lparr>world := w, replies := r\<rparr>)) \<Longrightarrow> (\<And>st w. I st \<Longrightarrow> I (st\<lparr>world := w\<rparr>)) \<Longrightarrow>
    (\<And>st r. I st \<Longrightarrow> I (st\<lparr>replies := r\<rparr>)) \<Longrightarrow> ftp_keeps I (ask peer command args)"
  unfolding ask_def
  by (rule ftp_keeps_bind) (auto simp: ftp_keeps_def writeFTPCommand_def readFTPReply_def split: prod.splits sum.splits)

lemma open_ask [simp]: "ftp_keeps session_open (ask peer command args)"
  by (rule keeps_ask) (simp_all add: session_open_def)

lemma ready_ask [simp]: "ftp_keeps data_ready (ask peer command args)"
  by (rule keeps_ask) (simp_all add: data_ready_def session_open_def)

lemma open_read [simp]: "ftp_keeps session_open readFTPReply"
  by (auto simp: ftp_keeps_def readFTPReply_def session_open_def split: sum.splits)

lemma open_passive_result [simp]: "ftp_keeps I (passive_result ip r)"
  by (cases r) (simp_all add: passive_result_def)

lemma open_login [simp]: "ftp_keeps session_open (ftp_login peer)"
  unfolding ftp_login_def by (intro ftp_keeps_bind open_read open_ask) (auto intro!: ftp_keeps_bind)

lemma open_type [simp]: "ftp_keeps session_open (ftp_type peer)"
  unfolding ftp_type_def by (intro ftp_keeps_bind open_ask) auto

lemma open_passive [simp]: "ftp_keeps session_open (ftpPassiveAddress peer remote)"
  unfolding ftpPassiveAddress_def by (cases "ftpControlPeerIP remote") (auto intro!: ftp_keeps_bind)

text \<open>What holds when a dialogue is over: the connections are handed over with a body, or still to be closed.\<close>

definition dialogue_over :: "'s ftp_session \<Rightarrow> (err, OpResult) result \<Rightarrow> bool" where
  "dialogue_over st r \<longleftrightarrow>
     (if transferOwned st then
        control_conn st = Opened \<and> data_conn st = Opened \<and>
        (\<exists>res. r = Inr res \<and> resOutcome res = OutcomeSuccess \<and> resBody res \<noteq> None)
      else control_conn st = Opened \<and> (\<forall>res. r = Inr res \<longrightarrow> resBody res = None))"

lemma over_plain: "session_open st \<Longrightarrow> dialogue_over st (Inl e)"
    "session_open st \<Longrightarrow> dialogue_over st (Inr (outcome_result x))"
  by (simp_all add: dialogue_over_def session_open_def outcome_result_def)

lemma data_ready_open: "data_ready st \<Longrightarrow> session_open st"
  by (simp add: data_ready_def)

lemma over_send_body: "ftp_ends data_ready (send_body peer body) dialogue_over"
proof -
  have "ftp_keeps session_open (upload peer b)" "ftp_keeps session_open close_data"
    "ftp_keeps session_open (await_completion peer)" for b
    by (auto simp: ftp_keeps_def upload_def close_data_def await_completion_def session_open_def split: prod.splits)
  then have "ftp_ends session_open (send_body peer body) dialogue_over"
    unfolding send_body_def by (intro ftp_ends_bind open_read over_plain) (auto intro: ftp_ends_return over_plain)
  then show ?thesis unfolding ftp_ends_def using data_ready_open by blast
qed

lemma over_store: "ftp_ends data_ready (ftp_store peer path body) dialogue_over"
  unfolding ftp_store_def
  by (intro ftp_ends_bind ready_ask) (auto intro: ftp_ends_return over_plain data_ready_open over_send_body)

lemma over_retrieve: "ftp_ends data_ready (ftp_retrieve peer command path) dialogue_over"
  unfolding ftp_retrieve_def
  by (rule ftp_ends_bind [OF ready_ask])
     (auto simp: ftp_ends_def ftp_return_def dialogue_over_def data_ready_def session_open_def outcome_result_def)

lemma over_transfer: "ftp_ends data_ready (ftp_transfer peer meth path body) dialogue_over"
  by (auto simp: ftp_transfer_def Let_def over_store over_retrieve
      intro!: ftp_ends_fail over_plain data_ready_open)

lemma over_dial: "ftp_ends session_open (ftp_bind (dial_data peer a) (\<lambda>_. ftp_transfer peer meth path body)) dialogue_over"
  unfolding ftp_ends_def
proof (intro allI impI)
  fix st st' r
  assume o: "session_open st" and run: "ftp_bind (dial_data peer a) (\<lambda>_. ftp_transfer peer meth path body) st = (st', r)"
  obtain w x where d: "dial_tcp peer a (world st) = (w, x)" by (rule prod.exhaust)
  show "dialogue_over st' r"
  proof (cases x)
    case (Inl e)
    with run d o show ?thesis by (auto simp: ftp_bind_def dial_data_def dialogue_over_def session_open_def)
  next
    case (Inr y)
    with run d have "ftp_transfer peer meth path body (st\<lparr>world := w, data_conn := Opened\<rparr>) = (st', r)"
      by (simp add: ftp_bind_def dial_data_def)
    moreover have "data_ready (st\<lparr>world := w, data_conn := Opened\<rparr>)" using o by (simp add: data_ready_def session_open_def)
    ultimately show ?thesis using over_transfer unfolding ftp_ends_def by blast
  qed
qed

lemma over_dialogue: "ftp_ends session_open (ftp_dialogue peer remote meth path body) dialogue_over"
proof -
  have "ftp_ends session_open (ftp_bind (ftp_type peer) (\<lambda>_.
      ftp_bind (ftpPassiveAddress peer remote) (\<lambda>pasv.
      ftp_bind (dial_data peer pasv) (\<lambda>_. ftp_transfer peer meth path body)))) dialogue_over"
    by (intro ftp_ends_bind [of session_open "ftp_type peer"] ftp_ends_bind [of session_open "ftpPassiveAddress peer remote"]
        open_type open_passive over_dial over_plain)
  then show ?thesis
    unfolding ftp_dialogue_def
    by (intro ftp_ends_bind open_login over_plain) (auto intro: ftp_ends_return over_plain split: option.split)
qed

section \<open>Reading a body\<close>

lemma Read_open:
  assumes "\<not> tClosed b" and "tDataOpen b" and "tControlOpen b" and "0 < n"
  shows "case Read n b of (b', out, e) \<Rightarrow>
    (if content (tData b) \<noteq> [] then
       e = None \<and> out = take n (content (tData b)) \<and> b' = b\<lparr>tData := (tData b)\<lparr>content := drop n (content (tData b))\<rparr>\<rparr>
     else out = [] \<and> e = Some (body_end b) \<and> tClosed b' \<and> \<not> tDataOpen b' \<and> \<not> tControlOpen b')"
  using assms
  by (auto simp: Read_def body_end_def finish_def Let_def split: stream_end.splits sum.splits)

text \<open>Reading with buffers that are not empty delivers the content in order and then the end of the body.\<close>

lemma run_reads_prefix:
  assumes "\<not> tClosed b" and "tDataOpen b" and "tControlOpen b" and "\<forall>n \<in> set ns. 0 < n"
  shows "case run_reads ns b of (b', out, e) \<Rightarrow>
    (case e of
       None \<Rightarrow> out @ content (tData b') = content (tData b)
     | Some err \<Rightarrow> out = content (tData b) \<and> err = body_end b \<and> tClosed b' \<and> \<not> tDataOpen b' \<and> \<not> tControlOpen b') \<and>
    (length (content (tData b)) < length ns \<longrightarrow> e \<noteq> None)"
  using assms
proof (induction ns arbitrary: b)
  case (Cons n ns)
  have n: "0 < n" using Cons.prems by simp
  note step = Read_open [OF Cons.prems(1-3) n]
  show ?case
  proof (cases "content (tData b) = []")
    case True
    with step show ?thesis by (auto split: prod.splits)
  next
    case False
    let ?b = "b\<lparr>tData := (tData b)\<lparr>content := drop n (content (tData b))\<rparr>\<rparr>"
    from step False have r: "Read n b = (?b, take n (content (tData b)), None)" by (auto split: prod.splits)
    obtain b' out e where run: "run_reads ns ?b = (b', out, e)" by (rule prod_cases3)
    have "body_end ?b = body_end b"
      by (cases "stream_end (tData b)") (simp_all add: body_end_def)
    moreover have "length (drop n (content (tData b))) < length ns" if "length (content (tData b)) < length (n # ns)"
      using that n False by (cases "content (tData b)") auto
    ultimately show ?thesis
      using Cons.IH [of ?b] Cons.prems r run by (auto split: option.splits)
  qed
qed simp

section \<open>Where the connector dials, what it sends\<close>

lemma passive_result_address:
  "passive_result ip r st = (st', Inr a) \<Longrightarrow>
     (\<And>p. r = Inr p \<Longrightarrow> 1 \<le> p \<and> p \<le> 65535) \<Longrightarrow> \<exists>port. 1 \<le> port \<and> port \<le> 65535 \<and> a = JoinHostPort ip (Itoa port)"
  by (cases r) (auto simp: passive_result_def ftp_fail_def ftp_return_def)

lemma ftpPassiveAddress_peer:
  assumes "ftpPassiveAddress peer remote st = (st', Inr a)"
  shows "\<exists>ip port. ftpControlPeerIP remote = Some ip \<and> 1 \<le> port \<and> port \<le> 65535 \<and> a = JoinHostPort ip (Itoa port)"
proof (cases "ftpControlPeerIP remote")
  case None
  with assms show ?thesis by (simp add: ftpPassiveAddress_def ftp_fail_def)
next
  case (Some ip)
  have "\<exists>port. 1 \<le> port \<and> port \<le> 65535 \<and> a = JoinHostPort ip (Itoa port)"
    using assms Some
    by (auto simp: ftpPassiveAddress_def ftp_bind_Inr ftp_fail_def split: if_splits
        intro: passive_result_address [OF _ parseEPSVPort_range] passive_result_address [OF _ parsePASVPort_range])
  with Some show ?thesis by blast
qed

text \<open>A dialogue uses the dialer for the data connection only.\<close>

lemma ask_dial [simp]: "ask (peer\<lparr>dial_tcp := d\<rparr>) = ask peer"
  by (intro ext) (simp add: ask_def writeFTPCommand_def ftp_bind_def)

lemma dial_independent [simp]:
  "ftp_login (peer\<lparr>dial_tcp := d\<rparr>) = ftp_login peer"
  "ftp_type (peer\<lparr>dial_tcp := d\<rparr>) = ftp_type peer"
  "ftpPassiveAddress (peer\<lparr>dial_tcp := d\<rparr>) = ftpPassiveAddress peer"
  "ftp_transfer (peer\<lparr>dial_tcp := d\<rparr>) = ftp_transfer peer"
proof -
  have "upload (peer\<lparr>dial_tcp := d\<rparr>) = upload peer" "await_completion (peer\<lparr>dial_tcp := d\<rparr>) = await_completion peer"
    by (intro ext; simp add: upload_def await_completion_def)+
  moreover have "transfer_body (peer\<lparr>dial_tcp := d\<rparr>) = transfer_body peer" by (intro ext) (simp add: transfer_body_def)
  moreover from calculation have "send_body (peer\<lparr>dial_tcp := d\<rparr>) = send_body peer" by (intro ext) (simp add: send_body_def)
  ultimately have "ftp_store (peer\<lparr>dial_tcp := d\<rparr>) = ftp_store peer" "ftp_retrieve (peer\<lparr>dial_tcp := d\<rparr>) = ftp_retrieve peer"
    by (intro ext; simp only: ftp_store_def ftp_retrieve_def ask_dial)+
  then show "ftp_transfer (peer\<lparr>dial_tcp := d\<rparr>) = ftp_transfer peer"
    by (intro ext) (simp only: ftp_transfer_def)
qed (intro ext; simp only: ftp_login_def ftp_type_def ftpPassiveAddress_def ask_dial)+

lemma dialogue_dial:
  assumes "\<And>ip port w. ftpControlPeerIP remote = Some ip \<Longrightarrow> 1 \<le> port \<Longrightarrow> port \<le> 65535 \<Longrightarrow>
      d (JoinHostPort ip (Itoa port)) w = dial_tcp peer (JoinHostPort ip (Itoa port)) w"
  shows "ftp_dialogue (peer\<lparr>dial_tcp := d\<rparr>) remote meth path body st = ftp_dialogue peer remote meth path body st"
proof -
  have "dial_data (peer\<lparr>dial_tcp := d\<rparr>) a st1 = dial_data peer a st1"
    if "ftpPassiveAddress peer remote st0 = (st1, Inr a)" for a st0 st1
    using ftpPassiveAddress_peer [OF that] assms by (auto simp: dial_data_def)
  then show ?thesis
    unfolding ftp_dialogue_def dial_independent
    by (intro ftp_bind_cong refl) (auto intro!: ftp_bind_cong split: option.split)
qed

text \<open>What a successful upload means.\<close>

lemma ftpOutcome_failure: "ftpOutcome code \<noteq> OutcomeSuccess"
  by (simp add: ftpOutcome_def outcome_defs)

lemma outcome_of_result [simp]: "resOutcome (outcome_result x) = x"
  by (simp add: outcome_result_def)

lemma readFTPReply_Inr:
  "readFTPReply st = (st', Inr reply) \<longleftrightarrow> (\<exists>r. ReadReply (replies st) = Inr (reply, r) \<and> st' = st\<lparr>replies := r\<rparr>)"
  by (auto simp: readFTPReply_def split: sum.splits)

lemma send_body_success:
  assumes "send_body peer (Some b) st = (st', Inr res)" and "resOutcome res = OutcomeSuccess"
  shows "stream_end b = StreamEOF \<and> world st' = data_put peer (content b) (world st) \<and>
    (\<exists>reply r. ReadReply ((replies st)\<lparr>unread := unread (replies st) @ data_done peer (data_put peer (content b) (world st))\<rparr>) =
       Inr (reply, r) \<and> 200 \<le> replyCode reply \<and> replyCode reply \<le> 299)"
proof -
  obtain out ok where copy: "io_Copy (data_room peer (world st)) b = (out, ok)" by (rule prod.exhaust)
  with assms(1) have ok by (cases ok) (auto simp: send_body_def ftp_bind_Inr upload_def)
  with copy have all: "out = content b" "stream_end b = StreamEOF"
    by (auto simp: io_Copy_def split: option.splits if_splits)
  let ?w = "data_put peer (content b) (world st)"
  let ?r = "(replies st)\<lparr>unread := unread (replies st) @ data_done peer ?w\<rparr>"
  have eq: "send_body peer (Some b) st =
      (case readFTPReply (st\<lparr>world := ?w, data_conn := Closed, replies := ?r\<rparr>) of
         (st', Inl e) \<Rightarrow> (st', Inl e)
       | (st', Inr reply) \<Rightarrow> (st', Inr (outcome_result (if replyCode reply < 200 \<or> 299 < replyCode reply
            then ftpOutcome (replyCode reply) else OutcomeSuccess))))"
    using copy all \<open>ok\<close>
    by (simp add: send_body_def ftp_bind_def upload_def close_data_def await_completion_def ftp_return_def
        split: prod.split sum.split)
  obtain reply r where rd: "ReadReply ?r = Inr (reply, r)"
    using assms(1) unfolding eq by (cases "ReadReply ?r") (auto simp: readFTPReply_def)
  then have "st' = st\<lparr>world := ?w, data_conn := Closed, replies := r\<rparr>" "\<not> (replyCode reply < 200 \<or> 299 < replyCode reply)"
    using assms ftpOutcome_failure unfolding eq by (auto simp: readFTPReply_def split: if_splits)
  with rd all(2) show ?thesis by auto
qed

lemma world_release [simp]: "world (release st) = world st"
  by (simp add: release_def)

lemma operate_Inr:
  assumes "operate peer maxReply meth resource body s = (s', Inr res)"
  shows "\<exists>target w remote st0. parseFTPResource resource = Inr target \<and> dial_tcp peer (ftHost target) s = (w, Inr remote) \<and>
    ftp_dialogue peer remote meth (ftPath target) body (start_session peer maxReply w) = (st0, Inr res) \<and> s' = world st0"
  using assms
  by (clarsimp simp: operate_def operate_session_def outer_world_def split: sum.splits prod.splits; blast)

text \<open>The session up to the server's answer to \<^verbatim>\<open>STOR\<close>.\<close>

definition store_dialogue :: "'s ftp_peer \<Rightarrow> string option \<Rightarrow> string \<Rightarrow> ('s, ftpReply) ftp" where
  "store_dialogue peer remote path =
     ftp_bind (ftp_login peer) (\<lambda>early.
       case early of
         Some x \<Rightarrow> ftp_fail []
       | None \<Rightarrow>
           ftp_bind (ftp_type peer) (\<lambda>_.
           ftp_bind (ftpPassiveAddress peer remote) (\<lambda>pasv.
           ftp_bind (dial_data peer pasv) (\<lambda>_. ask peer ''STOR'' [path]))))"

lemma login_failure: "ftp_login peer st = (st', Inr (Some x)) \<Longrightarrow> x \<noteq> OutcomeSuccess"
  by (auto simp: ftp_login_def ftp_bind_Inr ftp_return_def ftpOutcome_failure split: if_splits)

lemma ftp_command_put: "ftp_command ''PUT'' = ''STOR''"
  by (simp add: ftp_command_def go_defs go_loops)

lemma store_success:
  assumes "ftp_store peer path body st = (st', Inr res)" and "resOutcome res = OutcomeSuccess"
  shows "\<exists>st1 go. ask peer ''STOR'' [path] st = (st1, Inr go) \<and> 100 \<le> replyCode go \<and> replyCode go \<le> 199 \<and>
    send_body peer body st1 = (st', Inr res)"
  using assms by (auto simp: ftp_store_def ftp_bind_Inr ftp_return_def ftpOutcome_failure split: if_splits)

lemma put_dialogue_success:
  assumes "ftp_dialogue peer remote ''PUT'' path body st = (st', Inr res)" and "resOutcome res = OutcomeSuccess"
  shows "\<exists>st1 go. store_dialogue peer remote path st = (st1, Inr go) \<and> 100 \<le> replyCode go \<and> replyCode go \<le> 199 \<and>
    send_body peer body st1 = (st', Inr res)"
proof -
  obtain early st1 where l: "ftp_login peer st = (st1, Inr early)"
    and e: "(case early of
         Some x \<Rightarrow> ftp_return (outcome_result x)
       | None \<Rightarrow> ftp_bind (ftp_type peer) (\<lambda>_. ftp_bind (ftpPassiveAddress peer remote) (\<lambda>pasv.
           ftp_bind (dial_data peer pasv) (\<lambda>_. ftp_transfer peer ''PUT'' path body)))) st1 = (st', Inr res)"
    using assms(1) unfolding ftp_dialogue_def ftp_bind_Inr by blast
  have none: "early = None"
  proof (cases early)
    case (Some x)
    with l e assms(2) show ?thesis by (auto simp: ftp_return_def dest: login_failure)
  qed
  with e obtain st2 pasv st3 u st4 v where steps: "ftp_type peer st1 = (st2, Inr u)"
      "ftpPassiveAddress peer remote st2 = (st3, Inr pasv)" "dial_data peer pasv st3 = (st4, Inr v)"
    and "ftp_transfer peer ''PUT'' path body st4 = (st', Inr res)"
    by (auto simp: ftp_bind_Inr)
  then have "ftp_store peer path body st4 = (st', Inr res)" by (simp add: ftp_transfer_def ftp_command_put)
  from store_success [OF this assms(2)] l none steps show ?thesis
    by (simp add: store_dialogue_def ftp_bind_step)
qed

section \<open>Properties\<close>

text \<open>C9: no FTP bounce. The connector dials the host of the resource and, for data, only the IP address of
  the control connection's own peer, on a port from 1 to 65535: a dialer that differs anywhere else makes
  no difference. So a server cannot direct the data connection to a third host through its passive replies.\<close>

theorem ftp_no_bounce:
  assumes "parseFTPResource resource = Inr target"
    and "\<And>w. d (ftHost target) w = dial_tcp peer (ftHost target) w"
    and "\<And>w' remote ip port w. dial_tcp peer (ftHost target) s = (w', Inr remote) \<Longrightarrow> ftpControlPeerIP remote = Some ip \<Longrightarrow>
      1 \<le> port \<Longrightarrow> port \<le> 65535 \<Longrightarrow> d (JoinHostPort ip (Itoa port)) w = dial_tcp peer (JoinHostPort ip (Itoa port)) w"
  shows "operate (peer\<lparr>dial_tcp := d\<rparr>) maxReply meth resource body s = operate peer maxReply meth resource body s"
proof -
  obtain w x where dial: "dial_tcp peer (ftHost target) s = (w, x)" by (rule prod.exhaust)
  have "operate_session (peer\<lparr>dial_tcp := d\<rparr>) maxReply meth resource body s = operate_session peer maxReply meth resource body s"
  proof (cases x)
    case (Inl e)
    with dial assms show ?thesis by (simp add: operate_session_def)
  next
    case (Inr remote)
    have "start_session (peer\<lparr>dial_tcp := d\<rparr>) maxReply w = start_session peer maxReply w" by (simp add: start_session_def)
    moreover have "ftp_dialogue (peer\<lparr>dial_tcp := d\<rparr>) remote m pt bd st = ftp_dialogue peer remote m pt bd st" for m pt bd st
      using assms(3) dial Inr by (intro dialogue_dial) blast
    ultimately show ?thesis using dial Inr assms(1,2) by (simp add: operate_session_def)
  qed
  then show ?thesis by (simp add: operate_def split: prod.split sum.split)
qed

text \<open>A server that answers a fixed reply to each command.\<close>

definition scripted :: "(string \<Rightarrow> string) \<Rightarrow> string list ftp_peer" where
  "scripted answer = \<lparr>dial_tcp = (\<lambda>a w. ((''dial '' @ a) # w, Inr (Some ''192.0.2.7:21''))),
     greeting = (\<lambda>_. crlf ''220 hi''), send_control = (\<lambda>c w. (c # w, Inr (answer (takeWhile (\<lambda>x. x \<noteq> CHR '' '' \<and> x \<noteq> CHR 0x0D) c)))),
     data_source = (\<lambda>_. \<lparr>content = ''data'', stream_end = StreamEOF\<rparr>), data_room = (\<lambda>_. None),
     data_put = (\<lambda>c w. (''put '' @ c) # w), data_done = (\<lambda>_. crlf ''226 ok''), ctx_done = (\<lambda>_. False)\<rparr>"

definition plain_answers :: "string \<Rightarrow> string" where
  "plain_answers c =
     (if c = ''USER'' then crlf ''331 pw'' else if c = ''PASS'' then crlf ''230 in'' else if c = ''TYPE'' then crlf ''200 ok''
      else if c = ''EPSV'' then crlf ''229 (|||2121|)'' else crlf ''150 go'')"

abbreviation plain_server_peer :: "string list ftp_peer" where
  "plain_server_peer \<equiv> scripted plain_answers"

lemma plain_server_target: "parseFTPResource ''ftp://h:21/f'' = Inr \<lparr>ftHost = ''h:21'', ftPath = ''/f''\<rparr>"
  by (simp add: parseFTPResource_def normalizeFTPPath_def go_defs go_loops)

lemma plain_server_ip: "ftpControlPeerIP (Some ''192.0.2.7:21'') = Some ''192.0.2.7''"
  by (simp add: ftpControlPeerIP_def go_defs go_loops)

theorem ftp_no_bounce_witness:
  "operate (plain_server_peer\<lparr>dial_tcp := (\<lambda>a w. if a = ''10.0.0.1:22'' then (w, Inl []) else dial_tcp plain_server_peer a w)\<rparr>)
     64 ''GET'' ''ftp://h:21/f'' None [] = operate plain_server_peer 64 ''GET'' ''ftp://h:21/f'' None []"
proof (rule ftp_no_bounce [OF plain_server_target])
  fix w' remote ip port w
  assume "dial_tcp plain_server_peer (ftHost \<lparr>ftHost = ''h:21'', ftPath = ''/f''\<rparr>) [] = (w', Inr remote)"
    "ftpControlPeerIP remote = Some ip"
  then have ip: "ip = ''192.0.2.7''" using plain_server_ip by (auto simp: scripted_def)
  have "JoinHostPort ip (Itoa port) \<noteq> ''10.0.0.1:22''" unfolding ip by (simp add: JoinHostPort_def)
  then show "(if JoinHostPort ip (Itoa port) = ''10.0.0.1:22'' then (w, Inl []) else dial_tcp plain_server_peer (JoinHostPort ip (Itoa port)) w) =
      dial_tcp plain_server_peer (JoinHostPort ip (Itoa port)) w" by simp
qed simp

text \<open>C31: nothing stays open. When \<^verbatim>\<open>operate\<close> returns, either a successful result hands out a body that owns both
  connections, which are then open, or no body is handed out, the control connection is closed and so is
  the data connection if it was dialled; and a body that is read to its end, or closed, closes both.\<close>

theorem ftp_connections:
  assumes "operate_session peer maxReply meth resource body s = (Inr st, r)"
  shows "(if transferOwned st then control_conn st = Opened \<and> data_conn st = Opened \<and>
        (\<exists>res. r = Inr res \<and> resOutcome res = OutcomeSuccess \<and> resBody res \<noteq> None)
      else control_conn st = Closed \<and> data_conn st \<noteq> Opened \<and> (\<forall>res. r = Inr res \<longrightarrow> resBody res = None)) \<and>
    (\<not> tClosed b \<longrightarrow> tClosed (Close b) \<and> \<not> tDataOpen (Close b) \<and> \<not> tControlOpen (Close b))"
proof -
  obtain target w remote st0 where run: "parseFTPResource resource = Inr target" "dial_tcp peer (ftHost target) s = (w, Inr remote)"
    "ftp_dialogue peer remote meth (ftPath target) body (start_session peer maxReply w) = (st0, r)" "st = release st0"
    using assms by (auto simp: operate_session_def split: sum.splits prod.splits)
  have "session_open (start_session peer maxReply w)" by (simp add: session_open_def start_session_def)
  with run(3) over_dialogue have "dialogue_over st0 r" unfolding ftp_ends_def by blast
  with run(4) show ?thesis
    by (auto simp: dialogue_over_def release_def Close_def finish_def split: if_splits)
qed

text \<open>Evaluation of sessions with a scripted server, reply by reply.\<close>

lemma ReadReply_line:
  assumes "parseFTPReplyStart l = Inr (code, CHR '' '')" and "newline \<notin> set l" and "length l + 2 \<le> m"
  shows "ReadReply \<lparr>unread = crlf l, maxBytes = m\<rparr> = Inr (\<lparr>replyCode = code, replyBody = l\<rparr>, \<lparr>unread = [], maxBytes = m\<rparr>)"
  using readLine_text [OF assms(2,3), of m "[]"] assms(1) by (simp add: ReadReply_def)

definition command_word :: "string \<Rightarrow> string" where
  "command_word c = takeWhile (\<lambda>x. x \<noteq> CHR '' '' \<and> x \<noteq> CHR 0x0D) c"

lemma ask_scripted:
  assumes "replies st = \<lparr>unread = [], maxBytes = 64\<rparr>" and "answer (command_word (crlf (command_line c args))) = crlf l"
    and "parseFTPReplyStart l = Inr (code, CHR '' '')" and "newline \<notin> set l" and "length l \<le> 62"
  shows "ask (scripted answer) c args st =
    (st\<lparr>world := crlf (command_line c args) # world st\<rparr>, Inr \<lparr>replyCode = code, replyBody = l\<rparr>)"
  using assms ReadReply_line [of l code 64]
  by (simp add: ask_def ftp_bind_def writeFTPCommand_def readFTPReply_def scripted_def command_word_def)

lemma start_scripted:
  "start_session (scripted answer) 64 w = \<lparr>world = w, replies = \<lparr>unread = crlf ''220 hi'', maxBytes = 64\<rparr>, control_conn = Opened,
     data_conn = Unopened, transferOwned = False\<rparr>"
  by (simp add: start_session_def newFTPReplyReader_def scripted_def)

lemma greeting_scripted:
  "readFTPReply (start_session (scripted answer) 64 w) = (\<lparr>world = w, replies = \<lparr>unread = [], maxBytes = 64\<rparr>, control_conn = Opened,
     data_conn = Unopened, transferOwned = False\<rparr>, Inr \<lparr>replyCode = 220, replyBody = ''220 hi''\<rparr>)"
proof -
  have "parseFTPReplyStart ''220 hi'' = Inr (220, CHR '' '')" by (simp add: parseFTPReplyStart_def go_defs go_loops)
  from ReadReply_line [OF this, of 64] show ?thesis by (simp add: start_scripted readFTPReply_def)
qed

theorem ftp_connections_witness:
  "\<exists>st. operate_session (scripted (\<lambda>_. crlf ''530 no'')) 64 ''GET'' ''ftp://h:21/f'' None [] =
       (Inr st, Inr (outcome_result OutcomePermissionDenied)) \<and> control_conn st = Closed \<and> data_conn st \<noteq> Opened"
proof -
  let ?peer = "scripted (\<lambda>_. crlf ''530 no'')"
  have parse: "parseFTPReplyStart ''530 no'' = Inr (530, CHR '' '')"
    by (simp add: parseFTPReplyStart_def go_defs go_loops)
  have "\<exists>st. operate_session ?peer 64 ''GET'' ''ftp://h:21/f'' None [] =
      (Inr st, Inr (outcome_result OutcomePermissionDenied)) \<and> \<not> transferOwned st"
    by (simp add: operate_session_def plain_server_target ftp_dialogue_def ftp_login_def ftp_bind_def greeting_scripted
        ask_scripted parse ftp_return_def ftpOutcome_def release_def scripted_def [THEN arg_cong [of _ _ dial_tcp]])
  then obtain st where st: "operate_session ?peer 64 ''GET'' ''ftp://h:21/f'' None [] =
      (Inr st, Inr (outcome_result OutcomePermissionDenied))" "\<not> transferOwned st" by blast
  from ftp_connections [OF st(1)] st show ?thesis by auto
qed

text \<open>C33: an upload is reported stored only when it is. If \<^verbatim>\<open>operate\<close> returns success for a \<^verbatim>\<open>PUT\<close>, the server let
  the client log in and accepted \<^verbatim>\<open>STOR\<close> with a reply from 100 to 199; the body came to its regular end, and all
  of its bytes and nothing else were then written to the data connection; and the very next reply on the
  control connection, read from what was left unread there and what the server sent after the data
  connection was closed, is one from 200 to 299.\<close>

theorem ftp_store_complete:
  assumes "operate peer maxReply ''PUT'' resource (Some b) s = (s', Inr res)" and "resOutcome res = OutcomeSuccess"
  shows "stream_end b = StreamEOF \<and>
    (\<exists>target w remote st go reply rest. parseFTPResource resource = Inr target \<and> dial_tcp peer (ftHost target) s = (w, Inr remote) \<and>
      store_dialogue peer remote (ftPath target) (start_session peer maxReply w) = (st, Inr go) \<and>
      100 \<le> replyCode go \<and> replyCode go \<le> 199 \<and> s' = data_put peer (content b) (world st) \<and>
      ReadReply ((replies st)\<lparr>unread := unread (replies st) @ data_done peer s'\<rparr>) = Inr (reply, rest) \<and>
      200 \<le> replyCode reply \<and> replyCode reply \<le> 299)"
proof -
  obtain target :: ftpTarget and w remote st0 where run: "parseFTPResource resource = Inr target"
    "dial_tcp peer (ftHost target) s = (w, Inr remote)"
    "ftp_dialogue peer remote ''PUT'' (ftPath target) (Some b) (start_session peer maxReply w) = (st0, Inr res)" "s' = world st0"
    using operate_Inr [OF assms(1)] by (elim exE conjE) (rule that)
  from put_dialogue_success [OF run(3) assms(2)] obtain st go where
    st: "store_dialogue peer remote (ftPath target) (start_session peer maxReply w) = (st, Inr go)"
      "100 \<le> replyCode go" "replyCode go \<le> 199" "send_body peer (Some b) st = (st0, Inr res)" by blast
  from send_body_success [OF st(4) assms(2)] run st(1-3) show ?thesis by metis
qed

text \<open>A server that takes an upload.\<close>

definition upload_answers :: "string \<Rightarrow> string" where
  "upload_answers c =
     (if c = ''USER'' then crlf ''230 in'' else if c = ''TYPE'' then crlf ''200 ok''
      else if c = ''EPSV'' then crlf ''229 (|||2121|)'' else crlf ''150 go'')"

abbreviation upload_session :: "string list \<Rightarrow> conn_status \<Rightarrow> string list ftp_session" where
  "upload_session w d \<equiv> \<lparr>world = w, replies = \<lparr>unread = [], maxBytes = 64\<rparr>, control_conn = Opened, data_conn = d, transferOwned = False\<rparr>"

lemma upload_replies:
  "parseFTPReplyStart ''230 in'' = Inr (230, CHR '' '')" "parseFTPReplyStart ''200 ok'' = Inr (200, CHR '' '')"
  "parseFTPReplyStart ''229 (|||2121|)'' = Inr (229, CHR '' '')" "parseFTPReplyStart ''150 go'' = Inr (150, CHR '' '')"
  "parseFTPReplyStart ''226 ok'' = Inr (226, CHR '' '')"
  by (simp_all add: parseFTPReplyStart_def go_defs go_loops)

lemma upload_port: "parseEPSVPort ''229 (|||2121|)'' = Inr 2121"
  by (simp add: parseEPSVPort_def ftpParenthesizedReply_def parseFTPPort_def go_defs go_loops)

lemma upload_words:
  "command_word (crlf (command_line ''USER'' [''anonymous''])) = ''USER''"
  "command_word (crlf (command_line ''TYPE'' [''I''])) = ''TYPE''"
  "command_word (crlf (command_line ''STOR'' [''/f''])) = ''STOR''" "command_word (crlf (command_line ''EPSV'' [])) = ''EPSV''"
  by (simp_all add: command_word_def command_line_def crlf_def go_loops)

lemma upload_steps:
  "\<exists>w'. ftp_login (scripted upload_answers) (start_session (scripted upload_answers) 64 w) = (upload_session w' Unopened, Inr None)"
  "\<exists>w'. ftp_type (scripted upload_answers) (upload_session w Unopened) = (upload_session w' Unopened, Inr ())"
  "\<exists>w' a. ftpPassiveAddress (scripted upload_answers) (Some ''192.0.2.7:21'') (upload_session w Unopened) = (upload_session w' Unopened, Inr a)"
  "\<exists>w'. dial_data (scripted upload_answers) a (upload_session w Unopened) = (upload_session w' Opened, Inr ())"
  "\<exists>st. ftp_transfer (scripted upload_answers) ''PUT'' ''/f'' (Some \<lparr>content = ''new'', stream_end = StreamEOF\<rparr>) (upload_session w Opened) =
     (st, Inr (outcome_result OutcomeSuccess))"
proof -
  have peer: "dial_tcp (scripted f) a w = ((''dial '' @ a) # w, Inr (Some ''192.0.2.7:21''))" "data_room (scripted f) w = None"
    "data_put (scripted f) c w = (''put '' @ c) # w" "data_done (scripted f) w = crlf ''226 ok''" for f a c w
    by (simp_all add: scripted_def)
  note steps = ftp_bind_step ftp_return_def ask_scripted [where answer = upload_answers] upload_answers_def upload_words upload_replies upload_port peer
  show "\<exists>w'. ftp_login (scripted upload_answers) (start_session (scripted upload_answers) 64 w) = (upload_session w' Unopened, Inr None)"
    by (simp add: ftp_login_def greeting_scripted steps)
  show "\<exists>w'. ftp_type (scripted upload_answers) (upload_session w Unopened) = (upload_session w' Unopened, Inr ())"
    by (simp add: ftp_type_def steps)
  show "\<exists>w' a. ftpPassiveAddress (scripted upload_answers) (Some ''192.0.2.7:21'') (upload_session w Unopened) = (upload_session w' Unopened, Inr a)"
    by (simp add: ftpPassiveAddress_def plain_server_ip passive_result_def steps)
  show "\<exists>w'. dial_data (scripted upload_answers) a (upload_session w Unopened) = (upload_session w' Opened, Inr ())"
    by (simp add: dial_data_def steps)
  show "\<exists>st. ftp_transfer (scripted upload_answers) ''PUT'' ''/f'' (Some \<lparr>content = ''new'', stream_end = StreamEOF\<rparr>) (upload_session w Opened) =
     (st, Inr (outcome_result OutcomeSuccess))"
    by (simp add: ftp_transfer_def ftp_command_put ftp_store_def send_body_def upload_def io_Copy_def close_data_def
        await_completion_def readFTPReply_def ReadReply_line steps)
qed

theorem ftp_store_complete_witness:
  "\<exists>s' res w. operate (scripted upload_answers) 64 ''PUT'' ''ftp://h:21/f'' (Some \<lparr>content = ''new'', stream_end = StreamEOF\<rparr>) [] =
     (s', Inr res) \<and> s' = data_put (scripted upload_answers) ''new'' w"
proof -
  let ?p = "scripted upload_answers" and ?b = "\<lparr>content = ''new'', stream_end = StreamEOF\<rparr>"
  obtain w1 where 1: "ftp_login ?p (start_session ?p 64 [''dial h:21'']) = (upload_session w1 Unopened, Inr None)" using upload_steps(1) by blast
  obtain w2 where 2: "ftp_type ?p (upload_session w1 Unopened) = (upload_session w2 Unopened, Inr ())" using upload_steps(2) by blast
  obtain w3 a where 3: "ftpPassiveAddress ?p (Some ''192.0.2.7:21'') (upload_session w2 Unopened) = (upload_session w3 Unopened, Inr a)"
    using upload_steps(3) by blast
  obtain w4 where 4: "dial_data ?p a (upload_session w3 Unopened) = (upload_session w4 Opened, Inr ())" using upload_steps(4) by blast
  obtain st where 5: "ftp_transfer ?p ''PUT'' ''/f'' (Some ?b) (upload_session w4 Opened) = (st, Inr (outcome_result OutcomeSuccess))"
    using upload_steps(5) by blast
  have "ftp_dialogue ?p (Some ''192.0.2.7:21'') ''PUT'' ''/f'' (Some ?b) (start_session ?p 64 [''dial h:21'']) =
      (st, Inr (outcome_result OutcomeSuccess))" by (simp add: ftp_dialogue_def ftp_bind_step 1 2 3 4 5)
  moreover have "dial_tcp ?p ''h:21'' [] = ([''dial h:21''], Inr (Some ''192.0.2.7:21''))" by (simp add: scripted_def)
  ultimately have run: "operate ?p 64 ''PUT'' ''ftp://h:21/f'' (Some ?b) [] = (world st, Inr (outcome_result OutcomeSuccess))"
    by (simp add: operate_def operate_session_def plain_server_target outer_world_def)
  from ftp_store_complete [OF run outcome_of_result] run show ?thesis by auto
qed

text \<open>C32: a download is complete or fails. Reading a body with buffers that are not empty delivers its content in
  order; after at most one read more than it has bytes the reader has the whole content and the end, the
  connections are closed, and the end is a regular one only if the data connection ended regularly and the
  server confirmed the transfer with a reply from 200 to 299. This is what the stream given to the server
  side promises.\<close>

theorem ftp_body_refines_stream:
  assumes "\<not> tClosed b" and "tDataOpen b" and "tControlOpen b" and "\<forall>n \<in> set ns. 0 < n"
    and "run_reads ns b = (b', out, e)"
  shows "(e = None \<longrightarrow> prefix out (content (body_stream b)) \<and> length ns \<le> length (content (body_stream b))) \<and>
    (\<forall>err. e = Some err \<longrightarrow>
      out = content (body_stream b) \<and> (err = ReadEOF \<longleftrightarrow> stream_end (body_stream b) = StreamEOF) \<and>
      tClosed b' \<and> \<not> tDataOpen b' \<and> \<not> tControlOpen b') \<and>
    (stream_end (body_stream b) = StreamEOF \<longrightarrow>
      \<not> tCancelled b \<and> stream_end (tData b) = StreamEOF \<and>
      (\<exists>reply r. ReadReply (tReader b) = Inr (reply, r) \<and> 200 \<le> replyCode reply \<and> replyCode reply \<le> 299))"
proof -
  have run: "(case e of None \<Rightarrow> out @ content (tData b') = content (tData b)
      | Some err \<Rightarrow> out = content (tData b) \<and> err = body_end b \<and> tClosed b' \<and> \<not> tDataOpen b' \<and> \<not> tControlOpen b') \<and>
    (length (content (tData b)) < length ns \<longrightarrow> e \<noteq> None)"
    using run_reads_prefix [OF assms(1-4)] assms(5) by simp
  have "e = None \<Longrightarrow> prefix out (content (tData b))" using run by (auto intro!: prefixI [OF sym])
  moreover have "e = None \<Longrightarrow> length ns \<le> length (content (tData b))" using run by auto
  moreover have "body_end b = ReadEOF \<Longrightarrow> \<not> tCancelled b \<and> stream_end (tData b) = StreamEOF \<and>
      (\<exists>reply r. ReadReply (tReader b) = Inr (reply, r) \<and> 200 \<le> replyCode reply \<and> replyCode reply \<le> 299)"
    by (auto simp: body_end_def not_less split: if_splits stream_end.splits sum.splits)
  ultimately show ?thesis using run by (auto simp: body_stream_def)
qed

theorem ftp_body_refines_stream_witness:
  "case run_reads [3, 3, 3] \<lparr>tData = \<lparr>content = ''data'', stream_end = StreamEOF\<rparr>, tReader = \<lparr>unread = crlf ''426 no'', maxBytes = 64\<rparr>,
     tCancelled = False, tClosed = False, tDataOpen = True, tControlOpen = True\<rparr> of (b', out, e) \<Rightarrow> e \<noteq> Some ReadEOF"
proof -
  let ?b = "\<lparr>tData = \<lparr>content = ''data'', stream_end = StreamEOF\<rparr>, tReader = \<lparr>unread = crlf ''426 no'', maxBytes = 64\<rparr>,
     tCancelled = False, tClosed = False, tDataOpen = True, tControlOpen = True\<rparr>"
  have "parseFTPReplyStart ''426 no'' = Inr (426, CHR '' '')" by (simp add: parseFTPReplyStart_def go_defs go_loops)
  from ReadReply_line [OF this, of 64]
  have "ReadReply \<lparr>unread = crlf ''426 no'', maxBytes = 64\<rparr> = Inr (\<lparr>replyCode = 426, replyBody = ''426 no''\<rparr>, \<lparr>unread = [], maxBytes = 64\<rparr>)"
    by simp
  moreover obtain b' out e where run: "run_reads [3, 3, 3] ?b = (b', out, e)" by (rule prod_cases3)
  ultimately show ?thesis using ftp_body_refines_stream [of ?b "[3, 3, 3]" b' out e] by auto
qed

text \<open>No command injection. If the path of the resource has no line break, every command of the session is
  one line: a peer that answers differently to anything but text without line breaks followed by one line
  end makes no difference.\<close>

theorem ftp_commands_one_line:
  assumes "parseFTPResource resource = Inr target" and "newline \<notin> set (ftPath target) \<and> CHR 0x0D \<notin> set (ftPath target)"
    and "\<And>l w. newline \<notin> set l \<Longrightarrow> CHR 0x0D \<notin> set l \<Longrightarrow> f (crlf l) w = send_control peer (crlf l) w"
  shows "operate (peer\<lparr>send_control := f\<rparr>) maxReply meth resource body s = operate peer maxReply meth resource body s"
proof -
  let ?q = "peer\<lparr>send_control := f\<rparr>"
  have line: "newline \<notin> set (command_line c args) \<and> CHR 0x0D \<notin> set (command_line c args)"
    if "\<forall>x \<in> set (c # args). newline \<notin> set x \<and> CHR 0x0D \<notin> set x" "length args \<le> 1" for c args
    using that by (cases args rule: list.exhaust) (auto simp: command_line_def)
  have ask: "ask ?q c args = ask peer c args"
    if "\<forall>x \<in> set (c # args). newline \<notin> set x \<and> CHR 0x0D \<notin> set x" "length args \<le> 1" for c args
    using line [OF that] assms(3) by (intro ext) (simp add: ask_def writeFTPCommand_def ftp_bind_def)
  have asks: "ask ?q ''USER'' [''anonymous''] = ask peer ''USER'' [''anonymous'']"
    "ask ?q ''PASS'' [''anonymous@example.com''] = ask peer ''PASS'' [''anonymous@example.com'']"
    "ask ?q ''TYPE'' [''I''] = ask peer ''TYPE'' [''I'']" "ask ?q ''EPSV'' [] = ask peer ''EPSV'' []"
    "ask ?q ''PASV'' [] = ask peer ''PASV'' []" "ask ?q ''STOR'' [ftPath target] = ask peer ''STOR'' [ftPath target]"
    "ask ?q ''LIST'' [ftPath target] = ask peer ''LIST'' [ftPath target]"
    "ask ?q ''RETR'' [ftPath target] = ask peer ''RETR'' [ftPath target]"
    using assms(2) by (auto intro!: ask)
  have parts: "upload ?q = upload peer" "await_completion ?q = await_completion peer" "transfer_body ?q = transfer_body peer"
    "dial_data ?q = dial_data peer"
    by (intro ext; simp add: upload_def await_completion_def transfer_body_def dial_data_def)+
  have "send_body ?q = send_body peer" by (intro ext) (simp only: send_body_def parts)
  then have "ftp_transfer ?q m (ftPath target) bd = ftp_transfer peer m (ftPath target) bd" for m bd
    by (simp only: ftp_transfer_def ftp_store_def ftp_retrieve_def asks parts)
  moreover have "ftp_login ?q = ftp_login peer" "ftp_type ?q = ftp_type peer"
    by (simp_all only: ftp_login_def ftp_type_def asks)
  moreover have "ftpPassiveAddress ?q = ftpPassiveAddress peer"
    by (intro ext) (simp only: ftpPassiveAddress_def asks)
  ultimately have dialogue: "ftp_dialogue ?q remote m (ftPath target) bd = ftp_dialogue peer remote m (ftPath target) bd" for remote m bd
    by (simp only: ftp_dialogue_def parts)
  have "start_session ?q = start_session peer" by (intro ext) (simp add: start_session_def)
  then have "operate_session ?q maxReply meth resource body s = operate_session peer maxReply meth resource body s"
    using assms(1) dialogue by (simp add: operate_session_def)
  then show ?thesis by (simp add: operate_def split: prod.split sum.split)
qed

theorem ftp_commands_one_line_witness:
  "operate (plain_server_peer\<lparr>send_control := (\<lambda>c w. if newline \<in> set (butlast c) then (w, Inl []) else send_control plain_server_peer c w)\<rparr>)
     64 ''GET'' ''ftp://h:21/f'' None [] = operate plain_server_peer 64 ''GET'' ''ftp://h:21/f'' None []"
  by (rule ftp_commands_one_line [OF plain_server_target]) (auto simp: crlf_def butlast_append)

end
