(* ===== verification/Routes.thy ===== *)
theory Routes
  imports Ftp
begin

text \<open>
  The HTTP connector of \<^verbatim>\<open>connector/http.go\<close> and the choice of a connector for a mapping in
  \<^verbatim>\<open>connector/routes.go\<close>. The standard library's HTTP transport is a parameter: one exchange of a request
  for a response, under a redirect policy and a TLS configuration.
\<close>

section \<open>The HTTP connector\<close>

record OutRequest =
  oMethod :: string
  oURL :: url
  oHeader :: header
  oBody :: "stream option"
  oContentLength :: int

record InResponse =
  iStatus :: int
  iHeader :: header
  iBody :: stream

datatype redirect_policy = FollowRedirects | UseLastResponse

type_synonym ('s, 'tls) transport =
  "'tls option \<Rightarrow> redirect_policy \<Rightarrow> OutRequest \<Rightarrow> 's \<Rightarrow> 's \<times> (err, InResponse) result"

text \<open>An \<^verbatim>\<open>http.Client\<close>: its transport and whether that is an \<^verbatim>\<open>*http.Transport\<close>, the TLS configuration of that, what
  it does with redirects. A client whose transport is nil uses the library's and has the flag \<open>False\<close>.\<close>

record ('s, 'tls) http_client =
  Transport :: "('s, 'tls) transport"
  IsHTTPTransport :: bool
  TLSClientConfig :: "'tls option"
  CheckRedirect :: redirect_policy

definition NewHTTP :: "('s, 'tls) http_client \<Rightarrow> ('s, 'tls) http_client option \<Rightarrow> ('s, 'tls) http_client" where
  "NewHTTP default_client client =
     (case client of None \<Rightarrow> default_client | Some c \<Rightarrow> c)\<lparr>CheckRedirect := UseLastResponse\<rparr>"

text \<open>\<^verbatim>\<open>http.NewRequestWithContext\<close>: an empty method is GET, another must be a token; the resource must parse; a colon
  without a port is removed from its host.\<close>

definition removeEmptyPort :: "url \<Rightarrow> url" where
  "removeEmptyPort u = u\<lparr>Host := TrimSuffix (Host u) '':''\<rparr>"

definition NewRequest :: "string \<Rightarrow> string \<Rightarrow> stream option \<Rightarrow> OutRequest option" where
  "NewRequest meth resource body =
     (let m = (if meth = [] then ''GET'' else meth) in
      if \<not> list_all token_char m then None
      else (case url_Parse resource of
        None \<Rightarrow> None
      | Some u \<Rightarrow> Some \<lparr>oMethod = m, oURL = removeEmptyPort u, oHeader = [], oBody = body, oContentLength = 0\<rparr>))"

definition cloneMetadata :: "header \<Rightarrow> header" where
  "cloneMetadata src = map (\<lambda>(k, vs). (k, vs)) src"

definition HTTP_execute ::
    "('s, 'tls) http_client \<Rightarrow> string \<Rightarrow> string \<Rightarrow> header \<Rightarrow> stream option \<Rightarrow> int \<Rightarrow> 's \<Rightarrow> 's \<times> (err, OpResult) result" where
  "HTTP_execute client meth resource metadata body sz s =
     (case NewRequest meth resource body of
        None \<Rightarrow> (s, Inl [OtherError ''http request''])
      | Some request \<Rightarrow>
          (let request' = request\<lparr>oHeader := cloneMetadata metadata,
                 oContentLength := (if 0 \<le> sz then sz else oContentLength request)\<rparr> in
           case Transport client (TLSClientConfig client) (CheckRedirect client) request' s of
             (t, Inl e) \<Rightarrow> (t, Inl e)
           | (t, Inr response) \<Rightarrow>
               (t, Inr \<lparr>resOutcome = OutcomePassthrough, resStatus = iStatus response,
                  resMetadata = cloneMetadata (iHeader response), resBody = Some (iBody response)\<rparr>)))"

definition HTTP_Fetch :: "('s, 'tls) http_client \<Rightarrow> ('s, FetchOp) operate" where
  "HTTP_Fetch client fetch = HTTP_execute client (fMethod fetch) (fResource fetch) (fMetadata fetch) (fBody fetch) (-1)"

definition HTTP_List :: "('s, 'tls) http_client \<Rightarrow> ('s, ListOp) operate" where
  "HTTP_List client list = HTTP_execute client ''LIST'' (lResource list) (lMetadata list) None (-1)"

definition HTTP_Store :: "('s, 'tls) http_client \<Rightarrow> ('s, StoreOp) operate" where
  "HTTP_Store client store =
     HTTP_execute client (stMethod store) (stResource store) (stMetadata store) (stBody store) (stSize store)"

section \<open>Routes\<close>

datatype ('s, 'tls) protocolConnector =
    HTTPConnector "('s, 'tls) http_client"
  | FTPConnector "'s FTP"

record ('s, 'tls) HTTPRoutes =
  defaultConnector :: "('s, 'tls) http_client"
  ftpConnector :: "'s FTP"
  secureConnectors :: "Backend \<Rightarrow> ('s, 'tls) http_client option"

definition cloneHTTPTransport :: "('s, 'tls) http_client \<Rightarrow> ('s, 'tls) http_client \<Rightarrow> ('s, 'tls) transport" where
  "cloneHTTPTransport library_default source = (if IsHTTPTransport source then Transport source else Transport library_default)"

text \<open>\<^verbatim>\<open>NewHTTPRoutes\<close>: a policy without a loaded configuration gets no connector.\<close>

definition secure_client :: "('s, 'tls) http_client \<Rightarrow> ('s, 'tls) http_client \<Rightarrow> 'tls \<Rightarrow> ('s, 'tls) http_client" where
  "secure_client library_default defaultClient config =
     NewHTTP library_default (Some (defaultClient\<lparr>Transport := cloneHTTPTransport library_default defaultClient,
       IsHTTPTransport := True, TLSClientConfig := Some config, CheckRedirect := UseLastResponse\<rparr>))"

definition NewHTTPRoutes ::
    "('s, 'tls) http_client \<Rightarrow> 's ftp_peer \<Rightarrow> ('s, 'tls) http_client option \<Rightarrow> (Backend \<rightharpoonup> 'tls option) \<Rightarrow> ('s, 'tls) HTTPRoutes" where
  "NewHTTPRoutes library_default network client policies =
     (let defaultClient = (case client of None \<Rightarrow> library_default | Some c \<Rightarrow> c) in
      \<lparr>defaultConnector = NewHTTP library_default (Some defaultClient), ftpConnector = NewFTP network None,
       secureConnectors = (\<lambda>p. case policies p of
          Some (Some config) \<Rightarrow> Some (secure_client library_default defaultClient config) | _ \<Rightarrow> None)\<rparr>)"

datatype route_error = RouteTarget | RouteNotLoaded

definition connectorForMount :: "('s, 'tls) HTTPRoutes \<Rightarrow> Mount \<Rightarrow> (route_error, ('s, 'tls) protocolConnector) result" where
  "connectorForMount r m =
     (case url_Parse (mTarget m) of
        None \<Rightarrow> Inl RouteTarget
      | Some parsed \<Rightarrow>
          if EqualFold (Scheme parsed) ''ftp'' then Inr (FTPConnector (ftpConnector r))
          else (case mTLS m of
            None \<Rightarrow> Inr (HTTPConnector (defaultConnector r))
          | Some tls \<Rightarrow> (case secureConnectors r tls of
              None \<Rightarrow> Inl RouteNotLoaded
            | Some c \<Rightarrow> Inr (HTTPConnector c))))"

definition route_error_of :: "route_error \<Rightarrow> err" where
  "route_error_of e =
     [OtherError (case e of RouteTarget \<Rightarrow> ''mount target URL'' | RouteNotLoaded \<Rightarrow> ''no preloaded backend TLS transport'')]"

definition routes_Fetch :: "('s, 'tls) HTTPRoutes \<Rightarrow> Mount \<Rightarrow> ('s, FetchOp) operate" where
  "routes_Fetch r m fetch s =
     (case connectorForMount r m of
        Inl e \<Rightarrow> (s, Inl (route_error_of e))
      | Inr (HTTPConnector c) \<Rightarrow> HTTP_Fetch c fetch s
      | Inr (FTPConnector p) \<Rightarrow> FTP_Fetch p fetch s)"

definition routes_List :: "('s, 'tls) HTTPRoutes \<Rightarrow> Mount \<Rightarrow> ('s, ListOp) operate" where
  "routes_List r m list s =
     (case connectorForMount r m of
        Inl e \<Rightarrow> (s, Inl (route_error_of e))
      | Inr (HTTPConnector c) \<Rightarrow> HTTP_List c list s
      | Inr (FTPConnector p) \<Rightarrow> FTP_List p list s)"

definition routes_Store :: "('s, 'tls) HTTPRoutes \<Rightarrow> Mount \<Rightarrow> ('s, StoreOp) operate" where
  "routes_Store r m store s =
     (case connectorForMount r m of
        Inl e \<Rightarrow> (s, Inl (route_error_of e))
      | Inr (HTTPConnector c) \<Rightarrow> HTTP_Store c store s
      | Inr (FTPConnector p) \<Rightarrow> FTP_Store p store s)"

definition routes_connector :: "('s, 'tls) HTTPRoutes \<Rightarrow> 's connector" where
  "routes_connector r =
     \<lparr>FetchForMount = routes_Fetch r, StoreForMount = Some (routes_Store r), ListForMount = Some (routes_List r)\<rparr>"

text \<open>The clients whose idle connections are closed: the default one, and those of the transports that were made
  for the policies.\<close>

definition CloseIdleConnections :: "('s, 'tls) HTTPRoutes option \<Rightarrow> ('s, 'tls) http_client set" where
  "CloseIdleConnections routes =
     (case routes of None \<Rightarrow> {} | Some r \<Rightarrow> insert (defaultConnector r) (ran (secureConnectors r)))"

section \<open>Lemmas\<close>

lemma cloneMetadata_id [simp]: "cloneMetadata h = h"
  by (simp add: cloneMetadata_def)

lemma NewHTTP_redirect [simp]: "CheckRedirect (NewHTTP d c) = UseLastResponse"
  by (simp add: NewHTTP_def)

text \<open>Every HTTP connector of the routes leaves redirects alone.\<close>

lemma routes_redirect:
  assumes "connectorForMount (NewHTTPRoutes lib net client policies) m = Inr (HTTPConnector c)"
  shows "CheckRedirect c = UseLastResponse"
  using assms
  by (auto simp: connectorForMount_def NewHTTPRoutes_def secure_client_def Let_def
      split: option.splits if_splits)

text \<open>Every client that a mapping can be served with is among those whose idle connections are closed.\<close>

lemma routes_idle_closed: "connectorForMount r m = Inr (HTTPConnector c) \<Longrightarrow> c \<in> CloseIdleConnections (Some r)"
  by (auto simp: connectorForMount_def CloseIdleConnections_def ran_def split: option.splits if_splits)

lemma NewRequest_Some:
  "NewRequest meth resource body = Some q \<Longrightarrow> map_option removeEmptyPort (url_Parse resource) = Some (oURL q) \<and> oBody q = body"
  by (auto simp: NewRequest_def Let_def split: option.splits if_splits)

lemma HTTP_execute_once:
  assumes "HTTP_execute c meth resource metadata body sz s = (t, r)"
  shows "(t = s \<and> (\<exists>e. r = Inl e)) \<or>
     (\<exists>request. map_option removeEmptyPort (url_Parse resource) = Some (oURL request) \<and> oHeader request = metadata \<and> oBody request = body \<and>
        t = fst (Transport c (TLSClientConfig c) (CheckRedirect c) request s))"
proof (cases "NewRequest meth resource body")
  case None
  with assms show ?thesis by (auto simp: HTTP_execute_def)
next
  case (Some q)
  let ?q = "q\<lparr>oHeader := metadata, oContentLength := (if 0 \<le> sz then sz else oContentLength q)\<rparr>"
  obtain t' x where tr: "Transport c (TLSClientConfig c) (CheckRedirect c) ?q s = (t', x)" by (rule prod.exhaust)
  then have "t = fst (Transport c (TLSClientConfig c) (CheckRedirect c) ?q s)"
    using assms Some by (cases x) (simp_all add: HTTP_execute_def Let_def)
  with NewRequest_Some [OF Some] show ?thesis by (intro disjI2 exI [of _ ?q]) simp
qed

section \<open>Properties\<close>

text \<open>C38: a fetch makes at most one exchange. With the routes of a running server, a fetch for a mapping that is
  not FTP either fails without contacting anything, or makes exactly one exchange with the backend: for the
  resource and the headers given, with redirects left to the client, and on a copy of the client's transport
  under the TLS configuration that was loaded for the mapping's policy if it has one, on the client's own
  transport otherwise. So a backend cannot send the gateway elsewhere with a
  redirect, and a mapping with a TLS policy never falls back to the default transport.\<close>

theorem routes_fetch_once:
  assumes "r = NewHTTPRoutes lib net client policies"
    and "url_Parse (mTarget m) = Some target" and "\<not> EqualFold (Scheme target) ''ftp''"
    and "routes_Fetch r m fetch s = (t, x)"
  shows "(t = s \<and> (\<exists>e. x = Inl e)) \<or>
    (\<exists>request tls transport. t = fst (transport tls UseLastResponse request s) \<and>
       map_option removeEmptyPort (url_Parse (fResource fetch)) = Some (oURL request) \<and> oHeader request = fMetadata fetch \<and> oBody request = fBody fetch \<and>
       (let dc = (case client of None \<Rightarrow> lib | Some c \<Rightarrow> c) in
        case mTLS m of
          None \<Rightarrow> transport = Transport dc \<and> tls = TLSClientConfig dc
        | Some policy \<Rightarrow> transport = cloneHTTPTransport lib dc \<and> policies policy = Some tls \<and> tls \<noteq> None))"
proof (cases "connectorForMount r m")
  case (Inl e)
  with assms(4) show ?thesis by (auto simp: routes_Fetch_def)
next
  case (Inr c)
  with assms(2,3) obtain h where h: "connectorForMount r m = Inr (HTTPConnector h)"
    by (auto simp: connectorForMount_def split: option.splits if_splits)
  then have run: "HTTP_execute h (fMethod fetch) (fResource fetch) (fMetadata fetch) (fBody fetch) (-1) s = (t, x)"
    using assms(4) by (simp add: routes_Fetch_def HTTP_Fetch_def)
  have red: "CheckRedirect h = UseLastResponse" using h assms(1) routes_redirect by blast
  have tr: "let dc = (case client of None \<Rightarrow> lib | Some c \<Rightarrow> c) in
      case mTLS m of
        None \<Rightarrow> Transport h = Transport dc \<and> TLSClientConfig h = TLSClientConfig dc
      | Some policy \<Rightarrow> Transport h = cloneHTTPTransport lib dc \<and> policies policy = Some (TLSClientConfig h) \<and> TLSClientConfig h \<noteq> None"
    using h assms(1) by (auto simp: connectorForMount_def NewHTTPRoutes_def secure_client_def NewHTTP_def Let_def
        split: option.splits if_splits)
  from HTTP_execute_once [OF run] show ?thesis
  proof
    assume "\<exists>request. map_option removeEmptyPort (url_Parse (fResource fetch)) = Some (oURL request) \<and> oHeader request = fMetadata fetch \<and>
        oBody request = fBody fetch \<and> t = fst (Transport h (TLSClientConfig h) (CheckRedirect h) request s)"
    with red tr show ?thesis by metis
  qed blast
qed

text \<open>A library client that records the methods of the requests and answers each with an error.\<close>

definition log_client :: "(string list, unit) http_client" where
  "log_client = \<lparr>Transport = (\<lambda>_ p q w. (oMethod q # w, Inl [])), IsHTTPTransport = False, TLSClientConfig = None, CheckRedirect = FollowRedirects\<rparr>"

theorem routes_fetch_once_witness:
  "\<exists>request :: OutRequest. map_option removeEmptyPort (url_Parse ''http://b/x'') = Some (oURL request) \<and> oHeader request = []"
proof -
  let ?r = "NewHTTPRoutes log_client plain_server_peer None (\<lambda>_. None)" and ?m = "path_mount ''/x'' ''http://b/x''"
  let ?f = "\<lparr>fMethod = ''GET'', fResource = ''http://b/x'', fMetadata = [], fBody = None\<rparr>"
  obtain u where u: "url_Parse ''http://b/x'' = Some u" "\<not> EqualFold (Scheme u) ''ftp''"
    by (simp add: go_defs go_loops)
  have "connectorForMount ?r ?m = Inr (HTTPConnector (defaultConnector ?r))"
    using u by (simp add: connectorForMount_def)
  then have run: "routes_Fetch ?r ?m ?f [] = ([''GET''], Inl [])"
    using u by (simp add: routes_Fetch_def HTTP_Fetch_def HTTP_execute_def NewRequest_def token_char_def NewHTTPRoutes_def
        NewHTTP_def log_client_def Let_def)
  from routes_fetch_once [OF refl _ u(2) run] u(1) show ?thesis by auto
qed

end
