(* ===== verification/Handler.thy ===== *)
theory Handler
  imports Http_Connect Store
begin

text \<open>
  \<^verbatim>\<open>httpHandler\<close> of \<^verbatim>\<open>server/http.go\<close> with its constructors. A handler holds the function that takes a
  configuration snapshot, here from the published store, and serves each request with the configuration
  that this gives at the time; \<open>handle_request\<close> is its \<^verbatim>\<open>ServeHTTP\<close> method.
\<close>

section \<open>Handlers\<close>

record 's httpHandler =
  hdServer :: string
  hdSnapshot :: "Store \<Rightarrow> Config"
  hdConnector :: "'s connector"
  hdRelay :: "'s relay_connector option"
  hdSessions :: connectionSessions

definition NewReloadableHTTPHandlerWithRoutesAndRelay ::
    "string \<Rightarrow> (Store \<Rightarrow> Config) \<Rightarrow> 's connector \<Rightarrow> 's relay_connector option \<Rightarrow> 's httpHandler" where
  "NewReloadableHTTPHandlerWithRoutesAndRelay server snapshot connector relay =
     \<lparr>hdServer = server, hdSnapshot = snapshot, hdConnector = connector, hdRelay = relay, hdSessions = newConnectionSessions\<rparr>"

definition NewReloadableHTTPHandlerWithRoutes :: "string \<Rightarrow> (Store \<Rightarrow> Config) \<Rightarrow> 's connector \<Rightarrow> 's httpHandler" where
  "NewReloadableHTTPHandlerWithRoutes server snapshot connector =
     NewReloadableHTTPHandlerWithRoutesAndRelay server snapshot connector None"

text \<open>A connector that does not know mappings: its \<^verbatim>\<open>Fetch\<close>, and its \<^verbatim>\<open>Store\<close> and \<^verbatim>\<open>List\<close> if it has them.\<close>

record 's plain_connector =
  pcFetch :: "('s, FetchOp) operate"
  pcStore :: "('s, StoreOp) operate option"
  pcList :: "('s, ListOp) operate option"

definition NewReloadableHTTPHandler :: "string \<Rightarrow> (Store \<Rightarrow> Config) \<Rightarrow> 's plain_connector \<Rightarrow> 's httpHandler" where
  "NewReloadableHTTPHandler server snapshot connector =
     NewReloadableHTTPHandlerWithRoutes server snapshot
       (fixedMountConnector (pcFetch connector) (pcStore connector) (pcList connector))"

definition NewHTTPHandlerForServer :: "string \<Rightarrow> Mount list \<Rightarrow> Rule list \<Rightarrow> 's plain_connector \<Rightarrow> 's httpHandler" where
  "NewHTTPHandlerForServer server mounts rules connector =
     (let fixed = \<lparr>Servers = [], Mounts = mounts, Policies = rules\<rparr> in
      NewReloadableHTTPHandler server (\<lambda>_. fixed) connector)"

definition NewHTTPHandler :: "Mount list \<Rightarrow> Rule list \<Rightarrow> 's plain_connector \<Rightarrow> 's httpHandler" where
  "NewHTTPHandler mounts rules connector = NewHTTPHandlerForServer [] mounts rules connector"

text \<open>The session owner of \<^verbatim>\<open>server/lifecycle.go\<close>.\<close>

definition beginSessionDrain :: "'s httpHandler \<Rightarrow> 's httpHandler" where
  "beginSessionDrain h = h\<lparr>hdSessions := beginDrain (hdSessions h)\<rparr>"

definition forceCloseHandler :: "'s httpHandler \<Rightarrow> 's httpHandler \<times> conn set" where
  "forceCloseHandler h = (case forceClose (hdSessions h) of (sess, toClose) \<Rightarrow> (h\<lparr>hdSessions := sess\<rparr>, toClose))"

definition handle_request ::
    "'s httpHandler \<Rightarrow> Store \<Rightarrow> nat option \<Rightarrow> header \<Rightarrow> connect_env \<Rightarrow> HTTPRequest \<Rightarrow> 's \<Rightarrow> connectionSessions tracked \<Rightarrow>
       served \<times> 's \<times> connectionSessions tracked" where
  "handle_request h st = ServeHTTP (hdServer h) (hdSnapshot h st) (hdConnector h) (hdRelay h)"

section \<open>The contract of a request handler\<close>

text \<open>Both ways through the handler, the operation and the tunnel, do the same: they resolve a mount request of
  their own, find the source, ask the policy, and only then act. The locale says what follows from that; the
  two interpretations show that the code does it.\<close>

locale guarded_handler =
  fixes act :: "string \<Rightarrow> Config \<Rightarrow> HTTPRequest \<Rightarrow> 's \<Rightarrow> 's"
    and mount_req :: "string \<Rightarrow> HTTPRequest \<Rightarrow> MountRequest"
    and meth :: "HTTPRequest \<Rightarrow> string"
  assumes acts: "act server configured request s \<noteq> s \<Longrightarrow>
    \<exists>matched source. ResolveFor (Mounts configured) (mount_req server request) = Inr matched \<and>
      policySource (Servers configured) server request = Inr source \<and>
      Allowed (Evaluate (Policies configured) (policy_request source matched (meth request)))"
    and for_server: "rqServer (mount_req server request) = server"
begin

text \<open>A mapping is used only by the servers in its scope, and something permits the request.\<close>

lemma guarded:
  assumes "act server configured request s \<noteq> s"
  shows "\<exists>matched source rule.
    ResolveFor (Mounts configured) (mount_req server request) = Inr matched \<and>
    policySource (Servers configured) server request = Inr source \<and>
    Allowed (Evaluate (Policies configured) (policy_request source matched (meth request))) \<and>
    matchMount matched \<in> set (Mounts configured) \<and>
    mServer (matchMount matched) \<in> {[], ''*'', server} \<and>
    rule \<in> set (Policies configured) \<and> Effect rule = Permit \<and> ruleMatches rule (policy_request source matched (meth request))"
proof -
  from acts [OF assms] obtain matched source where m:
    "ResolveFor (Mounts configured) (mount_req server request) = Inr matched"
    "policySource (Servers configured) server request = Inr source"
    "Allowed (Evaluate (Policies configured) (policy_request source matched (meth request)))" by blast
  from m(1) obtain n w where mem: "matchMount matched \<in> set (Mounts configured)"
    and cand: "candidate_of n (mount_req server request) (matchMount matched) = Some w" by (rule ResolveFor_candidate)
  from cand have "mServer (matchMount matched) \<in> {[], ''*'', server}"
    using for_server [of server request]
    by (auto simp: candidate_of_def matchScope_def Let_def split: option.splits if_splits)
  with m mem show ?thesis unfolding Evaluate_Allowed by blast
qed

lemma inert: "(\<forall>rule \<in> set (Policies configured). Effect rule \<noteq> Permit) \<Longrightarrow> act server configured request s = s"
  using guarded by blast

lemma unmounted:
  "(\<forall>m \<in> set (Mounts configured). mServer m \<notin> {[], ''*'', server}) \<Longrightarrow> act server configured request s = s"
  using guarded by blast

end

interpretation operation: guarded_handler
  "\<lambda>server configured request s. fst (serve_operation server configured conn room hdr request s)" mount_request hMethod
  for conn room hdr
proof
  show "rqServer (mount_request server request) = server" for server request by (simp add: mount_request_def)
  fix server configured request s
  assume "fst (serve_operation server configured conn room hdr request s) \<noteq> s"
  from serve_operation_guarded [OF this]
  show "\<exists>matched source. ResolveFor (Mounts configured) (mount_request server request) = Inr matched \<and>
      policySource (Servers configured) server request = Inr source \<and>
      Allowed (Evaluate (Policies configured) (policy_request source matched (hMethod request)))" by (elim exE conjE) (intro exI conjI; assumption)
qed

interpretation tunnel: guarded_handler
  "\<lambda>server configured request s. fst (snd (serveCONNECT server configured relay env request s t))"
  "\<lambda>server request. connect_request server (connect_authority request)" "\<lambda>_. ''CONNECT''"
  for relay env t
proof
  fix server configured request s
  assume "fst (snd (serveCONNECT server configured relay env request s t)) \<noteq> s"
  moreover obtain resp s' t' where out: "serveCONNECT server configured relay env request s t = (resp, s', t')"
    by (rule prod_cases3)
  ultimately show "\<exists>matched source.
      ResolveFor (Mounts configured) (connect_request server (connect_authority request)) = Inr matched \<and>
      policySource (Servers configured) server request = Inr source \<and>
      Allowed (Evaluate (Policies configured) (policy_request source matched ''CONNECT''))"
    by (cases rule: serveCONNECT_passes [OF out]) auto
qed (simp add: connect_request_def)

text \<open>The mount request of the whole handler, and what it is guarded by.\<close>

definition handler_request :: "string \<Rightarrow> HTTPRequest \<Rightarrow> MountRequest" where
  "handler_request server request =
     (if hMethod request = ''CONNECT'' then connect_request server (connect_authority request) else mount_request server request)"

interpretation handler: guarded_handler
  "\<lambda>server configured request s. fst (snd (ServeHTTP server configured conn relay room hdr env request s t))"
  handler_request hMethod
  for conn relay room hdr env t
proof
  fix server configured request s
  let ?act = "fst (snd (ServeHTTP server configured conn relay room hdr env request s t))"
  assume act: "?act \<noteq> s"
  show "\<exists>matched source. ResolveFor (Mounts configured) (handler_request server request) = Inr matched \<and>
      policySource (Servers configured) server request = Inr source \<and>
      Allowed (Evaluate (Policies configured) (policy_request source matched (hMethod request)))"
  proof (cases "hMethod request = ''CONNECT''")
    case True
    then have "?act = fst (snd (serveCONNECT server configured relay env request s t))"
      by (simp add: ServeHTTP_def split: prod.splits)
    with act tunnel.acts [of server configured relay env request s t] True show ?thesis by (simp add: handler_request_def)
  next
    case False
    then have "?act = fst (serve_operation server configured conn room hdr request s)"
      by (simp add: ServeHTTP_def split: prod.splits)
    with act operation.acts [of server configured conn room hdr request s] False show ?thesis by (simp add: handler_request_def)
  qed
qed (simp add: handler_request_def mount_request_def connect_request_def)

section \<open>Properties\<close>

text \<open>A handler with fixed mappings is closed to tunnels and scoped to its server. Whatever it is asked, a handler made
  by \<^verbatim>\<open>NewHTTPHandlerForServer\<close> leaves the world and its sessions alone for \<^verbatim>\<open>CONNECT\<close>; for another method it acts
  only through a mapping given to it whose server is this one or any, and only if a rule given to it permits
  the request.\<close>

theorem fixed_handler_guarded:
  assumes "h = NewHTTPHandlerForServer server mounts rules connector" and "handle_request h st room hdr env request s t = (resp, s', t')"
  shows "(hMethod request = ''CONNECT'' \<longrightarrow> s' = s \<and> t' = t) \<and>
    (s' \<noteq> s \<longrightarrow> (\<exists>matched source rule.
      ResolveFor mounts (mount_request server request) = Inr matched \<and> mServer (matchMount matched) \<in> {[], ''*'', server} \<and>
      source = remoteHost (hRemoteAddr request) \<and>
      rule \<in> set rules \<and> Effect rule = Permit \<and> ruleMatches rule (policy_request source matched (hMethod request))))"
proof -
  let ?c = "\<lparr>Servers = [], Mounts = mounts, Policies = rules\<rparr>"
  note new = NewHTTPHandlerForServer_def NewReloadableHTTPHandler_def NewReloadableHTTPHandlerWithRoutes_def
    NewReloadableHTTPHandlerWithRoutesAndRelay_def
  let ?conn = "fixedMountConnector (pcFetch connector) (pcStore connector) (pcList connector)"
  have out: "ServeHTTP server ?c ?conn None room hdr env request s t = (resp, s', t')"
    using assms by (simp add: handle_request_def new Let_def)
  have conn: "s' = s \<and> t' = t" if "hMethod request = ''CONNECT''"
  proof -
    obtain r a b where sc: "serveCONNECT server ?c None env request s t = (r, a, b)" by (rule prod_cases3)
    with out that have "s' = a" "t' = b" by (auto simp: ServeHTTP_def)
    with sc show ?thesis by (cases rule: serveCONNECT_passes) simp_all
  qed
  moreover have "\<exists>matched source rule.
      ResolveFor mounts (mount_request server request) = Inr matched \<and> mServer (matchMount matched) \<in> {[], ''*'', server} \<and>
      source = remoteHost (hRemoteAddr request) \<and>
      rule \<in> set rules \<and> Effect rule = Permit \<and> ruleMatches rule (policy_request source matched (hMethod request))"
    if "s' \<noteq> s"
    using handler.guarded [of server ?c ?conn None room hdr env request s t] out that conn
    by (cases "hMethod request = ''CONNECT''") (auto simp: handler_request_def)
  ultimately show ?thesis by blast
qed

end
