(* ===== verification/Runtime.thy ===== *)
theory Runtime
  imports Routes Handler
begin

text \<open>
  Start-up: \<^verbatim>\<open>tlsruntime/backend.go\<close>, \<^verbatim>\<open>tlsruntime/frontend.go\<close> and \<^verbatim>\<open>cmd/delegate/http_runtime.go\<close>. The
  certificate files, the certificate pools and the sockets are parameters; the order of the effects is a
  log of events.
\<close>

section \<open>TLS identities\<close>

record ('pool, 'cert) tls_config =
  cfgServerName :: string
  cfgMinVersion :: "16 word"
  cfgRootCAs :: "'pool option"
  cfgCertificates :: "'cert list"

record ('pool, 'cert) tls_files =
  SystemCertPool :: "(err, 'pool) result"
  ReadFile :: "string \<Rightarrow> (err, string) result"
  AppendCertsFromPEM :: "'pool \<Rightarrow> string \<Rightarrow> 'pool option"
  LoadX509KeyPair :: "string \<Rightarrow> string \<Rightarrow> (err, 'cert) result"

definition VersionTLS12 :: "16 word" where "VersionTLS12 = 0x0303"
definition VersionTLS13 :: "16 word" where "VersionTLS13 = 0x0304"

definition minimumVersion :: "string \<Rightarrow> 16 word" where
  "minimumVersion version = (if version = ''1.3'' then VersionTLS13 else VersionTLS12)"

datatype load_error = LoadInvalid tls_error | LoadFailed err | NoCertificates

definition load_roots :: "('pool, 'cert) tls_files \<Rightarrow> string \<Rightarrow> (load_error, 'pool option) result" where
  "load_roots fs caFile =
     (if caFile = [] then Inr None
      else bind_result (map_error LoadFailed (SystemCertPool fs)) (\<lambda>roots.
        bind_result (map_error LoadFailed (ReadFile fs caFile)) (\<lambda>contents.
          case AppendCertsFromPEM fs roots contents of None \<Rightarrow> Inl NoCertificates | Some p \<Rightarrow> Inr (Some p))))"

definition LoadBackend :: "('pool, 'cert) tls_files \<Rightarrow> Backend \<Rightarrow> (load_error, ('pool, 'cert) tls_config) result" where
  "LoadBackend fs config =
     (case Backend_Validate config of
        Some e \<Rightarrow> Inl (LoadInvalid e)
      | None \<Rightarrow>
          bind_result (load_roots fs (CAFile config)) (\<lambda>roots.
            let loaded = \<lparr>cfgServerName = ServerName config, cfgMinVersion = minimumVersion (BackendMinimumVersion config),
                  cfgRootCAs = roots, cfgCertificates = []\<rparr> in
            if ClientCertificateFile config \<noteq> [] then
              bind_result (map_error LoadFailed (LoadX509KeyPair fs (ClientCertificateFile config) (ClientPrivateKeyFile config)))
                (\<lambda>identity. Inr (loaded\<lparr>cfgCertificates := [identity]\<rparr>))
            else Inr loaded))"

definition LoadFrontend :: "('pool, 'cert) tls_files \<Rightarrow> Frontend \<Rightarrow> (load_error, ('pool, 'cert) tls_config) result" where
  "LoadFrontend fs config =
     (case Frontend_Validate config of
        Some e \<Rightarrow> Inl (LoadInvalid e)
      | None \<Rightarrow>
          bind_result (map_error LoadFailed (LoadX509KeyPair fs (CertificateFile config) (PrivateKeyFile config)))
            (\<lambda>identity. Inr \<lparr>cfgServerName = [], cfgMinVersion = minimumVersion (FrontendMinimumVersion config),
               cfgRootCAs = None, cfgCertificates = [identity]\<rparr>))"

section \<open>Preparing the listeners\<close>

datatype runtime_event =
    LoadingBackend Backend
  | LoadingFrontend string
  | Bound string nat
  | ClosedListener nat
  | ClosedIdle

datatype runtime_error =
    BackendLoad load_error
  | FrontendLoad string load_error
  | ListenFailed string err

type_synonym 'a logged = "runtime_event list \<times> (runtime_error, 'a) result"

text \<open>The loop over the mounts: every distinct policy is loaded once.\<close>

fun load_backends ::
    "(Backend \<Rightarrow> (load_error, 'tls) result) \<Rightarrow> Mount list \<Rightarrow> (Backend \<rightharpoonup> 'tls option) \<Rightarrow> (Backend \<rightharpoonup> 'tls option) logged" where
  "load_backends load [] backendPolicies = ([], Inr backendPolicies)"
| "load_backends load (mounted # mounts) backendPolicies =
     (case mTLS mounted of
        None \<Rightarrow> load_backends load mounts backendPolicies
      | Some policy \<Rightarrow>
          if backendPolicies policy \<noteq> None then load_backends load mounts backendPolicies
          else (case load policy of
            Inl e \<Rightarrow> ([LoadingBackend policy], Inl (BackendLoad e))
          | Inr config \<Rightarrow>
              (case load_backends load mounts (backendPolicies(policy \<mapsto> Some config)) of
                 (es, r) \<Rightarrow> (LoadingBackend policy # es, r))))"

fun load_frontends :: "(Frontend \<Rightarrow> (load_error, 'tls) result) \<Rightarrow> Server list \<Rightarrow> 'tls option list logged" where
  "load_frontends load [] = ([], Inr [])"
| "load_frontends load (frontend # rest) =
     (case sTLS frontend of
        None \<Rightarrow> (case load_frontends load rest of (es, r) \<Rightarrow> (es, bind_result r (\<lambda>cs. Inr (None # cs))))
      | Some tls \<Rightarrow>
          (case load tls of
             Inl e \<Rightarrow> ([LoadingFrontend (sName frontend), ClosedIdle], Inl (FrontendLoad (sName frontend) e))
           | Inr config \<Rightarrow>
               (case load_frontends load rest of
                  (es, r) \<Rightarrow> (LoadingFrontend (sName frontend) # es, bind_result r (\<lambda>cs. Inr (Some config # cs))))))"

text \<open>The loop over the servers that binds; \<open>opened\<close> are the listeners bound so far.\<close>

fun bind_listeners :: "(string \<Rightarrow> (err, nat) result) \<Rightarrow> nat list \<Rightarrow> Server list \<Rightarrow> nat list logged" where
  "bind_listeners listen opened [] = ([], Inr opened)"
| "bind_listeners listen opened (frontend # rest) =
     (case listen (sListen frontend) of
        Inl e \<Rightarrow> (map ClosedListener opened @ [ClosedIdle], Inl (ListenFailed (sName frontend) e))
      | Inr l \<Rightarrow>
          (case bind_listeners listen (opened @ [l]) rest of
             (es, r) \<Rightarrow> (Bound (sListen frontend) l # es, r)))"

record ('s, 'tls) http_runtime =
  rtHandlers :: "'s httpHandler list"
  rtListeners :: "(string \<times> nat \<times> 'tls option) list"
  rtRoutes :: "('s, 'tls) HTTPRoutes"

text \<open>The handler of one server: it serves snapshots of the store through the routes, and tunnels over TCP.\<close>

definition server_handler ::
    "(Store \<Rightarrow> Config) \<Rightarrow> 's dialer \<Rightarrow> ('s, 'tls) HTTPRoutes \<Rightarrow> Server \<Rightarrow> 's httpHandler" where
  "server_handler snapshot net_dialer routes frontend =
     NewReloadableHTTPHandlerWithRoutesAndRelay (sName frontend) snapshot (routes_connector routes) (Some (TCP_Connect (Some net_dialer)))"

definition prepareHTTPRuntime ::
    "(Backend \<Rightarrow> (load_error, 'tls) result) \<Rightarrow> (Frontend \<Rightarrow> (load_error, 'tls) result) \<Rightarrow> (string \<Rightarrow> (err, nat) result) \<Rightarrow>
     ((Backend \<rightharpoonup> 'tls option) \<Rightarrow> ('s, 'tls) HTTPRoutes) \<Rightarrow> (Store \<Rightarrow> Config) \<Rightarrow> 's dialer \<Rightarrow> Config \<Rightarrow>
       ('s, 'tls) http_runtime logged" where
  "prepareHTTPRuntime load_backend load_frontend listen new_routes snapshot net_dialer configured =
     (case load_backends load_backend (Mounts configured) Map.empty of
        (es1, Inl e) \<Rightarrow> (es1, Inl e)
      | (es1, Inr backendPolicies) \<Rightarrow>
          (case load_frontends load_frontend (Servers configured) of
             (es2, Inl e) \<Rightarrow> (es1 @ es2, Inl e)
           | (es2, Inr tlsConfigs) \<Rightarrow>
               (case bind_listeners listen [] (Servers configured) of
                  (es3, Inl e) \<Rightarrow> (es1 @ es2 @ es3, Inl e)
                | (es3, Inr listeners) \<Rightarrow>
                    (es1 @ es2 @ es3,
                     Inr \<lparr>rtHandlers = map (server_handler snapshot net_dialer (new_routes backendPolicies)) (Servers configured),
                          rtListeners = zip (map sName (Servers configured)) (zip listeners tlsConfigs),
                          rtRoutes = new_routes backendPolicies\<rparr>))))"

section \<open>Lemmas\<close>

fun is_load :: "runtime_event \<Rightarrow> bool" where
  "is_load (LoadingBackend p) = True"
| "is_load (LoadingFrontend n) = True"
| "is_load _ = False"

fun is_bound :: "runtime_event \<Rightarrow> bool" where
  "is_bound (Bound a l) = True"
| "is_bound _ = False"

lemma load_backends_log: "e \<in> set (fst (load_backends load ms acc)) \<Longrightarrow> is_load e"
  by (induction load ms acc rule: load_backends.induct)
     (auto split: option.splits sum.splits if_splits prod.splits)

lemma load_frontends_log: "e \<in> set (fst (load_frontends load ss)) \<Longrightarrow> \<not> is_bound e"
  by (induction load ss rule: load_frontends.induct) (auto split: option.splits sum.splits prod.splits)

text \<open>One step of the loop over the mounts.\<close>

lemma load_backends_step:
  assumes "load_backends load (m # ms) acc = (es, Inr policies)"
  obtains (skip) "load_backends load ms acc = (es, Inr policies)" "mTLS m = None \<or> (\<exists>p. mTLS m = Some p \<and> acc p \<noteq> None)"
  | (load) p config es' where "mTLS m = Some p" "acc p = None" "load p = Inr config"
      "load_backends load ms (acc(p \<mapsto> Some config)) = (es', Inr policies)"
  using assms by (auto split: option.splits if_splits sum.splits prod.splits)

lemma load_backends_keeps:
  "load_backends load ms acc = (es, Inr policies) \<Longrightarrow> acc p = Some c \<Longrightarrow> policies p = Some c"
proof (induction ms arbitrary: acc es)
  case (Cons m ms)
  from Cons.prems(1) show ?case
  proof (cases rule: load_backends_step)
    case skip
    with Cons show ?thesis by blast
  next
    case (load q config es')
    then have "(acc(q \<mapsto> Some config)) p = Some c" using Cons.prems(2) by auto
    with Cons.IH [OF load(4)] show ?thesis by blast
  qed
qed simp

lemma load_backends_loads:
  "load_backends load ms acc = (es, Inr policies) \<Longrightarrow> m \<in> set ms \<Longrightarrow> mTLS m = Some p \<Longrightarrow> policies p \<noteq> None"
proof (induction ms arbitrary: acc es)
  case (Cons m' ms)
  from Cons.prems(1) show ?case
  proof (cases rule: load_backends_step)
    case skip
    show ?thesis
    proof (cases "m = m'")
      case True
      with skip Cons.prems(3) obtain c where "acc p = Some c" by auto
      with load_backends_keeps [OF skip(1)] show ?thesis by simp
    next
      case False
      with skip Cons show ?thesis by auto
    qed
  next
    case (load q config es')
    show ?thesis
    proof (cases "m = m'")
      case True
      with load_backends_keeps [OF load(4), of p] load(1) Cons.prems(3) show ?thesis by simp
    next
      case False
      with Cons.IH [OF load(4)] Cons.prems show ?thesis by auto
    qed
  qed
qed simp

lemma load_backends_some:
  "load_backends load ms acc = (es, Inr policies) \<Longrightarrow> (\<And>p c. acc p = Some c \<Longrightarrow> c \<noteq> None) \<Longrightarrow>
     policies p = Some c \<Longrightarrow> c \<noteq> None"
proof (induction ms arbitrary: acc es)
  case (Cons m ms)
  from Cons.prems(1) show ?case
  proof (cases rule: load_backends_step)
    case skip
    with Cons show ?thesis by blast
  next
    case (load q config es')
    have "c' \<noteq> None" if "(acc(q \<mapsto> Some config)) p' = Some c'" for p' c'
      using that Cons.prems(2) by (auto split: if_splits)
    with Cons.IH [OF load(4)] Cons.prems(3) show ?thesis by blast
  qed
qed auto

lemma bind_listeners_Inl:
  assumes "bind_listeners listen opened ss = (es, Inl e)"
  shows "(\<forall>l \<in> set opened. ClosedListener l \<in> set es) \<and> (\<forall>a l. Bound a l \<in> set es \<longrightarrow> ClosedListener l \<in> set es)"
  using assms
proof (induction listen opened ss arbitrary: es rule: bind_listeners.induct)
  case (2 listen opened s rest)
  show ?case
  proof (cases "listen (sListen s)")
    case (Inl x)
    with 2 show ?thesis by auto
  next
    case (Inr l)
    with "2.prems" obtain es' where "bind_listeners listen (opened @ [l]) rest = (es', Inl e)" "es = Bound (sListen s) l # es'"
      by (auto split: prod.splits)
    with "2.IH" [OF Inr] show ?thesis by auto
  qed
qed simp

lemma bind_listeners_Inr:
  assumes "bind_listeners listen opened ss = (es, Inr ls)"
  shows "length ls = length opened + length ss \<and> (\<forall>e \<in> set es. is_bound e) \<and>
    map Inr ls = map Inr opened @ map (\<lambda>s. listen (sListen s)) ss"
  using assms
proof (induction listen opened ss arbitrary: es rule: bind_listeners.induct)
  case (2 listen opened s rest)
  then show ?case by (auto split: sum.splits prod.splits)
qed simp

lemma load_frontends_Inr:
  "load_frontends load ss = (es, Inr cs) \<Longrightarrow> length cs = length ss \<and> (\<forall>e \<in> set es. is_load e)"
  by (induction load ss arbitrary: es cs rule: load_frontends.induct)
     (auto split: option.splits sum.splits prod.splits)

lemma load_frontends_tls:
  "load_frontends load ss = (es, Inr cs) \<Longrightarrow> map (map_option Inr) cs = map (\<lambda>s. map_option load (sTLS s)) ss"
  by (induction load ss arbitrary: es cs rule: load_frontends.induct)
     (auto split: option.splits sum.splits prod.splits)

lemma collect_policies_iff: "tls \<in> collect_policies c \<longleftrightarrow> (\<exists>m \<in> set (Mounts c). mTLS m = Some tls)"
proof -
  have "tls \<in> set (List.map_filter mTLS ms) \<longleftrightarrow> (\<exists>m \<in> set ms. mTLS m = Some tls)" for ms
    by (induction ms) (auto simp: List.map_filter_simps split: option.splits)
  then show ?thesis by (simp add: collect_policies_def)
qed

lemma Mount_Validate_target: "Mount_Validate m = None \<Longrightarrow> \<exists>u. url_Parse (mTarget m) = Some u"
  by (auto simp: Mount_Validate_def validate_target_def split: if_splits sum.splits option.splits)

lemma prepare_cases:
  assumes "prepareHTTPRuntime lb lf listen nr snapshot dial c = (es, r)"
  obtains (backend) e where "load_backends lb (Mounts c) Map.empty = (es, Inl e)" "r = Inl e"
  | (frontend) es1 ps es2 e where "load_backends lb (Mounts c) Map.empty = (es1, Inr ps)"
      "load_frontends lf (Servers c) = (es2, Inl e)" "es = es1 @ es2" "r = Inl e"
  | (bind) es1 ps es2 cs es3 e where "load_backends lb (Mounts c) Map.empty = (es1, Inr ps)"
      "load_frontends lf (Servers c) = (es2, Inr cs)" "bind_listeners listen [] (Servers c) = (es3, Inl e)"
      "es = es1 @ es2 @ es3" "r = Inl e"
  | (ready) es1 ps es2 cs es3 ls where "load_backends lb (Mounts c) Map.empty = (es1, Inr ps)"
      "load_frontends lf (Servers c) = (es2, Inr cs)" "bind_listeners listen [] (Servers c) = (es3, Inr ls)"
      "es = es1 @ es2 @ es3"
      "r = Inr \<lparr>rtHandlers = map (server_handler snapshot dial (nr ps)) (Servers c), rtListeners = zip (map sName (Servers c)) (zip ls cs), rtRoutes = nr ps\<rparr>"
  using assms by (auto simp: prepareHTTPRuntime_def split: prod.splits sum.splits)

lemma bind_listeners_no_load: "e \<in> set (fst (bind_listeners listen opened ss)) \<Longrightarrow> \<not> is_load e"
  by (induction listen opened ss rule: bind_listeners.induct) (auto split: sum.splits prod.splits)

lemma no_load_after:
  assumes "es = xs @ ys" and "\<forall>e \<in> set xs. \<not> is_bound e" and "\<forall>e \<in> set ys. \<not> is_load e"
    and "es = pre @ Bound a l # post" and "e \<in> set post"
  shows "\<not> is_load e"
proof -
  have "Bound a l \<notin> set xs" using assms(2) by auto
  then have "\<exists>zs. post = zs \<or> (ys = zs @ Bound a l # post)" by blast
  from assms(1,4) have "xs @ ys = pre @ Bound a l # post" by simp
  then consider us where "xs = pre @ us" "us @ ys = Bound a l # post" | us where "pre = xs @ us" "ys = us @ Bound a l # post"
    by (auto simp: append_eq_append_conv2)
  then show ?thesis
  proof cases
    case 1
    with \<open>Bound a l \<notin> set xs\<close> have "us = []" by (cases us) auto
    with 1 assms(3,5) show ?thesis by auto
  next
    case 2
    with assms(3,5) show ?thesis by auto
  qed
qed

lemma bound_after_loads:
  assumes "load_backends lb ms Map.empty = (es1, x)" and "load_frontends lf ss = (es2, y)" and "bind_listeners listen [] ss = (es3, z)"
    and "es = es1 @ es2 @ es3"
  shows "(\<forall>e \<in> set (es1 @ es2). \<not> is_bound e) \<and> (es = pre @ Bound a l # post \<longrightarrow> (\<forall>e \<in> set post. \<not> is_load e))"
proof -
  have "\<not> is_bound e" if "e \<in> set es1" for e
    using load_backends_log [of e lb ms Map.empty] assms(1) that by (cases e) auto
  then have "\<forall>e \<in> set (es1 @ es2). \<not> is_bound e" "\<forall>e \<in> set es3. \<not> is_load e"
    using load_frontends_log [of _ lf ss] bind_listeners_no_load [of _ listen "[]" ss] assms(2,3) by auto
  then show ?thesis using no_load_after [of es "es1 @ es2" es3 pre a l post] assms(4) by auto
qed

lemma listeners_in_order:
  fixes lf :: "Frontend \<Rightarrow> (load_error, 'tls) result"
  assumes "bind_listeners listen [] ss = (es3, Inr ls)" and "load_frontends lf ss = (es2, Inr cs)"
  shows "map fst (zip (map sName ss) (zip ls cs)) = map sName ss \<and>
    map (\<lambda>x. Inr (fst (snd x))) (zip (map sName ss) (zip ls cs)) = map (\<lambda>s. listen (sListen s)) ss \<and>
    map (\<lambda>x. map_option Inr (snd (snd x))) (zip (map sName ss) (zip ls cs)) = map (\<lambda>s. map_option lf (sTLS s)) ss"
proof -
  have len: "length ls = length ss" "length cs = length ss" "map Inr ls = map (\<lambda>s. listen (sListen s)) ss"
    using bind_listeners_Inr [OF assms(1)] load_frontends_Inr [OF assms(2)] by auto
  moreover have "map (\<lambda>x. Inr (fst (snd x)) :: err + nat) (zip (map sName ss) (zip ls cs)) = map Inr ls"
    using len(1,2) by (intro nth_equalityI) auto
  moreover have "map (\<lambda>x. map_option (Inr :: 'tls \<Rightarrow> load_error + 'tls) (snd (snd x))) (zip (map sName ss) (zip ls cs)) = map (map_option Inr) cs"
    using len(1,2) by (intro nth_equalityI) auto
  ultimately show ?thesis using load_frontends_tls [OF assms(2)] by simp
qed

lemma running_routes:
  assumes "prepareHTTPRuntime lb lf listen (NewHTTPRoutes lib net client) snapshot dial initial = (es, Inr rt)"
    and "running decode initial st" and "m \<in> set (Mounts (Snapshot st))"
  shows "\<exists>connector. connectorForMount (rtRoutes rt) m = Inr connector"
proof -
  from assms(1) obtain es1 ps where ps: "load_backends lb (Mounts initial) Map.empty = (es1, Inr ps)"
    "rtRoutes rt = NewHTTPRoutes lib net client ps"
    by (cases rule: prepare_cases) auto
  have inv: "wf_config (Snapshot st)" "collect_policies (Snapshot st) = collect_policies initial"
    using running_invariant [OF assms(2)] by auto
  then have "Mount_Validate m = None" using assms(3) by (simp add: wf_config_def)
  then obtain u where u: "url_Parse (mTarget m) = Some u" using Mount_Validate_target by blast
  have "\<exists>cfg. ps tls = Some (Some cfg)" if "mTLS m = Some tls" for tls
  proof -
    have "tls \<in> collect_policies (Snapshot st)" using that assms(3) by (auto simp: collect_policies_iff)
    then obtain m' where "m' \<in> set (Mounts initial)" "mTLS m' = Some tls"
      unfolding inv(2) by (auto simp: collect_policies_iff)
    then show ?thesis using load_backends_loads [OF ps(1)] load_backends_some [OF ps(1)] by fastforce
  qed
  then show ?thesis
    using u by (cases "mTLS m") (fastforce simp: connectorForMount_def ps(2) NewHTTPRoutes_def Let_def)+
qed

lemma handler_fields [simp]:
  "hdServer (server_handler snapshot dial routes frontend) = sName frontend"
  "hdSnapshot (server_handler snapshot dial routes frontend) = snapshot"
  "hdConnector (server_handler snapshot dial routes frontend) = routes_connector routes"
  "hdRelay (server_handler snapshot dial routes frontend) = Some (TCP_Connect (Some dial))"
  by (simp_all add: server_handler_def NewReloadableHTTPHandlerWithRoutesAndRelay_def)

lemma handler_names: "map (hdServer \<circ> server_handler snapshot dial routes) ss = map sName ss"
  by simp

section \<open>Properties\<close>

text \<open>C37: start-up is all or nothing and in order. Every TLS identity is loaded before the first socket is
  bound; when anything fails, every listener that was bound is closed again; and a runtime that is
  returned has exactly one handler and one bound listener for each configured server, in order, with the loaded TLS
  configuration exactly for the servers that have a TLS policy.\<close>

theorem startup_order:
  assumes "prepareHTTPRuntime lb lf listen nr snapshot dial c = (es, r)"
  shows "(\<forall>pre a l post. es = pre @ Bound a l # post \<longrightarrow> (\<forall>e \<in> set post. \<not> is_load e)) \<and>
    (case r of
       Inl e \<Rightarrow> \<forall>a l. Bound a l \<in> set es \<longrightarrow> ClosedListener l \<in> set es
     | Inr rt \<Rightarrow> map fst (rtListeners rt) = map sName (Servers c) \<and> map hdServer (rtHandlers rt) = map sName (Servers c) \<and>
         map (\<lambda>x. Inr (fst (snd x))) (rtListeners rt) = map (\<lambda>s. listen (sListen s)) (Servers c) \<and>
         map (\<lambda>x. map_option Inr (snd (snd x))) (rtListeners rt) = map (\<lambda>s. map_option lf (sTLS s)) (Servers c))"
proof -
  have unbound: "\<forall>e \<in> set es1. \<not> is_bound e" if "load_backends lb (Mounts c) Map.empty = (es1, x)" for es1 x
  proof
    fix e assume "e \<in> set es1"
    with that load_backends_log [of e lb "Mounts c" Map.empty] show "\<not> is_bound e" by (cases e) auto
  qed
  from assms show ?thesis
  proof (cases rule: prepare_cases)
    case (backend e)
    with unbound [OF backend(1)] show ?thesis by fastforce
  next
    case (frontend es1 ps es2 e)
    have "\<forall>x \<in> set es. \<not> is_bound x"
      using unbound [OF frontend(1)] load_frontends_log [of _ lf "Servers c"] frontend(2,3) by auto
    with frontend(4) show ?thesis by fastforce
  next
    case (bind es1 ps es2 cs es3 e)
    note order = bound_after_loads [OF bind(1-4)]
    have "ClosedListener l \<in> set es" if "Bound a l \<in> set es" for a l
    proof -
      have "Bound a l \<notin> set (es1 @ es2)" using order by (metis is_bound.simps(1))
      with that bind(4) have "Bound a l \<in> set es3" by simp
      with bind_listeners_Inl [OF bind(3)] bind(4) show ?thesis by auto
    qed
    then show ?thesis using order bind(5) by simp
  next
    case (ready es1 ps es2 cs es3 ls)
    show ?thesis
      using bound_after_loads [OF ready(1-4)] listeners_in_order [OF ready(3,2)] ready(5) by (simp add: handler_names)
  qed
qed

text \<open>A running process always has the connector its configuration asks for. Whatever reloads the process has
  gone through, every mapping of the published configuration has a connector in the routes prepared at
  start-up: its target parses and its backend TLS policy, if any, was loaded.\<close>

theorem running_routes_total:
  assumes "prepareHTTPRuntime lb lf listen (NewHTTPRoutes lib net client) snapshot dial initial = (es, Inr rt)"
    and "running decode initial st" and "m \<in> set (Mounts (Snapshot st))"
  shows "\<exists>connector. connectorForMount (rtRoutes rt) m = Inr connector"
  by (rule running_routes [OF assms])

theorem startup_order_witness:
  "case prepareHTTPRuntime (\<lambda>_. Inl NoCertificates) (\<lambda>_. Inr ()) (\<lambda>a. if a = '':80'' then Inr 7 else Inl []) (NewHTTPRoutes log_client plain_server_peer None)
     Snapshot (\<lambda>_ _ _ s. (s, Inl [])) \<lparr>Servers = [plain_server ''a'' ''http'' '':80'', plain_server ''b'' ''http'' '':81''], Mounts = [], Policies = []\<rparr> of
   (es, r) \<Rightarrow> Bound '':80'' 7 \<in> set es \<and> ClosedListener 7 \<in> set es"
proof -
  let ?c = "\<lparr>Servers = [plain_server ''a'' ''http'' '':80'', plain_server ''b'' ''http'' '':81''], Mounts = [], Policies = []\<rparr>"
  have run: "prepareHTTPRuntime (\<lambda>_. Inl NoCertificates) (\<lambda>_. Inr ()) (\<lambda>a. if a = '':80'' then Inr 7 else Inl []) (NewHTTPRoutes log_client plain_server_peer None)
      Snapshot (\<lambda>_ _ _ s. (s, Inl [])) ?c =
      ([Bound '':80'' 7, ClosedListener 7, ClosedIdle], Inl (ListenFailed ''b'' []))"
    by (simp add: prepareHTTPRuntime_def)
  from startup_order [OF run] show ?thesis unfolding run by auto
qed

theorem running_routes_total_witness:
  "\<exists>connector. connectorForMount (NewHTTPRoutes log_client plain_server_peer None Map.empty)
     (path_mount ''/x'' ''http://b/x'') = Inr connector"
proof -
  let ?c = "\<lparr>Servers = [plain_server ''a'' ''http'' '':80''], Mounts = [path_mount ''/x'' ''http://b/x''], Policies = []\<rparr>"
  let ?r = "NewHTTPRoutes log_client plain_server_peer None" and ?d = "\<lambda>_ _ _ s. (s, Inl [])"
  have "wf_config ?c"
    by (simp add: wf_config_def good_server_def good_scope_def mount_eval path_eval go_defs go_loops)
  then have run: "running (\<lambda>_ :: string. Inr ?c) ?c (Some ?c)" by (intro started) (simp add: NewStore_Inr)
  have "prepareHTTPRuntime (\<lambda>_. Inl NoCertificates) (\<lambda>_. Inl NoCertificates) (\<lambda>_. Inr 1) ?r Snapshot ?d ?c =
      ([Bound '':80'' 1], Inr \<lparr>rtHandlers = [server_handler Snapshot ?d (?r Map.empty) (plain_server ''a'' ''http'' '':80'')], rtListeners = [(''a'', 1, None)], rtRoutes = ?r Map.empty\<rparr>)"
    by (simp add: prepareHTTPRuntime_def)
  from running_routes_total [OF this run] show ?thesis by (simp add: Snapshot_def)
qed

text \<open>No TLS configuration is made for less than version 1.2. Whatever the files hold, a loaded backend or
  listener identity asks for TLS 1.2 or, when the policy says so, 1.3; a backend's custom trust is never
  silently dropped; and a listener always has a certificate.\<close>

theorem tls_minimum:
  shows "(LoadBackend fs b = Inr cfg \<longrightarrow>
      cfgMinVersion cfg = (if BackendMinimumVersion b = ''1.3'' then VersionTLS13 else VersionTLS12) \<and>
      VersionTLS12 \<le> cfgMinVersion cfg \<and> (CAFile b \<noteq> [] \<longrightarrow> cfgRootCAs cfg \<noteq> None) \<and>
      (ClientCertificateFile b \<noteq> [] \<longrightarrow> cfgCertificates cfg \<noteq> [])) \<and>
    (LoadFrontend fs f = Inr cfg \<longrightarrow> VersionTLS12 \<le> cfgMinVersion cfg \<and> cfgCertificates cfg \<noteq> [])"
  by (auto simp: LoadBackend_def LoadFrontend_def load_roots_def minimumVersion_def VersionTLS12_def VersionTLS13_def Let_def
      split: option.splits if_splits sum.splits)

theorem tls_minimum_witness:
  "LoadFrontend \<lparr>SystemCertPool = Inl [], ReadFile = (\<lambda>_. Inl []), AppendCertsFromPEM = (\<lambda>_ _. None), LoadX509KeyPair = (\<lambda>c k. Inr c)\<rparr>
     \<lparr>CertificateFile = ''c'', PrivateKeyFile = ''k'', FrontendMinimumVersion = []\<rparr> =
     Inr \<lparr>cfgServerName = [], cfgMinVersion = VersionTLS12, cfgRootCAs = (None :: unit option), cfgCertificates = [''c'']\<rparr> \<and>
   VersionTLS12 \<le> cfgMinVersion \<lparr>cfgServerName = [], cfgMinVersion = VersionTLS12, cfgRootCAs = (None :: unit option), cfgCertificates = [''c'']\<rparr>"
proof -
  let ?fs = "\<lparr>SystemCertPool = Inl [], ReadFile = (\<lambda>_. Inl []), AppendCertsFromPEM = (\<lambda>_ _. None), LoadX509KeyPair = (\<lambda>c k. Inr c)\<rparr>"
  let ?f = "\<lparr>CertificateFile = ''c'', PrivateKeyFile = ''k'', FrontendMinimumVersion = []\<rparr>"
  let ?cfg = "\<lparr>cfgServerName = [], cfgMinVersion = VersionTLS12, cfgRootCAs = (None :: unit option), cfgCertificates = [''c'']\<rparr>"
  have "Frontend_Validate ?f = None"
    by (simp add: Frontend_Validate_def validateFileReference_def validateMinimumVersion_def go_defs go_loops)
  then have "LoadFrontend ?fs ?f = Inr ?cfg" by (simp add: LoadFrontend_def minimumVersion_def)
  with tls_minimum [of ?fs "\<lparr>CAFile = [], ServerName = [], ClientCertificateFile = [], ClientPrivateKeyFile = [], BackendMinimumVersion = []\<rparr>" ?cfg ?f] show ?thesis by simp
qed

end
