(* ===== verification/Server_Lifecycle.thy ===== *)
theory Server_Lifecycle
  imports Registry
begin

text \<open>
  \<^verbatim>\<open>Serve\<close> of \<^verbatim>\<open>server/lifecycle.go\<close> and \<^verbatim>\<open>ServeAll\<close> of \<^verbatim>\<open>server/group.go\<close>: the end of one HTTP server and of
  a group of them. The \<^verbatim>\<open>http.Server\<close> is outside the program; what its \<^verbatim>\<open>Serve\<close> and \<^verbatim>\<open>Shutdown\<close> return, which
  of two ready channels a \<^verbatim>\<open>select\<close> takes, and what the handlers do to the session registry meanwhile, are
  the fields of \<open>serve_env\<close>, so that a theorem about all of them covers all interleavings.
\<close>

section \<open>Errors\<close>

datatype serve_cause = ErrServerClosed | NetErrClosed | OtherServeError string

text \<open>An error of \<^verbatim>\<open>http.Server.Serve\<close> is the chain of errors it wraps.\<close>

definition normalizeServeError :: "serve_cause list option \<Rightarrow> serve_cause list option" where
  "normalizeServeError err =
     (case err of
        None \<Rightarrow> None
      | Some e \<Rightarrow> if List.member e ErrServerClosed \<or> List.member e NetErrClosed then None else Some e)"

datatype lifecycle_error =
    GracefulShutdown string
  | ServeError "serve_cause list"
  | LengthsDiffer
  | StoppedUnexpectedly

section \<open>One server\<close>

text \<open>\<open>ended_first\<close> is the result of \<^verbatim>\<open>httpServer.Serve\<close> if it comes before the cancellation, \<open>ended_later\<close> if not;
  \<open>before_drain\<close>, \<open>during_shutdown\<close> and \<open>during_wait\<close> are what handlers do to the registry in these phases.\<close>

record serve_env =
  owns_sessions :: bool
  ended_first :: "serve_cause list option option"
  before_drain :: "reg_event list"
  during_shutdown :: "reg_event list"
  shutdown_error :: "string option"
  during_wait :: "reg_event list"
  takes_timeout :: bool
  ended_later :: "serve_cause list option"

datatype serve_action = BeganDrain | ShutdownCalled | ForcedClose | ServerClosed

text \<open>\<^verbatim>\<open>forceCloseSessions\<close> with all its calls of \<^verbatim>\<open>Close\<close>.\<close>

definition forceCloseSessions :: "connectionSessions tracked \<Rightarrow> connectionSessions tracked" where
  "forceCloseSessions t =
     (case forceClose (registry t) of
        (s, toClose) \<Rightarrow> t\<lparr>registry := s, closed_conns := closed_conns t \<union> toClose, shut_called := True\<rparr>)"

text \<open>The wait for the sessions: the channel is taken only if it is closed, the timeout comes at last.\<close>

definition wait_sessions :: "serve_env \<Rightarrow> connectionSessions tracked \<Rightarrow> connectionSessions tracked \<times> serve_action list" where
  "wait_sessions env t =
     (if \<not> owns_sessions env then (t, [])
      else (let t' = foldl sessions.event t (during_wait env) in
        if drained (registry t') \<and> \<not> takes_timeout env then (t', [])
        else (forceCloseSessions t', [ForcedClose])))"

definition after_failed_shutdown ::
    "serve_env \<Rightarrow> connectionSessions tracked \<times> serve_action list \<Rightarrow> connectionSessions tracked \<times> serve_action list" where
  "after_failed_shutdown env =
     (\<lambda>(t, log). if shutdown_error env = None then (t, log)
       else if owns_sessions env then (forceCloseSessions t, log @ [ServerClosed, ForcedClose])
       else (t, log @ [ServerClosed]))"

definition Serve ::
    "serve_env \<Rightarrow> connectionSessions tracked \<Rightarrow> lifecycle_error option \<times> connectionSessions tracked \<times> serve_action list" where
  "Serve env t0 =
     (let t1 = foldl sessions.event t0 (before_drain env);
          t2 = (if owns_sessions env then sessions.event t1 EvQuiet else t1);
          t3 = foldl sessions.event t2 (during_shutdown env);
          (t4, log) = after_failed_shutdown env (wait_sessions env t3);
          serveErr = normalizeServeError (case ended_first env of Some r \<Rightarrow> r | None \<Rightarrow> ended_later env)
      in (case shutdown_error env of
            Some e \<Rightarrow> Some (GracefulShutdown e)
          | None \<Rightarrow> map_option ServeError serveErr,
          t4, (if owns_sessions env then [BeganDrain] else []) @ ShutdownCalled # log))"

section \<open>A group of servers\<close>

text \<open>The results as \<^verbatim>\<open>ServeAll\<close> receives them, and whether the parent context was done when the first came.\<close>

definition first_error_of :: "lifecycle_error option list \<Rightarrow> lifecycle_error option" where
  "first_error_of results = foldl (\<lambda>r err. if r = None \<and> err \<noteq> None then err else r) (hd results) (tl results)"

definition ServeAll ::
    "nat \<Rightarrow> (serve_env \<times> connectionSessions tracked) list \<Rightarrow> bool \<Rightarrow>
       lifecycle_error option \<times> connectionSessions tracked list" where
  "ServeAll listeners finished parentStopped =
     (if finished = [] \<or> length finished \<noteq> listeners then (Some LengthsDiffer, map snd finished)
      else
        (let outs = map (\<lambda>(env, t). Serve env t) finished;
             found = first_error_of (map fst outs)
         in (if found = None \<and> \<not> parentStopped then Some StoppedUnexpectedly else found,
             map (fst \<circ> snd) outs)))"

section \<open>Lemmas\<close>

lemma quiet_event: "sessions.event t EvQuiet = t\<lparr>registry := beginDrain (registry t)\<rparr>"
  by simp

lemma draining_event: "draining (registry t) \<Longrightarrow> draining (registry (sessions.event t e))"
  by (cases e) (auto simp: sessions_add_conn_def sessions_add_def sessions_remove_def forceClose_def beginDrain_def
      closeDrainedLocked_def Let_def)

lemma draining_run: "draining (registry t) \<Longrightarrow> draining (registry (foldl sessions.event t es))"
  by (induction es arbitrary: t) (simp_all del: sessions.event.simps add: draining_event)

lemma reachable_event: "sessions_reachable (registry t) \<Longrightarrow> sessions_reachable (registry (sessions.event t e))"
proof (cases e)
  case (EvAdd c)
  assume "sessions_reachable (registry t)"
  from sessions_reachable.add [OF this, of "Some c"] EvAdd show ?thesis
    by (simp add: sessions_add_conn_def split: prod.splits) (metis fst_conv snd_conv)
next
  case EvShut
  assume "sessions_reachable (registry t)"
  from sessions_reachable.force [OF this] EvShut show ?thesis by (simp add: split_beta)
qed (auto intro: sessions_reachable.intros)

lemma reachable_run: "sessions_reachable (registry t) \<Longrightarrow> sessions_reachable (registry (foldl sessions.event t es))"
  by (induction es arbitrary: t) (simp_all del: sessions.event.simps add: reachable_event)

text \<open>The calls that handlers make while the server ends. Only \<^verbatim>\<open>Serve\<close> itself calls \<^verbatim>\<open>forceCloseSessions\<close>, so none of
  them is \<open>EvShut\<close>.\<close>

definition handler_events :: "serve_env \<Rightarrow> reg_event list" where
  "handler_events env = before_drain env @ during_shutdown env @ during_wait env"

text \<open>Until a server force-closes, a session that its handler has not given back is registered or closed.\<close>

definition sessions_kept :: "connectionSessions tracked \<Rightarrow> bool" where
  "sessions_kept t \<longleftrightarrow> sessions_reachable (registry t) \<and> owned t \<subseteq> sItems (registry t) \<union> closed_conns t"

lemma kept_event: "sessions_kept t \<Longrightarrow> e \<noteq> EvShut \<Longrightarrow> sessions_kept (sessions.event t e)"
  unfolding sessions_kept_def
proof (elim conjE, intro conjI reachable_event, assumption)
  assume "owned t \<subseteq> sItems (registry t) \<union> closed_conns t" "e \<noteq> EvShut"
  then show "owned (sessions.event t e) \<subseteq> sItems (registry (sessions.event t e)) \<union> closed_conns (sessions.event t e)"
    using sessions.remove_items [of "registry t"] sessions.quiet_items [of "registry t"]
    by (cases e) (auto simp: sessions_add_conn_def sessions_add_def)
qed

lemma kept_run: "sessions_kept t \<Longrightarrow> EvShut \<notin> set es \<Longrightarrow> sessions_kept (foldl sessions.event t es)"
  by (induction es arbitrary: t) (use kept_event in \<open>auto simp del: sessions.event.simps\<close>)

lemma kept_start: "EvShut \<notin> set es \<Longrightarrow> sessions_kept (foldl sessions.event (fresh newConnectionSessions) es)"
  by (rule kept_run) (simp_all add: sessions_kept_def sessions_reachable.new)

text \<open>What holds when a server has ended: it is draining for good, no session is registered, and every session that
  its handler has not given back is closed.\<close>

definition sessions_ended :: "connectionSessions tracked \<Rightarrow> bool" where
  "sessions_ended t \<longleftrightarrow> draining (registry t) \<and> drained (registry t) \<and> sItems (registry t) = {} \<and> owned t \<subseteq> closed_conns t"

lemma forceCloseSessions_ended: "owned t \<subseteq> sItems (registry t) \<union> closed_conns t \<Longrightarrow> sessions_ended (forceCloseSessions t)"
  by (auto simp: sessions_ended_def forceCloseSessions_def forceClose_def closeDrainedLocked_def)

lemma wait_sessions_ended:
  assumes "owns_sessions env" and "sessions_kept t" and "EvShut \<notin> set (during_wait env)"
  shows "sessions_ended (fst (wait_sessions env t))"
proof -
  let ?t = "foldl sessions.event t (during_wait env)"
  have kept: "sessions_kept ?t" by (rule kept_run [OF assms(2,3)])
  then have "sessions_ended ?t" if "drained (registry ?t)"
    using sessions_reachable_inv [of "registry ?t"] that by (auto simp: sessions_ended_def sessions_kept_def)
  with kept assms(1) show ?thesis
    by (simp add: wait_sessions_def Let_def sessions_kept_def forceCloseSessions_ended)
qed

lemma Serve_ended:
  assumes "owns_sessions env" and "sessions_kept t" and "EvShut \<notin> set (handler_events env)"
    and "Serve env t = (r, t', log)"
  shows "sessions_ended t'"
proof -
  let ?t3 = "foldl sessions.event (sessions.event (foldl sessions.event t (before_drain env)) EvQuiet) (during_shutdown env)"
  have "sessions_kept ?t3" and "EvShut \<notin> set (during_wait env)"
    using assms(2,3) by (simp_all only: handler_events_def set_append Un_iff de_Morgan_disj kept_run kept_event
        reg_event.distinct simp_thms)
  note w = wait_sessions_ended [OF assms(1) this]
  have "t' = fst (after_failed_shutdown env (wait_sessions env ?t3))"
    using assms(1,4) by (simp add: Serve_def Let_def split: prod.splits del: sessions.event.simps)
  moreover have "sessions_ended (forceCloseSessions (fst (wait_sessions env ?t3)))"
    using w by (intro forceCloseSessions_ended) (auto simp: sessions_ended_def)
  ultimately show ?thesis using w assms(1) by (auto simp: after_failed_shutdown_def split: prod.splits)
qed

lemma first_error_of_None: "results \<noteq> [] \<Longrightarrow> first_error_of results = None \<longleftrightarrow> (\<forall>r \<in> set results. r = None)"
proof -
  have "foldl (\<lambda>r err. if r = None \<and> err \<noteq> None then err else r) a rs = None \<longleftrightarrow> a = None \<and> (\<forall>r \<in> set rs. r = None)"
    for a :: "lifecycle_error option" and rs
    by (induction rs arbitrary: a) auto
  then show "results \<noteq> [] \<Longrightarrow> ?thesis" by (cases results) (simp_all add: first_error_of_def)
qed

lemma first_error_of_Some:
  assumes "first_error_of results = Some e" and "results \<noteq> []"
  shows "\<exists>pre post. results = pre @ Some e # post \<and> (\<forall>r \<in> set pre. r = None)"
proof -
  have "\<exists>pre post. a # rs = pre @ Some e # post \<and> (\<forall>r \<in> set pre. r = None)"
    if "foldl (\<lambda>r err. if r = None \<and> err \<noteq> None then err else r) a rs = Some e" for a :: "lifecycle_error option" and rs
    using that
  proof (induction rs arbitrary: a)
    case (Cons b rs)
    show ?case
    proof (cases a)
      case None
      with Cons.prems have "foldl (\<lambda>r err. if r = None \<and> err \<noteq> None then err else r) b rs = Some e"
        by (simp split: if_splits)
      from Cons.IH [OF this] obtain pre post where "b # rs = pre @ Some e # post" "\<forall>r \<in> set pre. r = None" by blast
      with None show ?thesis by (intro exI [of _ "None # pre"] exI [of _ post]) simp
    next
      case (Some x)
      have "foldl (\<lambda>r err. if r = None \<and> err \<noteq> None then err else r) (Some x) rs = Some x"
        by (induction rs) simp_all
      with Some Cons.prems show ?thesis by (intro exI [of _ "[]"] exI [of _ "b # rs"]) simp
    qed
  qed (auto intro: exI [of _ "[]"])
  with assms show ?thesis by (cases results) (auto simp: first_error_of_def)
qed

section \<open>Properties\<close>

text \<open>C20: a server that has ended holds no session. Whatever the reason it ended for, whatever \<^verbatim>\<open>Shutdown\<close>
  returned, and whatever sessions the handlers added, gave back and closed meanwhile, when \<^verbatim>\<open>Serve\<close> returns the
  registry refuses every new session, is empty, and every session that it took and a handler has not given
  back is closed; the drain begins before the shutdown; and the error is that of the shutdown if it failed,
  otherwise that of serving, where a closed server or listener counts as success.\<close>

theorem Serve_ends_sessions:
  assumes "owns_sessions env" and "EvShut \<notin> set (es @ handler_events env)"
    and "Serve env (foldl sessions.event (fresh newConnectionSessions) es) = (r, t, log)"
  shows "sessions_ended t \<and> (\<exists>rest. log = BeganDrain # ShutdownCalled # rest) \<and>
    (r = None \<longleftrightarrow> shutdown_error env = None \<and>
       (let e = (case ended_first env of Some x \<Rightarrow> x | None \<Rightarrow> ended_later env) in
        \<forall>chain. e = Some chain \<longrightarrow> ErrServerClosed \<in> set chain \<or> NetErrClosed \<in> set chain))"
proof (intro conjI)
  show "sessions_ended t" using Serve_ended [OF assms(1) kept_start _ assms(3)] assms(2) by simp
  show "\<exists>rest. log = BeganDrain # ShutdownCalled # rest"
    using assms(1,3) by (auto simp: Serve_def Let_def split: prod.splits)
  show "r = None \<longleftrightarrow> shutdown_error env = None \<and>
       (let e = (case ended_first env of Some x \<Rightarrow> x | None \<Rightarrow> ended_later env) in
        \<forall>chain. e = Some chain \<longrightarrow> ErrServerClosed \<in> set chain \<or> NetErrClosed \<in> set chain)"
    using assms(3) by (auto simp: Serve_def Let_def normalizeServeError_def split: prod.splits option.splits if_splits)
qed

abbreviation plain_env :: serve_env where
  "plain_env \<equiv> \<lparr>owns_sessions = True, ended_first = None, before_drain = [], during_shutdown = [EvAdd 2, EvClose 2],
     shutdown_error = Some ''deadline'', during_wait = [], takes_timeout = True, ended_later = Some [ErrServerClosed]\<rparr>"

theorem Serve_ends_sessions_witness:
  "1 \<in> closed_conns (fst (snd (Serve plain_env (foldl sessions.event (fresh newConnectionSessions) [EvAdd 1])))) \<and>
   fst (Serve plain_env (foldl sessions.event (fresh newConnectionSessions) [EvAdd 1])) = Some (GracefulShutdown ''deadline'')"
proof -
  obtain r t log where run: "Serve plain_env (foldl sessions.event (fresh newConnectionSessions) [EvAdd 1]) = (r, t, log)"
    by (rule prod_cases3)
  have "sessions_ended t" using Serve_ends_sessions [OF _ _ run] by (simp add: handler_events_def)
  moreover have "1 \<in> owned t \<and> r = Some (GracefulShutdown ''deadline'')"
    using run by (auto simp: Serve_def Let_def wait_sessions_def after_failed_shutdown_def forceCloseSessions_def
        forceClose_def beginDrain_def newConnectionSessions_def sessions_add_conn_def sessions_add_def closeDrainedLocked_def)
  ultimately show ?thesis unfolding run by (auto simp: sessions_ended_def)
qed

text \<open>A group ends together. \<^verbatim>\<open>ServeAll\<close> returns only when every server has ended its sessions; it succeeds
  exactly when the parent was stopped and every server ended without error; the error it reports is the
  first one that arrived; and a server that stops by itself without an error is reported too.\<close>

theorem ServeAll_ends_sessions:
  assumes "ServeAll listeners finished parentStopped = (r, ts)"
    and "\<forall>(env, t) \<in> set finished. owns_sessions env \<and> EvShut \<notin> set (handler_events env) \<and>
        (\<exists>es. EvShut \<notin> set es \<and> t = foldl sessions.event (fresh newConnectionSessions) es)"
  shows "(r \<noteq> Some LengthsDiffer \<longrightarrow> length ts = listeners \<and> (\<forall>t \<in> set ts. sessions_ended t)) \<and>
    (r = None \<longleftrightarrow> finished \<noteq> [] \<and> length finished = listeners \<and> parentStopped \<and>
       (\<forall>(env, t) \<in> set finished. fst (Serve env t) = None)) \<and>
    (\<forall>e. r = Some e \<and> e \<noteq> LengthsDiffer \<and> e \<noteq> StoppedUnexpectedly \<longrightarrow>
       (\<exists>pre x post. finished = pre @ x # post \<and> fst (Serve (fst x) (snd x)) = Some e \<and>
          (\<forall>(env, t) \<in> set pre. fst (Serve env t) = None)))"
proof (cases "finished = [] \<or> length finished \<noteq> listeners")
  case True
  with assms(1) show ?thesis by (auto simp: ServeAll_def)
next
  case False
  let ?outs = "map (\<lambda>(env, t). Serve env t) finished"
  have r: "r = (if first_error_of (map fst ?outs) = None \<and> \<not> parentStopped then Some StoppedUnexpectedly
      else first_error_of (map fst ?outs))" and ts: "ts = map (fst \<circ> snd) ?outs"
    using assms(1) False by (simp_all add: ServeAll_def Let_def split: if_splits)
  have ended: "sessions_ended (fst (snd (Serve env t)))" if "(env, t) \<in> set finished" for env t
  proof -
    from assms(2) that obtain es where "owns_sessions env" "EvShut \<notin> set (handler_events env)" "EvShut \<notin> set es"
      and t: "t = foldl sessions.event (fresh newConnectionSessions) es" by auto
    then show ?thesis using Serve_ended [OF _ kept_start, of env es] by (metis prod.collapse)
  qed
  have none: "first_error_of (map fst ?outs) = None \<longleftrightarrow> (\<forall>(env, t) \<in> set finished. fst (Serve env t) = None)"
    using False by (subst first_error_of_None) auto
  show ?thesis
  proof (intro conjI allI impI)
    assume "r \<noteq> Some LengthsDiffer"
    show "length ts = listeners" using False ts by simp
  next
    show "\<forall>t \<in> set ts. sessions_ended t" using ended by (auto simp: ts)
  next
    show "r = None \<longleftrightarrow> finished \<noteq> [] \<and> length finished = listeners \<and> parentStopped \<and>
       (\<forall>(env, t) \<in> set finished. fst (Serve env t) = None)"
      using False r none by auto
  next
    fix e assume e: "r = Some e \<and> e \<noteq> LengthsDiffer \<and> e \<noteq> StoppedUnexpectedly"
    then have "first_error_of (map fst ?outs) = Some e" using r by (auto split: if_splits)
    from first_error_of_Some [OF this] False obtain pre post
      where split: "map fst ?outs = pre @ Some e # post" "\<forall>x \<in> set pre. x = None" by auto
    then obtain fpre x fpost where "finished = fpre @ x # fpost" "map (\<lambda>p. fst (Serve (fst p) (snd p))) fpre = pre"
      "fst (Serve (fst x) (snd x)) = Some e"
      by (auto simp: map_eq_append_conv map_eq_Cons_conv split_beta comp_def)
    with split(2) show "\<exists>pre x post. finished = pre @ x # post \<and> fst (Serve (fst x) (snd x)) = Some e \<and>
          (\<forall>(env, t) \<in> set pre. fst (Serve env t) = None)"
      by - (rule exI [of _ fpre], rule exI [of _ x], rule exI [of _ fpost], fastforce)
  qed
qed

theorem ServeAll_ends_sessions_witness:
  "case ServeAll 1 [(plain_env\<lparr>shutdown_error := None\<rparr>, fresh newConnectionSessions)] True of (r, ts) \<Rightarrow>
     r = None \<and> (\<forall>t \<in> set ts. sessions_ended t)"
proof -
  let ?f = "[(plain_env\<lparr>shutdown_error := None\<rparr>, fresh newConnectionSessions)]"
  obtain r ts where run: "ServeAll 1 ?f True = (r, ts)" by (rule prod.exhaust)
  have "r = None" using run
    by (auto simp: ServeAll_def Let_def first_error_of_def Serve_def normalizeServeError_def split: prod.splits)
  moreover have "\<exists>es. EvShut \<notin> set es \<and> fresh newConnectionSessions = foldl sessions.event (fresh newConnectionSessions) es"
    by (rule exI [of _ "[]"]) simp
  ultimately show ?thesis using ServeAll_ends_sessions [OF run] unfolding run by (simp add: handler_events_def)
qed

end
