(* ===== verification/Simulation.thy ===== *)
theory Simulation
  imports Prelude
begin

text \<open>
  What the step relations of the development share: the states a machine can reach, the projection of a
  composed machine onto one of its parts, and the end of a machine that winds down. The locales state the
  contracts; \<open>Bridge\<close>, \<open>Tailcat_Ingress\<close> and \<open>Address_Route\<close> interpret them.
\<close>

section \<open>Reachable states\<close>

inductive reach :: "('s \<Rightarrow> bool) \<Rightarrow> ('s \<Rightarrow> 's \<Rightarrow> bool) \<Rightarrow> 's \<Rightarrow> bool"
  for init :: "'s \<Rightarrow> bool" and step :: "'s \<Rightarrow> 's \<Rightarrow> bool" where
  reach_init: "init s \<Longrightarrow> reach init step s"
| reach_step: "reach init step s \<Longrightarrow> step s s' \<Longrightarrow> reach init step s'"

section \<open>Projection\<close>

text \<open>Every step of the composed machine is a step of the part, or leaves the part alone. \<open>inv\<close> is what the
  composed machine keeps, which its steps may rely on.\<close>

locale projection =
  fixes init :: "'s \<Rightarrow> bool" and step :: "'s \<Rightarrow> 's \<Rightarrow> bool" and inv :: "'s \<Rightarrow> bool"
    and part :: "'s \<Rightarrow> 'p" and reachable :: "'p \<Rightarrow> bool" and part_step :: "'p \<Rightarrow> 'p \<Rightarrow> bool"
  assumes inv_init: "init s \<Longrightarrow> inv s"
    and inv_step: "inv s \<Longrightarrow> reachable (part s) \<Longrightarrow> step s s' \<Longrightarrow> inv s'"
    and part_init: "init s \<Longrightarrow> reachable (part s)"
    and part_reachable: "reachable p \<Longrightarrow> part_step p p' \<Longrightarrow> reachable p'"
    and part_moves: "inv s \<Longrightarrow> step s s' \<Longrightarrow> part_step (part s) (part s') \<or> part s' = part s"
begin

lemma projects: "reach init step s \<Longrightarrow> inv s \<and> reachable (part s)"
proof (induction rule: reach.induct)
  case (reach_step s s')
  then show ?case using inv_step part_moves part_reachable by metis
qed (blast intro: inv_init part_init)

end

section \<open>Winding down\<close>

text \<open>Runs in which the steps of the machine itself and those that feed it from outside are counted apart.\<close>

inductive run_counted :: "('s \<Rightarrow> 's \<Rightarrow> bool) \<Rightarrow> ('s \<Rightarrow> 's \<Rightarrow> bool) \<Rightarrow> nat \<Rightarrow> nat \<Rightarrow> 's \<Rightarrow> 's \<Rightarrow> bool"
  for own :: "'s \<Rightarrow> 's \<Rightarrow> bool" and feed :: "'s \<Rightarrow> 's \<Rightarrow> bool" where
  run_none: "run_counted own feed 0 0 s s"
| run_own: "run_counted own feed n k s m \<Longrightarrow> own m s' \<Longrightarrow> run_counted own feed (Suc n) k s s'"
| run_feed: "run_counted own feed n k s m \<Longrightarrow> feed m s' \<Longrightarrow> run_counted own feed n (Suc k) s s'"

lemma run_counted_relpowp: "(own ^^ n) s s' \<Longrightarrow> run_counted own feed n 0 s s'"
  by (induction n arbitrary: s') (auto intro: run_counted.intros)

text \<open>\<open>own\<close> steps make the weight smaller, a \<open>feed\<close> step makes it larger by at most \<open>cost\<close>, and as long as the
  machine is not \<open>done\<close> a \<open>due\<close> step is possible, which needs nothing from outside.\<close>

locale winding_down =
  fixes inv :: "'s \<Rightarrow> bool" and own :: "'s \<Rightarrow> 's \<Rightarrow> bool" and due :: "'s \<Rightarrow> 's \<Rightarrow> bool"
    and feed :: "'s \<Rightarrow> 's \<Rightarrow> bool" and ended :: "'s \<Rightarrow> bool" and weight :: "'s \<Rightarrow> nat" and cost :: nat
  assumes due_own: "due s s' \<Longrightarrow> own s s'"
    and keep_own: "inv s \<Longrightarrow> own s s' \<Longrightarrow> inv s'"
    and keep_feed: "inv s \<Longrightarrow> feed s s' \<Longrightarrow> inv s'"
    and own_lighter: "inv s \<Longrightarrow> own s s' \<Longrightarrow> weight s' < weight s"
    and feed_heavier: "inv s \<Longrightarrow> feed s s' \<Longrightarrow> weight s' \<le> weight s + cost"
    and progress: "inv s \<Longrightarrow> \<not> ended s \<Longrightarrow> \<exists>s'. due s s'"
begin

lemma bounded: "run_counted own feed n k s s' \<Longrightarrow> inv s \<Longrightarrow> n + weight s' \<le> weight s + cost * k \<and> inv s'"
proof (induction rule: run_counted.induct)
  case (run_own n k s m s')
  then show ?case using own_lighter [of m s'] keep_own [of m s'] by fastforce
next
  case (run_feed n k s m s')
  then show ?case using feed_heavier [of m s'] keep_feed [of m s'] by fastforce
qed simp

lemma ends:
  assumes "inv s"
  shows "\<exists>m s'. (due ^^ m) s s' \<and> ended s' \<and> inv s'"
  using assms
proof (induction "weight s" arbitrary: s rule: less_induct)
  case less
  show ?case
  proof (cases "ended s")
    case True
    with less.prems show ?thesis by (intro exI [of _ 0] exI [of _ s]) simp
  next
    case False
    then obtain u where u: "due s u" using progress less.prems by blast
    then have "inv u" "weight u < weight s" using due_own keep_own own_lighter less.prems by blast+
    with less.hyps obtain m s' where "(due ^^ m) u s'" "ended s' \<and> inv s'" by blast
    with relpowp_Suc_I2 [of due, OF u] show ?thesis by blast
  qed
qed

lemma winds_down:
  assumes "inv s"
  shows "(run_counted own feed n k s s' \<longrightarrow> n \<le> weight s + cost * k \<and> (ended s' \<or> (\<exists>u. due s' u))) \<and>
    (\<exists>m u. (due ^^ m) s u \<and> ended u)"
  using bounded [of n k s s'] progress [of s'] ends [OF assms] assms by fastforce

end

end
