(* ===== verification/Bridge.thy ===== *)
theory Bridge
  imports Registry Simulation
begin

text \<open>
  \<^verbatim>\<open>Serve\<close> of \<^verbatim>\<open>link/bridge.go\<close> as a step relation over all its goroutines: the accept loop, the watcher of
  the context, and one goroutine per accepted client that dials, registers and relays. A step is what one
  goroutine does between two points where another can come in. \<open>forced\<close> steps happen by themselves once
  they are enabled; \<open>free\<close> steps are choices of the outside: a client connects, a peer ends its stream, a
  dial succeeds, the context is cancelled. The registry operations are those of \<open>Registry\<close>.
\<close>

section \<open>The state\<close>

text \<open>What a goroutine's deferred calls do when it returns, last deferred first.\<close>

datatype deferred = DRemove conn | DClose conn

text \<open>The goroutine of one client: while \<^verbatim>\<open>dial\<close> runs, after it returned a connection, after the context was
  found alive, in \<^verbatim>\<open>relay\<close> (for each direction whether its copy has ended), and in its deferred calls.
  With no deferred call left it has ended.\<close>

datatype stream_state =
    Dialing
  | Dialed conn
  | Connected conn
  | Relaying conn bool bool
  | Unwind "deferred list"

text \<open>The goroutine of \<^verbatim>\<open>Serve\<close>. \<open>Closing\<close> is \<^verbatim>\<open>active.Close()\<close> after its unlock, with the connections still to
  close; the optional text is the accept error that \<^verbatim>\<open>Serve\<close> will return.\<close>

datatype serve_phase =
    Accepting
  | Accepted conn
  | Checked conn
  | AcceptFailed string
  | Draining
  | Closing "conn set" "string option"
  | Waiting "string option"
  | Returned "string option"

record bridge_state =
  bPhase :: serve_phase
  bCancelled :: bool
  bListening :: bool
  bWatching :: bool
  bActive :: connections
  bStreams :: "(conn \<times> stream_state) list"
  bOpened :: "conn set"
  bClosed :: "conn set"

datatype serve_arg_error = ListenerRequired | DialerRequired | DrainNotPositive

text \<open>The checks at the start, and the state from which the loop starts.\<close>

definition serve_check :: "bool \<Rightarrow> bool \<Rightarrow> int \<Rightarrow> serve_arg_error option" where
  "serve_check listener dial drain =
     (if \<not> listener then Some ListenerRequired
      else if \<not> dial then Some DialerRequired
      else if drain \<le> 0 then Some DrainNotPositive
      else None)"

definition serve_start :: "bool \<Rightarrow> bool \<Rightarrow> bridge_state" where
  "serve_start ctx_done listening =
     \<lparr>bPhase = Accepting, bCancelled = ctx_done, bListening = listening, bWatching = True, bActive = newConnections,
      bStreams = [], bOpened = {}, bClosed = {}\<rparr>"

section \<open>What the goroutines do\<close>

definition set_stream :: "nat \<Rightarrow> stream_state \<Rightarrow> bridge_state \<Rightarrow> bridge_state" where
  "set_stream i ph s = s\<lparr>bStreams := (bStreams s)[i := (fst (bStreams s ! i), ph)]\<rparr>"

definition all_finished :: "bridge_state \<Rightarrow> bool" where
  "all_finished s \<longleftrightarrow> list_all (\<lambda>(_, ph). ph = Unwind []) (bStreams s)"

text \<open>\<^verbatim>\<open>if ctx.Err() != nil { client.Close(); break }\<close>\<close>

definition accepted_check :: "conn \<Rightarrow> bridge_state \<Rightarrow> bridge_state" where
  "accepted_check c s =
     (if bCancelled s then s\<lparr>bPhase := Draining, bClosed := insert c (bClosed s)\<rparr>
      else s\<lparr>bPhase := Checked c\<rparr>)"

text \<open>\<^verbatim>\<open>if !active.Add(client) { break }\<close>, and the start of the client's goroutine.\<close>

definition checked_add :: "conn \<Rightarrow> bridge_state \<Rightarrow> bridge_state" where
  "checked_add c s =
     (case connections_Add (bActive s) c of
        (True, a, toClose) \<Rightarrow>
          s\<lparr>bPhase := Accepting, bActive := a, bStreams := bStreams s @ [(c, Dialing)], bClosed := bClosed s \<union> toClose\<rparr>
      | (False, a, toClose) \<Rightarrow> s\<lparr>bPhase := Draining, bActive := a, bClosed := bClosed s \<union> toClose\<rparr>)"

text \<open>\<^verbatim>\<open>active.Close()\<close> up to its unlock.\<close>

definition begin_close :: "string option \<Rightarrow> bridge_state \<Rightarrow> bridge_state" where
  "begin_close e s =
     (case connections_Close (bActive s) of (a, items) \<Rightarrow> s\<lparr>bPhase := Closing items e, bActive := a\<rparr>)"

text \<open>The check after the dial.\<close>

definition client_deferred :: "conn \<Rightarrow> deferred list" where
  "client_deferred c = [DRemove c, DClose c]"

definition dialed_check :: "nat \<Rightarrow> conn \<Rightarrow> conn \<Rightarrow> bridge_state \<Rightarrow> bridge_state" where
  "dialed_check i c r s =
     (if bCancelled s then set_stream i (Unwind (DClose r # client_deferred c)) s
      else set_stream i (Connected r) s)"

text \<open>\<^verbatim>\<open>relay\<close> starts one copy for each direction and waits for both.\<close>

definition relay :: "conn \<Rightarrow> stream_state" where
  "relay r = Relaying r False False"

definition connected_add :: "nat \<Rightarrow> conn \<Rightarrow> conn \<Rightarrow> bridge_state \<Rightarrow> bridge_state" where
  "connected_add i c r s =
     (case connections_Add (bActive s) r of
        (True, a, toClose) \<Rightarrow> set_stream i (relay r) (s\<lparr>bActive := a, bClosed := bClosed s \<union> toClose\<rparr>)
      | (False, a, toClose) \<Rightarrow>
          set_stream i (Unwind (DClose r # client_deferred c)) (s\<lparr>bActive := a, bClosed := bClosed s \<union> toClose\<rparr>))"

fun run_deferred :: "deferred \<Rightarrow> bridge_state \<Rightarrow> bridge_state" where
  "run_deferred (DRemove c) s = s\<lparr>bActive := connections_Remove (bActive s) c\<rparr>"
| "run_deferred (DClose c) s = s\<lparr>bClosed := insert c (bClosed s)\<rparr>"

section \<open>The steps\<close>

inductive forced :: "bridge_state \<Rightarrow> bridge_state \<Rightarrow> bool" where
  accept_closed: "bPhase s = Accepting \<Longrightarrow> \<not> bListening s \<Longrightarrow> forced s (s\<lparr>bPhase := Draining\<rparr>)"
| check_accepted: "bPhase s = Accepted c \<Longrightarrow> forced s (accepted_check c s)"
| add_checked: "bPhase s = Checked c \<Longrightarrow> forced s (checked_add c s)"
| accept_failed: "bPhase s = AcceptFailed e \<Longrightarrow> forced s (begin_close (Some e) s)"
| all_drained: "bPhase s = Draining \<Longrightarrow> all_finished s \<Longrightarrow> forced s (s\<lparr>bPhase := Returned None\<rparr>)"
| drain_timeout: "bPhase s = Draining \<Longrightarrow> forced s (begin_close None s)"
| close_one: "bPhase s = Closing cs e \<Longrightarrow> c \<in> cs \<Longrightarrow>
    forced s (s\<lparr>bPhase := Closing (cs - {c}) e, bClosed := insert c (bClosed s)\<rparr>)"
| close_end: "bPhase s = Closing {} e \<Longrightarrow> forced s (s\<lparr>bPhase := Waiting e\<rparr>)"
| waited: "bPhase s = Waiting e \<Longrightarrow> all_finished s \<Longrightarrow> forced s (s\<lparr>bPhase := Returned e\<rparr>)"
| watch_cancel: "bWatching s \<Longrightarrow> bCancelled s \<Longrightarrow> forced s (s\<lparr>bWatching := False, bListening := False\<rparr>)"
| watch_stop: "bWatching s \<Longrightarrow> bPhase s = Returned e \<Longrightarrow> forced s (s\<lparr>bWatching := False\<rparr>)"
| dial_cancelled: "i < length (bStreams s) \<Longrightarrow> bStreams s ! i = (c, Dialing) \<Longrightarrow> bCancelled s \<Longrightarrow>
    forced s (set_stream i (Unwind (client_deferred c)) s)"
| check_dialed: "i < length (bStreams s) \<Longrightarrow> bStreams s ! i = (c, Dialed r) \<Longrightarrow> forced s (dialed_check i c r s)"
| add_connected: "i < length (bStreams s) \<Longrightarrow> bStreams s ! i = (c, Connected r) \<Longrightarrow> forced s (connected_add i c r s)"
| copy_up_closed: "i < length (bStreams s) \<Longrightarrow> bStreams s ! i = (c, Relaying r False down) \<Longrightarrow>
    c \<in> bClosed s \<Longrightarrow> r \<in> bClosed s \<Longrightarrow> forced s (set_stream i (Relaying r True down) s)"
| copy_down_closed: "i < length (bStreams s) \<Longrightarrow> bStreams s ! i = (c, Relaying r up False) \<Longrightarrow>
    c \<in> bClosed s \<Longrightarrow> r \<in> bClosed s \<Longrightarrow> forced s (set_stream i (Relaying r up True) s)"
| relay_end: "i < length (bStreams s) \<Longrightarrow> bStreams s ! i = (c, Relaying r True True) \<Longrightarrow>
    forced s (set_stream i (Unwind (DRemove r # DClose r # client_deferred c)) s)"
| unwind: "i < length (bStreams s) \<Longrightarrow> bStreams s ! i = (c, Unwind (d # ds)) \<Longrightarrow>
    forced s (run_deferred d (set_stream i (Unwind ds) s))"

inductive free :: "bridge_state \<Rightarrow> bridge_state \<Rightarrow> bool" where
  accept_client: "bPhase s = Accepting \<Longrightarrow> bListening s \<Longrightarrow> c \<notin> bOpened s \<Longrightarrow>
    free s (s\<lparr>bPhase := Accepted c, bOpened := insert c (bOpened s)\<rparr>)"
| accept_error: "bPhase s = Accepting \<Longrightarrow> bListening s \<Longrightarrow>
    free s (s\<lparr>bPhase := (if bCancelled s then Draining else AcceptFailed e)\<rparr>)"
| cancel: "\<not> bCancelled s \<Longrightarrow> free s (s\<lparr>bCancelled := True\<rparr>)"
| close_listener: "bListening s \<Longrightarrow> free s (s\<lparr>bListening := False\<rparr>)"
| dial_succeeds: "i < length (bStreams s) \<Longrightarrow> bStreams s ! i = (c, Dialing) \<Longrightarrow> r \<notin> bOpened s \<Longrightarrow>
    free s (set_stream i (Dialed r) (s\<lparr>bOpened := insert r (bOpened s)\<rparr>))"
| dial_fails: "i < length (bStreams s) \<Longrightarrow> bStreams s ! i = (c, Dialing) \<Longrightarrow>
    free s (set_stream i (Unwind (client_deferred c)) s)"
| copy_up_ends: "i < length (bStreams s) \<Longrightarrow> bStreams s ! i = (c, Relaying r False down) \<Longrightarrow>
    free s (set_stream i (Relaying r True down) s)"
| copy_down_ends: "i < length (bStreams s) \<Longrightarrow> bStreams s ! i = (c, Relaying r up False) \<Longrightarrow>
    free s (set_stream i (Relaying r up True) s)"

definition bstep :: "bridge_state \<Rightarrow> bridge_state \<Rightarrow> bool" where
  "bstep s s' \<longleftrightarrow> forced s s' \<or> free s s'"

inductive breachable :: "bridge_state \<Rightarrow> bool" where
  breach_start: "breachable (serve_start ctx_done listening)"
| breach_step: "breachable s \<Longrightarrow> bstep s s' \<Longrightarrow> breachable s'"

lemma breach_free: "breachable s \<Longrightarrow> free s s' \<Longrightarrow> breachable s'"
  by (rule breach_step) (auto simp: bstep_def)

lemma breach_forced: "breachable s \<Longrightarrow> forced s s' \<Longrightarrow> breachable s'"
  by (rule breach_step) (auto simp: bstep_def)

lemma listener_closes: "bstep b (b\<lparr>bListening := False\<rparr>) \<or> b\<lparr>bListening := False\<rparr> = b"
  by (cases "bListening b", simp add: bstep_def close_listener, cases b, simp)

lemmas bridge_ops = set_stream_def accepted_check_def checked_add_def begin_close_def client_deferred_def
  dialed_check_def connected_add_def relay_def connections_Add_def connections_Close_def connections_Remove_def

section \<open>Invariants\<close>

text \<open>The connections that a goroutine will still close, those it will still remove from the registry, and
  all that it knows.\<close>

fun holds :: "conn \<times> stream_state \<Rightarrow> conn set" where
  "holds (c, Dialing) = {c}"
| "holds (c, Dialed r) = {c, r}"
| "holds (c, Connected r) = {c, r}"
| "holds (c, Relaying r up down) = {c, r}"
| "holds (c, Unwind ds) = {x. DClose x \<in> set ds}"

fun tracks :: "conn \<times> stream_state \<Rightarrow> conn set" where
  "tracks (c, Dialing) = {c}"
| "tracks (c, Dialed r) = {c}"
| "tracks (c, Connected r) = {c}"
| "tracks (c, Relaying r up down) = {c, r}"
| "tracks (c, Unwind ds) = {x. DRemove x \<in> set ds}"

fun names :: "conn \<times> stream_state \<Rightarrow> conn set" where
  "names (c, Dialing) = {c}"
| "names (c, Dialed r) = {c, r}"
| "names (c, Connected r) = {c, r}"
| "names (c, Relaying r up down) = {c, r}"
| "names (c, Unwind ds) = insert c {x. DRemove x \<in> set ds \<or> DClose x \<in> set ds}"

fun working :: "stream_state \<Rightarrow> bool" where
  "working (Unwind ds) = False"
| "working _ = True"

fun main_holds :: "serve_phase \<Rightarrow> conn set" where
  "main_holds (Accepted c) = {c}"
| "main_holds (Checked c) = {c}"
| "main_holds _ = {}"

fun to_close :: "serve_phase \<Rightarrow> conn set" where
  "to_close (Closing cs e) = cs"
| "to_close _ = {}"

fun closing_phase :: "serve_phase \<Rightarrow> bool" where
  "closing_phase (Closing cs e) = True"
| "closing_phase (Waiting e) = True"
| "closing_phase _ = False"

fun returned :: "serve_phase \<Rightarrow> bool" where
  "returned (Returned e) = True"
| "returned _ = False"

abbreviation all_of :: "('a \<Rightarrow> conn set) \<Rightarrow> 'a list \<Rightarrow> conn set" where
  "all_of f xs \<equiv> \<Union>(f ` set xs)"

definition apart :: "(conn \<times> stream_state) list \<Rightarrow> bool" where
  "apart xs \<longleftrightarrow> (\<forall>i < length xs. \<forall>j < length xs. i \<noteq> j \<longrightarrow> names (xs ! i) \<inter> names (xs ! j) = {})"

lemma all_of_update:
  assumes "i < length xs" and "f (xs ! i) \<subseteq> f y \<union> X"
  shows "all_of f xs \<subseteq> all_of f (xs[i := y]) \<union> X"
proof
  fix c assume "c \<in> all_of f xs"
  then obtain j where j: "j < length xs" "c \<in> f (xs ! j)" by (auto simp: in_set_conv_nth)
  show "c \<in> all_of f (xs[i := y]) \<union> X"
  proof (cases "j = i")
    case True
    with j assms set_update_memI [OF assms(1), of y] show ?thesis by blast
  next
    case False
    with j have "xs ! j \<in> set (xs[i := y])" by (metis length_list_update nth_list_update_neq nth_mem)
    with j show ?thesis by blast
  qed
qed

lemma all_of_update_le: "all_of f (xs[i := y]) \<subseteq> f y \<union> all_of f xs"
  using set_update_subset_insert [of xs i y] by blast

lemma ball_update: "\<forall>x \<in> set xs. P x \<Longrightarrow> P y \<Longrightarrow> \<forall>x \<in> set (xs[i := y]). P x"
  using set_update_subset_insert [of xs i y] by blast

lemma apart_update:
  assumes "apart xs" and "i < length xs" and "names y \<subseteq> names (xs ! i) \<union> R" and "R \<inter> all_of names xs = {}"
  shows "apart (xs[i := y])"
proof -
  have "names y \<inter> names (xs ! j) = {}" if "j < length xs" "j \<noteq> i" for j
    using assms that nth_mem [OF that(1)] unfolding apart_def by blast
  with assms(1) show ?thesis unfolding apart_def length_list_update
    by (metis nth_list_update Int_commute assms(2))
qed

lemma apart_append: "apart xs \<Longrightarrow> names y \<inter> all_of names xs = {} \<Longrightarrow> apart (xs @ [y])"
proof -
  assume *: "apart xs" "names y \<inter> all_of names xs = {}"
  then have "names y \<inter> names (xs ! j) = {}" if "j < length xs" for j
    using nth_mem [OF that] by blast
  with *(1) show ?thesis by (auto simp: apart_def nth_append less_Suc_eq disjoint_iff)
qed

text \<open>Nothing is forgotten: what was opened is closed or will be closed by somebody.\<close>

definition inv_held :: "bridge_state \<Rightarrow> bool" where
  "inv_held s \<longleftrightarrow> bOpened s \<subseteq> bClosed s \<union> all_of holds (bStreams s) \<union> main_holds (bPhase s)"

text \<open>No connection is known to two goroutines.\<close>

definition inv_names :: "bridge_state \<Rightarrow> bool" where
  "inv_names s \<longleftrightarrow> all_of names (bStreams s) \<union> main_holds (bPhase s) \<subseteq> bOpened s \<and>
     main_holds (bPhase s) \<inter> all_of names (bStreams s) = {} \<and> apart (bStreams s)"

definition inv_items :: "bridge_state \<Rightarrow> bool" where
  "inv_items s \<longleftrightarrow> lItems (bActive s) \<subseteq> all_of tracks (bStreams s)"

text \<open>Whatever a goroutine at work is blocked on is registered, so that the closing of the registry reaches it: its
  client from the start, its remote connection from the start of the relay.\<close>

definition inv_work :: "bridge_state \<Rightarrow> bool" where
  "inv_work s \<longleftrightarrow>
     (\<forall>(c, ph) \<in> set (bStreams s). working ph \<longrightarrow>
        tracks (c, ph) \<subseteq> lItems (bActive s) \<and>
        (closing_phase (bPhase s) \<longrightarrow> tracks (c, ph) \<subseteq> to_close (bPhase s) \<union> bClosed s)) \<and>
     (closing_phase (bPhase s) \<longrightarrow> lclosing (bActive s)) \<and>
     (lclosing (bActive s) \<longrightarrow> closing_phase (bPhase s) \<or> returned (bPhase s))"

definition inv_control :: "bridge_state \<Rightarrow> bool" where
  "inv_control s \<longleftrightarrow>
     (returned (bPhase s) \<longrightarrow> all_finished s) \<and> finite (to_close (bPhase s)) \<and>
     (bListening s \<and> \<not> returned (bPhase s) \<longrightarrow> bWatching s)"

subsection \<open>Every step keeps them\<close>

text \<open>What one goroutine's step has to satisfy for each invariant, when it moves from \<open>ph\<close> to \<open>ph'\<close>.\<close>

lemma held_chain:
  fixes A :: "'a set"
  assumes "A \<subseteq> A' \<union> C'" and "H \<subseteq> A'" and "Op \<subseteq> C \<union> A \<union> M" and "C \<subseteq> C'" and "Op' - Op \<subseteq> H \<union> C'"
  shows "Op' \<subseteq> C' \<union> A' \<union> M"
  using assms by blast

lemma held_stream:
  assumes "inv_held s" and "i < length (bStreams s)" and "bStreams s ! i = (c, ph)"
    and "bStreams s' = (bStreams s)[i := (c, ph')]" and "bPhase s' = bPhase s" and "bClosed s \<subseteq> bClosed s'"
    and "holds (c, ph) \<union> (bOpened s' - bOpened s) \<subseteq> holds (c, ph') \<union> bClosed s'"
  shows "inv_held s'"
proof -
  have "all_of holds (bStreams s) \<subseteq> all_of holds (bStreams s') \<union> bClosed s'"
    using all_of_update [OF assms(2), of holds "(c, ph')" "bClosed s'"] assms(3,4,7) by auto
  moreover have "holds (c, ph') \<subseteq> all_of holds (bStreams s')"
    unfolding assms(4) using set_update_memI [OF assms(2)] by fast
  moreover have "bOpened s \<subseteq> bClosed s \<union> all_of holds (bStreams s) \<union> main_holds (bPhase s)"
    using assms(1) by (simp only: inv_held_def)
  ultimately show ?thesis unfolding inv_held_def assms(5) by (rule held_chain) (use assms(6,7) in auto)
qed

lemma inv_held_forced:
  assumes "forced s s'" and "inv_held s"
  shows "inv_held s'"
  using assms(1)
proof cases
  case (dial_cancelled i c)
  then show ?thesis by (intro held_stream [OF assms(2)]) (auto simp: bridge_ops)
next
  case (check_dialed i c r)
  then show ?thesis
    by (cases "bCancelled s") (auto simp: bridge_ops intro!: held_stream [OF assms(2)])
next
  case (add_connected i c r)
  then show ?thesis
    by (cases "lclosing (bActive s)") (auto simp: bridge_ops intro!: held_stream [OF assms(2)])
next
  case (copy_up_closed i c r down)
  then show ?thesis by (intro held_stream [OF assms(2)]) (auto simp: bridge_ops)
next
  case (copy_down_closed i c r up)
  then show ?thesis by (intro held_stream [OF assms(2)]) (auto simp: bridge_ops)
next
  case (relay_end i c r)
  then show ?thesis by (intro held_stream [OF assms(2)]) (auto simp: bridge_ops)
next
  case (unwind i c d ds)
  then show ?thesis by (cases d; intro held_stream [OF assms(2)]) (auto simp: bridge_ops)
qed (use assms(2) in \<open>auto simp: inv_held_def bridge_ops split: if_splits\<close>)

lemma inv_held_free:
  assumes "free s s'" and "inv_held s"
  shows "inv_held s'"
  using assms(1)
proof cases
  case (dial_succeeds i c r)
  then show ?thesis by (intro held_stream [OF assms(2)]) (auto simp: bridge_ops)
next
  case (dial_fails i c)
  then show ?thesis by (intro held_stream [OF assms(2)]) (auto simp: bridge_ops)
next
  case (copy_up_ends i c r down)
  then show ?thesis by (intro held_stream [OF assms(2)]) (auto simp: bridge_ops)
next
  case (copy_down_ends i c r up)
  then show ?thesis by (intro held_stream [OF assms(2)]) (auto simp: bridge_ops)
qed (use assms(2) in \<open>auto simp: inv_held_def split: if_splits\<close>)

lemma names_stream:
  assumes "inv_names s" and "i < length (bStreams s)" and "bStreams s ! i = (c, ph)"
    and "bStreams s' = (bStreams s)[i := (c, ph')]" and "bPhase s' = bPhase s" and "bOpened s \<subseteq> bOpened s'"
    and "names (c, ph') \<subseteq> names (c, ph) \<union> (bOpened s' - bOpened s)"
  shows "inv_names s'"
proof -
  let ?A = "all_of names (bStreams s)" and ?R = "bOpened s' - bOpened s"
  have inv: "?A \<union> main_holds (bPhase s) \<subseteq> bOpened s" "main_holds (bPhase s) \<inter> ?A = {}" "apart (bStreams s)"
    using assms(1) by (simp_all only: inv_names_def)
  have "names (c, ph) \<subseteq> ?A" using nth_mem [OF assms(2)] assms(3) by fastforce
  then have le: "all_of names (bStreams s') \<subseteq> ?A \<union> ?R"
    using all_of_update_le [of names "bStreams s" i "(c, ph')"] assms(7) unfolding assms(4) by blast
  have "apart (bStreams s')"
    unfolding assms(4) by (rule apart_update [OF inv(3) assms(2), of _ ?R]) (use assms(3,7) inv(1) in auto)
  moreover have "main_holds (bPhase s) \<inter> all_of names (bStreams s') = {}"
    using le inv(1,2) by (auto dest!: subsetD [OF le])
  moreover have "all_of names (bStreams s') \<union> main_holds (bPhase s) \<subseteq> bOpened s'"
    using inv(1) assms(6) by (intro Un_least subset_trans [OF le]) auto
  ultimately show ?thesis unfolding inv_names_def assms(5) by (intro conjI)
qed

lemma inv_names_forced:
  assumes "forced s s'" and "inv_names s"
  shows "inv_names s'"
  using assms(1)
proof cases
  case (add_checked c)
  with assms(2) show ?thesis
    by (auto simp: inv_names_def bridge_ops intro!: apart_append)
next
  case (dial_cancelled i c)
  then show ?thesis by (intro names_stream [OF assms(2)]) (auto simp: bridge_ops)
next
  case (check_dialed i c r)
  then show ?thesis
    by (cases "bCancelled s") (auto simp: bridge_ops intro!: names_stream [OF assms(2)])
next
  case (add_connected i c r)
  then show ?thesis
    by (cases "lclosing (bActive s)") (auto simp: bridge_ops intro!: names_stream [OF assms(2)])
next
  case (copy_up_closed i c r down)
  then show ?thesis by (intro names_stream [OF assms(2)]) (auto simp: bridge_ops)
next
  case (copy_down_closed i c r up)
  then show ?thesis by (intro names_stream [OF assms(2)]) (auto simp: bridge_ops)
next
  case (relay_end i c r)
  then show ?thesis by (intro names_stream [OF assms(2)]) (auto simp: bridge_ops)
next
  case (unwind i c d ds)
  then show ?thesis by (cases d; intro names_stream [OF assms(2)]) (auto simp: bridge_ops)
qed (use assms(2) in \<open>auto simp: inv_names_def bridge_ops split: if_splits\<close>)

lemma inv_names_free:
  assumes "free s s'" and "inv_names s"
  shows "inv_names s'"
  using assms(1)
proof cases
  case (dial_succeeds i c r)
  then show ?thesis by (intro names_stream [OF assms(2)]) (auto simp: bridge_ops)
next
  case (dial_fails i c)
  then show ?thesis by (intro names_stream [OF assms(2)]) (auto simp: bridge_ops)
next
  case (copy_up_ends i c r down)
  then show ?thesis by (intro names_stream [OF assms(2)]) (auto simp: bridge_ops)
next
  case (copy_down_ends i c r up)
  then show ?thesis by (intro names_stream [OF assms(2)]) (auto simp: bridge_ops)
qed (use assms(2) in \<open>auto simp: inv_names_def split: if_splits\<close>)

lemma items_stream:
  assumes "inv_items s" and "i < length (bStreams s)" and "bStreams s ! i = (c, ph)"
    and "bStreams s' = (bStreams s)[i := (c, ph')]"
    and "lItems (bActive s') \<subseteq> lItems (bActive s) \<union> tracks (c, ph')"
    and "tracks (c, ph) \<inter> lItems (bActive s') \<subseteq> tracks (c, ph')"
  shows "inv_items s'"
proof -
  have "all_of tracks (bStreams s) \<subseteq> all_of tracks (bStreams s') \<union> - lItems (bActive s')"
    using all_of_update [OF assms(2), of tracks "(c, ph')" "- lItems (bActive s')"] assms(3,4,6) by auto
  moreover have "tracks (c, ph') \<subseteq> all_of tracks (bStreams s')"
    unfolding assms(4) using set_update_memI [OF assms(2)] by fast
  moreover have "lItems (bActive s) \<subseteq> all_of tracks (bStreams s)"
    using assms(1) by (simp only: inv_items_def)
  ultimately show ?thesis using assms(5) unfolding inv_items_def by (auto dest!: subsetD)
qed

lemma inv_items_forced:
  assumes "forced s s'" and "inv_items s"
  shows "inv_items s'"
  using assms(1)
proof cases
  case (dial_cancelled i c)
  then show ?thesis by (intro items_stream [OF assms(2)]) (auto simp: bridge_ops)
next
  case (check_dialed i c r)
  then show ?thesis
    by (cases "bCancelled s") (auto simp: bridge_ops intro!: items_stream [OF assms(2)])
next
  case (add_connected i c r)
  then show ?thesis
    by (cases "lclosing (bActive s)") (auto simp: bridge_ops intro!: items_stream [OF assms(2)])
next
  case (copy_up_closed i c r down)
  then show ?thesis by (intro items_stream [OF assms(2)]) (auto simp: bridge_ops)
next
  case (copy_down_closed i c r up)
  then show ?thesis by (intro items_stream [OF assms(2)]) (auto simp: bridge_ops)
next
  case (relay_end i c r)
  then show ?thesis by (intro items_stream [OF assms(2)]) (auto simp: bridge_ops)
next
  case (unwind i c d ds)
  then show ?thesis by (cases d; intro items_stream [OF assms(2)]) (auto simp: bridge_ops)
qed (use assms(2) in \<open>auto simp: inv_items_def bridge_ops split: if_splits\<close>)

lemma inv_items_free:
  assumes "free s s'" and "inv_items s"
  shows "inv_items s'"
  using assms(1)
proof cases
  case (dial_succeeds i c r)
  then show ?thesis by (intro items_stream [OF assms(2)]) (auto simp: bridge_ops)
next
  case (dial_fails i c)
  then show ?thesis by (intro items_stream [OF assms(2)]) (auto simp: bridge_ops)
next
  case (copy_up_ends i c r down)
  then show ?thesis by (intro items_stream [OF assms(2)]) (auto simp: bridge_ops)
next
  case (copy_down_ends i c r up)
  then show ?thesis by (intro items_stream [OF assms(2)]) (auto simp: bridge_ops)
qed (use assms(2) in \<open>auto simp: inv_items_def split: if_splits\<close>)

lemma tracks_named: "tracks p \<subseteq> names p"
  by (cases p rule: tracks.cases) auto

lemma work_stream:
  assumes "inv_work s" and "apart (bStreams s)" and "i < length (bStreams s)" and "bStreams s ! i = (c, ph)"
    and "bStreams s' = (bStreams s)[i := (c, ph')]" and "bPhase s' = bPhase s" and "bClosed s \<subseteq> bClosed s'"
    and "lclosing (bActive s') = lclosing (bActive s)"
    and "lItems (bActive s) - lItems (bActive s') \<subseteq> names (c, ph)"
    and "working ph' \<Longrightarrow> working ph \<and> lItems (bActive s) \<subseteq> lItems (bActive s') \<and>
      tracks (c, ph') \<subseteq> tracks (c, ph) \<union> (if lclosing (bActive s) then {} else lItems (bActive s'))"
  shows "inv_work s'"
proof -
  let ?reg = "\<lambda>X s. X \<subseteq> lItems (bActive s) \<and> (closing_phase (bPhase s) \<longrightarrow> X \<subseteq> to_close (bPhase s) \<union> bClosed s)"
  have old: "?reg (tracks (c2, ph2)) s" if "(c2, ph2) \<in> set (bStreams s)" "working ph2" for c2 ph2
    using assms(1) that unfolding inv_work_def by blast
  have new: "?reg (tracks (c2, ph2)) s'" if mem: "(c2, ph2) \<in> set (bStreams s')" and w: "working ph2" for c2 ph2
  proof -
    from mem obtain j where j: "j < length (bStreams s)" "bStreams s' ! j = (c2, ph2)"
      unfolding assms(5) in_set_conv_nth by auto
    show ?thesis
    proof (cases "j = i")
      case True
      with j assms(3,5) have here: "c2 = c" "ph2 = ph'" by simp_all
      have "(c, ph) \<in> set (bStreams s)" using nth_mem [OF assms(3)] assms(4) by simp
      then have "?reg (tracks (c, ph)) s" using old assms(10) w here(2) by blast
      moreover have "closing_phase (bPhase s) \<longrightarrow> lclosing (bActive s)" using assms(1) unfolding inv_work_def by blast
      ultimately show ?thesis using assms(7,10) w unfolding here assms(6) by (auto split: if_splits)
    next
      case False
      with j assms(5) have here: "bStreams s ! j = (c2, ph2)" by simp
      with j(1) have "(c2, ph2) \<in> set (bStreams s)" by (metis nth_mem)
      moreover have "names (bStreams s ! j) \<inter> names (bStreams s ! i) = {}"
        using assms(2) j(1) assms(3) False unfolding apart_def by blast
      then have "tracks (c2, ph2) \<inter> names (c, ph) = {}"
        unfolding here assms(4) using tracks_named [of "(c2, ph2)"] by blast
      ultimately show ?thesis using old [of c2 ph2] w assms(7,9) unfolding assms(6) by blast
    qed
  qed
  show ?thesis using assms(1) new unfolding inv_work_def assms(6,8) by blast
qed

lemma inv_work_forced:
  assumes "forced s s'" and "inv_work s" and "apart (bStreams s)"
  shows "inv_work s'"
  using assms(1)
proof cases
  case (dial_cancelled i c)
  then show ?thesis
    by (intro work_stream [OF assms(2,3), of i c Dialing _ "Unwind (client_deferred c)"]) (auto simp: bridge_ops)
next
  case (check_dialed i c r)
  then show ?thesis
    by (cases "bCancelled s") (auto simp: bridge_ops intro!: work_stream [OF assms(2,3)])
next
  case (add_connected i c r)
  then show ?thesis
    by (cases "lclosing (bActive s)") (auto simp: bridge_ops intro!: work_stream [OF assms(2,3)])
next
  case (copy_up_closed i c r down)
  then show ?thesis
    by (intro work_stream [OF assms(2,3), of i c "Relaying r False down" _ "Relaying r True down"]) (auto simp: bridge_ops)
next
  case (copy_down_closed i c r up)
  then show ?thesis
    by (intro work_stream [OF assms(2,3), of i c "Relaying r up False" _ "Relaying r up True"]) (auto simp: bridge_ops)
next
  case (relay_end i c r)
  then show ?thesis
    by (intro work_stream [OF assms(2,3), of i c "Relaying r True True" _ "Unwind (DRemove r # DClose r # client_deferred c)"])
      (auto simp: bridge_ops)
next
  case (unwind i c d ds)
  then show ?thesis
    by (cases d; intro work_stream [OF assms(2,3), of i c "Unwind (d # ds)" _ "Unwind ds"]) (auto simp: bridge_ops)
qed (use assms(2) in \<open>auto simp: inv_work_def bridge_ops split: if_splits\<close>)

lemma inv_work_free:
  assumes "free s s'" and "inv_work s" and "apart (bStreams s)"
  shows "inv_work s'"
  using assms(1)
proof cases
  case (dial_succeeds i c r)
  then show ?thesis
    by (intro work_stream [OF assms(2,3), of i c Dialing _ "Dialed r"]) (auto simp: bridge_ops)
next
  case (dial_fails i c)
  then show ?thesis
    by (intro work_stream [OF assms(2,3), of i c Dialing _ "Unwind (client_deferred c)"]) (auto simp: bridge_ops)
next
  case (copy_up_ends i c r down)
  then show ?thesis
    by (intro work_stream [OF assms(2,3), of i c "Relaying r False down" _ "Relaying r True down"]) (auto simp: bridge_ops)
next
  case (copy_down_ends i c r up)
  then show ?thesis
    by (intro work_stream [OF assms(2,3), of i c "Relaying r up False" _ "Relaying r up True"]) (auto simp: bridge_ops)
qed (use assms(2) in \<open>auto simp: inv_work_def split: if_splits\<close>)

text \<open>Once finished, a goroutine stays so, and no new one starts outside the loop.\<close>

lemma finished_stream:
  assumes "all_finished s" and "i < length (bStreams s)" and "bStreams s ! i = (c, ph)"
  shows "ph = Unwind []"
  using assms nth_mem [OF assms(2)] by (fastforce simp: all_finished_def list_all_iff)

lemma run_deferred_fields [simp]:
  "bPhase (run_deferred d s) = bPhase s" "bCancelled (run_deferred d s) = bCancelled s"
  "bListening (run_deferred d s) = bListening s" "bWatching (run_deferred d s) = bWatching s"
  "bStreams (run_deferred d s) = bStreams s" "bOpened (run_deferred d s) = bOpened s"
  by (cases d; simp)+

lemma inv_control_forced:
  assumes "forced s s'" and "inv_control s" and "finite (lItems (bActive s))"
  shows "inv_control s'"
  using assms
  by cases (auto simp: inv_control_def bridge_ops all_finished_def split: if_splits
      dest: finished_stream [of s, unfolded all_finished_def])

lemma inv_control_free:
  assumes "free s s'" and "inv_control s"
  shows "inv_control s'"
  using assms
  by cases (auto simp: inv_control_def bridge_ops all_finished_def split: if_splits
      dest: finished_stream [of s, unfolded all_finished_def])

lemma finite_tracks: "finite (tracks p)"
proof (cases p rule: tracks.cases)
  case (5 c ds)
  have "{x. DRemove x \<in> set ds} = DRemove -` set ds" by auto
  then show ?thesis using 5 by (simp add: finite_vimageI inj_def)
qed auto

lemma inv_items_finite: "inv_items s \<Longrightarrow> finite (lItems (bActive s))"
  unfolding inv_items_def by (rule finite_subset) (auto simp: finite_tracks)

definition binv :: "bridge_state \<Rightarrow> bool" where
  "binv s \<longleftrightarrow> inv_held s \<and> inv_names s \<and> inv_items s \<and> inv_work s \<and> inv_control s"

lemma binv_step: "bstep s s' \<Longrightarrow> binv s \<Longrightarrow> binv s'"
  unfolding bstep_def binv_def
  using inv_held_forced inv_held_free inv_names_forced inv_names_free inv_items_forced inv_items_free
    inv_work_forced inv_work_free inv_control_forced inv_control_free inv_items_finite
  by (metis inv_names_def)

lemma binv_reachable: "breachable s \<Longrightarrow> binv s"
proof (induction rule: breachable.induct)
  case (breach_start ctx_done listening)
  show ?case
    by (simp add: binv_def inv_held_def inv_names_def inv_items_def inv_work_def inv_control_def serve_start_def
        newConnections_def apart_def)
next
  case (breach_step s s')
  then show ?case by (blast intro: binv_step)
qed

lemma bstep_frame: "bstep b b' \<Longrightarrow> bOpened b \<subseteq> bOpened b' \<and> (returned (bPhase b) \<longrightarrow> bPhase b' = bPhase b)"
  unfolding bstep_def by (elim disjE forced.cases free.cases) (auto simp: bridge_ops split: if_splits)

section \<open>Progress\<close>

text \<open>How many steps are left at most, once the context is cancelled.\<close>

fun stream_weight :: "stream_state \<Rightarrow> nat" where
  "stream_weight Dialing = 12"
| "stream_weight (Dialed r) = 11"
| "stream_weight (Connected r) = 10"
| "stream_weight (Relaying r up down) = 5 + (if up then 0 else 1) + (if down then 0 else 1)"
| "stream_weight (Unwind ds) = length ds"

fun phase_weight :: "serve_phase \<Rightarrow> connections \<Rightarrow> nat" where
  "phase_weight (Returned e) a = 0"
| "phase_weight (Waiting e) a = 1"
| "phase_weight (Closing cs e) a = 2 + card cs"
| "phase_weight Draining a = 3 + card (lItems a)"
| "phase_weight (AcceptFailed e) a = 3 + card (lItems a)"
| "phase_weight (Accepted c) a = 4 + card (lItems a)"
| "phase_weight Accepting a = 5 + card (lItems a)"
| "phase_weight (Checked c) a = 19 + card (lItems a)"

definition bweight :: "bridge_state \<Rightarrow> nat" where
  "bweight s = phase_weight (bPhase s) (bActive s) + sum_list (map (stream_weight \<circ> snd) (bStreams s)) +
     (if bWatching s then 1 else 0) + (if bListening s then 1 else 0)"

lemma sum_list_update_nat:
  fixes f :: "'a \<Rightarrow> nat"
  assumes "i < length xs"
  shows "sum_list (map f (xs[i := y])) + f (xs ! i) = sum_list (map f xs) + f y"
  using assms by (induction xs arbitrary: i) (auto split: nat.splits)

lemma phase_weight_items: "phase_weight ph a \<le> phase_weight ph a' + (card (lItems a) - card (lItems a'))"
  by (cases ph) auto

lemma weight_stream:
  assumes "i < length (bStreams s)" and "bStreams s ! i = (c, ph)"
    and "bStreams s' = (bStreams s)[i := (c, ph')]" and "bPhase s' = bPhase s"
    and "bWatching s' = bWatching s" and "bListening s' = bListening s"
    and "stream_weight ph' + (card (lItems (bActive s')) - card (lItems (bActive s))) < stream_weight ph"
  shows "bweight s' < bweight s"
  using sum_list_update_nat [OF assms(1), of "stream_weight \<circ> snd" "(c, ph')"] assms(2-)
    phase_weight_items [of "bPhase s" "bActive s'" "bActive s"]
  by (simp add: bweight_def)

lemma weight_forced:
  assumes "forced s s'" and "bCancelled s" and "binv s"
  shows "bweight s' < bweight s"
proof -
  have fin: "finite (lItems (bActive s))" using assms(3) inv_items_finite by (simp add: binv_def)
  have grow: "card (insert x (lItems (bActive s))) \<le> Suc (card (lItems (bActive s)))" for x
    using fin by (simp add: card_insert_if)
  from assms(1) show ?thesis
proof cases
  case (close_one cs e c)
  then have "finite cs" using assms(3) by (simp add: binv_def inv_control_def)
  with close_one(3) have "0 < card cs" by (auto simp: card_gt_0_iff)
  with close_one \<open>finite cs\<close> show ?thesis by (simp add: bweight_def)
next
  case (dial_cancelled i c)
  then show ?thesis by (intro weight_stream) (auto simp: bridge_ops)
next
  case (check_dialed i c r)
  then show ?thesis by (cases "bCancelled s") (auto simp: bridge_ops intro!: weight_stream)
next
  case (add_checked c)
  with grow [of c] show ?thesis by (auto simp: bweight_def bridge_ops)
next
  case (add_connected i c r)
  have "card (insert r (lItems (bActive s))) \<le> Suc (card (lItems (bActive s)))"
    by (rule grow)
  with add_connected show ?thesis
    by (cases "lclosing (bActive s)") (auto simp: bridge_ops intro!: weight_stream)
next
  case (copy_up_closed i c r down)
  then show ?thesis by (intro weight_stream) (auto simp: bridge_ops)
next
  case (copy_down_closed i c r up)
  then show ?thesis by (intro weight_stream) (auto simp: bridge_ops)
next
  case (relay_end i c r)
  then show ?thesis by (intro weight_stream) (auto simp: bridge_ops)
next
  case (unwind i c d ds)
  have "finite (lItems (bActive s))" using assms(3) inv_items_finite by (simp add: binv_def)
  with unwind show ?thesis by (cases d; intro weight_stream) (auto simp: bridge_ops card_Diff_singleton_if)
qed (use assms(2) in \<open>auto simp: bweight_def bridge_ops\<close>)
qed

lemma weight_free:
  assumes "free s s'" and "bCancelled s"
  shows "bweight s' < bweight s"
  using assms(1)
proof cases
  case (dial_succeeds i c r)
  then show ?thesis by (intro weight_stream) (auto simp: bridge_ops)
next
  case (dial_fails i c)
  then show ?thesis by (intro weight_stream) (auto simp: bridge_ops)
next
  case (copy_up_ends i c r down)
  then show ?thesis by (intro weight_stream) (auto simp: bridge_ops)
next
  case (copy_down_ends i c r up)
  then show ?thesis by (intro weight_stream) (auto simp: bridge_ops)
qed (use assms(2) in \<open>auto simp: bweight_def\<close>)

lemma bweight_lighter: "bstep b b' \<Longrightarrow> binv b \<Longrightarrow> bCancelled b \<Longrightarrow> bweight b' < bweight b"
  using weight_forced weight_free unfolding bstep_def by blast

lemma cancelled_stays: "bstep s s' \<Longrightarrow> bCancelled s \<Longrightarrow> bCancelled s'"
  unfolding bstep_def by (elim disjE forced.cases free.cases) (auto simp: bridge_ops split: if_splits)

text \<open>As long as \<^verbatim>\<open>Serve\<close> has not returned, some step happens by itself.\<close>

lemma stream_progress:
  assumes "binv s" and "bCancelled s" and "bPhase s = Waiting e" and "\<not> all_finished s"
  shows "\<exists>s'. forced s s'"
proof -
  from assms(4) obtain c ph where mem: "(c, ph) \<in> set (bStreams s)" "ph \<noteq> Unwind []"
    by (auto simp: all_finished_def list_all_iff)
  then obtain i where i: "i < length (bStreams s)" "bStreams s ! i = (c, ph)" by (auto simp: in_set_conv_nth)
  have closed: "working ph \<Longrightarrow> tracks (c, ph) \<subseteq> bClosed s"
    using assms(1,3) mem(1) by (fastforce simp: binv_def inv_work_def)
  show ?thesis
  proof (cases ph)
    case (Relaying r up down)
    with closed i show ?thesis by (cases up; cases down) (auto intro: copy_up_closed copy_down_closed relay_end)
  next
    case (Unwind ds)
    with mem(2) i show ?thesis by (cases ds) (auto intro: unwind)
  qed (use i assms(2) in \<open>blast intro: dial_cancelled check_dialed add_connected\<close>)+
qed

lemma bridge_progress:
  assumes "binv s" and "bCancelled s" and "\<not> returned (bPhase s)"
  shows "\<exists>s'. forced s s'"
proof (cases "bPhase s")
  case Accepting
  show ?thesis
  proof (cases "bListening s")
    case True
    then have "bWatching s" using assms(1,3) by (simp add: binv_def inv_control_def)
    then show ?thesis using watch_cancel assms(2) by blast
  qed (use Accepting accept_closed in blast)
next
  case (Closing cs e)
  then show ?thesis by (cases "cs = {}") (blast intro: close_end close_one)+
next
  case (Waiting e)
  then show ?thesis using stream_progress [OF assms(1,2)] waited by (cases "all_finished s") blast+
qed (use assms(3) in \<open>auto intro: check_accepted add_checked accept_failed drain_timeout\<close>)

interpretation bridge_end: winding_down "\<lambda>s. binv s \<and> bCancelled s" bstep forced "\<lambda>_ _. False" "\<lambda>s. returned (bPhase s)"
  bweight 0
proof
  fix s s' assume "binv s \<and> bCancelled s" "bstep s s'"
  then show "binv s' \<and> bCancelled s'" "bweight s' < bweight s"
    using binv_step cancelled_stays bweight_lighter by blast+
qed (auto simp: bstep_def intro: bridge_progress)

lemma no_leak_reachable:
  assumes "breachable s" and "bPhase s = Returned e"
  shows "bOpened s \<subseteq> bClosed s \<and> all_finished s \<and> lItems (bActive s) = {}"
    and "bWatching s \<longrightarrow> (\<exists>u. forced s u \<and> \<not> bWatching u)"
proof -
  show "bWatching s \<longrightarrow> (\<exists>u. forced s u \<and> \<not> bWatching u)" using watch_stop [OF _ assms(2)] by fastforce
  have inv: "binv s" by (rule binv_reachable [OF assms(1)])
  then have fin: "all_finished s" using assms(2) by (simp add: binv_def inv_control_def)
  then have "ph = Unwind []" if "(c, ph) \<in> set (bStreams s)" for c ph
    using that by (fastforce simp: all_finished_def list_all_iff)
  then have "all_of holds (bStreams s) = {}" "all_of tracks (bStreams s) = {}" by force+
  with inv assms(2) fin show "bOpened s \<subseteq> bClosed s \<and> all_finished s \<and> lItems (bActive s) = {}"
    by (auto simp: binv_def inv_held_def inv_items_def)
qed

section \<open>Properties\<close>

text \<open>C13: the bridge leaves nothing open. In every reachable state in which \<^verbatim>\<open>Serve\<close> has returned, on cancellation
  or with an accept error, whatever the order of all its goroutines was, the goroutine of each client has
  ended, every connection that was accepted or dialled is closed, and the registry is empty; the watcher of
  the context has ended too, or its own end is a step that needs nothing more, since \<^verbatim>\<open>stopWatcher\<close> is closed.\<close>

theorem bridge_no_leak:
  assumes "breachable s" and "bPhase s = Returned e"
  shows "bOpened s \<subseteq> bClosed s \<and> all_finished s \<and> lItems (bActive s) = {} \<and>
    (bWatching s \<longrightarrow> (\<exists>u. forced s u \<and> \<not> bWatching u))"
  using no_leak_reachable [OF assms] by simp

theorem bridge_no_leak_witness:
  "1 \<in> bClosed (run_deferred (DClose 1) (set_stream 0 (Unwind []) (run_deferred (DRemove 1) (set_stream 0 (Unwind [DClose 1])
     (set_stream 0 (Unwind (client_deferred 1)) (checked_add 1 (accepted_check 1
       ((serve_start False True)\<lparr>bPhase := Accepted 1, bOpened := {1}\<rparr>)))))))\<lparr>bListening := False, bPhase := Returned None\<rparr>)"
proof -
  let ?s1 = "(serve_start False True)\<lparr>bPhase := Accepted 1, bOpened := {1}\<rparr>"
  let ?s2 = "accepted_check 1 ?s1"
  let ?s3 = "checked_add 1 ?s2"
  let ?s4 = "set_stream 0 (Unwind (client_deferred 1)) ?s3"
  let ?s5 = "run_deferred (DRemove 1) (set_stream 0 (Unwind [DClose 1]) ?s4)"
  let ?s6 = "run_deferred (DClose 1) (set_stream 0 (Unwind []) ?s5)"
  let ?s7 = "?s6\<lparr>bListening := False\<rparr>"
  let ?s8 = "?s7\<lparr>bPhase := Draining\<rparr>"
  let ?s9 = "?s8\<lparr>bPhase := Returned None\<rparr>"
  note ev = serve_start_def newConnections_def bridge_ops bstep_def
  have "breachable ((serve_start False True)\<lparr>bPhase := Accepted 1, bOpened := insert 1 (bOpened (serve_start False True))\<rparr>)"
    by (intro breach_free [OF breach_start accept_client]) (simp_all add: ev)
  then have "breachable ?s1" by (simp add: serve_start_def)
  then have "breachable ?s2" by (rule breach_forced) (simp add: check_accepted)
  then have "breachable ?s3" by (rule breach_forced) (simp add: add_checked accepted_check_def serve_start_def)
  then have "breachable ?s4" by (rule breach_free) (intro dial_fails; simp add: ev)
  then have "breachable ?s5" by (rule breach_forced) (intro unwind; simp add: ev)
  then have "breachable ?s6" by (rule breach_forced) (intro unwind; simp add: ev)
  then have "breachable ?s7" by (rule breach_free) (intro close_listener, simp add: ev)
  then have "breachable ?s8" by (rule breach_forced) (intro accept_closed; simp add: ev)
  then have "breachable ?s9" by (rule breach_forced) (intro all_drained; simp add: ev all_finished_def)
  from bridge_no_leak [OF this] show ?thesis by (simp add: ev)
qed

text \<open>C12: after a cancellation the bridge comes to an end. From every reachable state with a cancelled context, no
  run, whatever peers, dials and goroutines do, is longer than \<open>bweight\<close> tells; as long as \<^verbatim>\<open>Serve\<close> has not
  returned, a step is due that needs nothing from outside; so \<^verbatim>\<open>Serve\<close> returns. Dials are assumed to end when
  their context is cancelled. A copy is only assumed to end once both its source and its destination are
  closed, as it may be blocked in a read of the one or in a write to the other; that both are registered
  when the drain timeout closes the registry is part of the proof.\<close>

theorem bridge_terminates:
  assumes "breachable s" and "bCancelled s"
  shows "((bstep ^^ n) s s' \<longrightarrow> n \<le> bweight s \<and> (returned (bPhase s') \<or> (\<exists>u. forced s' u))) \<and>
    (\<exists>m u. (forced ^^ m) s u \<and> returned (bPhase u))"
  using bridge_end.winds_down [of s n 0 s'] run_counted_relpowp [of n bstep s s'] binv_reachable [OF assms(1)] assms(2)
  by auto

theorem bridge_terminates_witness:
  "(\<exists>m u. (forced ^^ m) (serve_start True True) u \<and> returned (bPhase u)) \<and> bweight (serve_start True True) = 7"
  using bridge_terminates [OF breach_start [of True True], of 0 "serve_start True True"]
  by (simp add: serve_start_def bweight_def newConnections_def)

text \<open>Streams are kept apart. In every reachable state, no connection belongs to the goroutines of two clients,
  so bytes of one client never reach the remote stream of another.\<close>

theorem bridge_streams_apart:
  assumes "breachable s" and "i < length (bStreams s)" and "j < length (bStreams s)" and "i \<noteq> j"
  shows "names (bStreams s ! i) \<inter> names (bStreams s ! j) = {}"
  using binv_reachable [OF assms(1)] assms(2-4) by (auto simp: binv_def inv_names_def apart_def)

text \<open>The listener may be left open. When the context is cancelled while \<^verbatim>\<open>Accept\<close> returns a last client,
  \<^verbatim>\<open>Serve\<close> can return before its watcher has seen the cancellation, and the watcher then may choose the
  other channel, so that nobody closes the listener.\<close>

theorem bridge_listener_left_open:
  "\<exists>s. breachable s \<and> bPhase s = Returned None \<and> bCancelled s \<and> bListening s \<and> \<not> bWatching s"
proof -
  let ?s1 = "(serve_start True True)\<lparr>bPhase := Accepted 1, bOpened := {1}\<rparr>"
  let ?s2 = "accepted_check 1 ?s1"
  let ?s3 = "?s2\<lparr>bPhase := Returned None\<rparr>"
  let ?s4 = "?s3\<lparr>bWatching := False\<rparr>"
  note ev = serve_start_def newConnections_def bridge_ops bstep_def
  have "breachable ((serve_start True True)\<lparr>bPhase := Accepted 1, bOpened := insert 1 (bOpened (serve_start True True))\<rparr>)"
    by (intro breach_free [OF breach_start accept_client]) (simp_all add: ev)
  then have "breachable ?s1" by (simp add: serve_start_def)
  then have "breachable ?s2" by (rule breach_forced) (simp add: check_accepted)
  then have "breachable ?s3" by (rule breach_forced) (intro all_drained; simp add: ev all_finished_def)
  then have "breachable ?s4" by (rule breach_forced) (intro watch_stop; simp add: ev)
  then show ?thesis by (intro exI [of _ ?s4]) (simp add: ev)
qed

text \<open>An accept error can hang the bridge. When accepting fails while a client is being dialled, \<^verbatim>\<open>Serve\<close> closes the
  client and then waits for a dial whose context nobody cancels: no step is due until the dial ends by
  itself or the caller cancels.\<close>

theorem bridge_error_waits_for_dial:
  "\<exists>s. breachable s \<and> bPhase s = Waiting (Some ''accept'') \<and> \<not> bCancelled s \<and> (\<forall>u. \<not> forced s u)"
proof -
  let ?s1 = "(serve_start False True)\<lparr>bPhase := Accepted 1, bOpened := {1}\<rparr>"
  let ?s2 = "accepted_check 1 ?s1"
  let ?s3 = "checked_add 1 ?s2"
  let ?s4 = "?s3\<lparr>bPhase := AcceptFailed ''accept''\<rparr>"
  let ?s5 = "begin_close (Some ''accept'') ?s4"
  let ?s6 = "?s5\<lparr>bPhase := Closing ({1} - {1}) (Some ''accept''), bClosed := insert 1 (bClosed ?s5)\<rparr>"
  let ?s7 = "?s6\<lparr>bPhase := Waiting (Some ''accept'')\<rparr>"
  note ev = serve_start_def newConnections_def bridge_ops
  have "breachable ((serve_start False True)\<lparr>bPhase := Accepted 1, bOpened := insert 1 (bOpened (serve_start False True))\<rparr>)"
    by (intro breach_free [OF breach_start accept_client]) (simp_all add: ev)
  then have "breachable ?s1" by (simp add: serve_start_def)
  then have "breachable ?s2" by (rule breach_forced) (simp add: check_accepted)
  then have s3: "breachable ?s3" by (rule breach_forced) (simp add: add_checked accepted_check_def serve_start_def)
  have "free ?s3 (?s3\<lparr>bPhase := (if bCancelled ?s3 then Draining else AcceptFailed ''accept'')\<rparr>)"
    by (rule accept_error) (simp_all add: ev)
  moreover have "\<not> bCancelled ?s3" by (simp add: ev)
  ultimately have "breachable ?s4" using breach_free [OF s3] by simp
  then have "breachable ?s5" by (rule breach_forced) (intro accept_failed, simp)
  then have "breachable ?s6" by (rule breach_forced) (intro close_one; simp add: ev)
  then have "breachable ?s7" by (rule breach_forced) (intro close_end, simp)
  moreover have "\<not> forced ?s7 u" for u
    by (auto simp: ev all_finished_def elim!: forced.cases)
  moreover have "\<not> bCancelled ?s7" by (simp add: ev)
  ultimately show ?thesis by (intro exI [of _ ?s7]) simp
qed

end
