(* ===== verification/Address_Route.thy ===== *)
theory Address_Route
  imports Endpoint Bridge
begin

text \<open>
  \<^verbatim>\<open>cmd/delegate/address_route.go\<close>: one listening address bridged to one dialled address. \<open>serveAddressRoute\<close> is the
  function up to its call of \<^verbatim>\<open>link.Serve\<close>; the machine of a running route is the one of \<open>Bridge\<close> with the
  addresses its goroutines dial and the deferred close of the listener.
\<close>

section \<open>Before the bridge\<close>

text \<open>The functions of the runtime that may be missing are options; the first argument is the network.\<close>

record ('l, 'd) addressRouteRuntime =
  rtListen :: "(string \<Rightarrow> string \<Rightarrow> (string, 'l) result) option"
  rtDial :: "(string \<Rightarrow> string \<Rightarrow> 'd) option"
  rtDrain :: int

definition productionAddressRouteRuntime ::
    "(string \<Rightarrow> string \<Rightarrow> (string, 'l) result) \<Rightarrow> (string \<Rightarrow> string \<Rightarrow> 'd) \<Rightarrow> ('l, 'd) addressRouteRuntime" where
  "productionAddressRouteRuntime net_Listen dialContext =
     \<lparr>rtListen = Some net_Listen, rtDial = Some dialContext, rtDrain = 10 * 10 ^ 9\<rparr>"

datatype route_run_error =
    UnsupportedRoute string string
  | RouteListenerRequired
  | RouteDialerRequired
  | RouteDrainTimeout
  | RouteListen string string

definition address_of :: "Address \<Rightarrow> string" where
  "address_of a = JoinHostPort (aHost a) (Itoa (uint (aPort a)))"

text \<open>What is handed to \<^verbatim>\<open>link.Serve\<close>: the listener, what a dial does, and the drain timeout.\<close>

definition serveAddressRoute :: "Route \<Rightarrow> ('l, 'd) addressRouteRuntime \<Rightarrow> (route_run_error, 'l \<times> 'd \<times> int) result" where
  "serveAddressRoute route rt =
     (if Kind (Ingress route) \<noteq> TCPListen \<or> Kind (Egress route) \<noteq> TCPConnect
      then Inl (UnsupportedRoute (Kind (Ingress route)) (Kind (Egress route)))
      else (case rtListen rt of
        None \<Rightarrow> Inl RouteListenerRequired
      | Some listen \<Rightarrow>
          (case rtDial rt of
             None \<Rightarrow> Inl RouteDialerRequired
           | Some dial \<Rightarrow>
               if rtDrain rt \<le> 0 then Inl RouteDrainTimeout
               else (case listen ''tcp'' (address_of (Ingress route)) of
                 Inl e \<Rightarrow> Inl (RouteListen (address_of (Ingress route)) e)
               | Inr listener \<Rightarrow> Inr (listener, dial ''tcp'' (address_of (Egress route)), rtDrain rt)))))"

section \<open>The running route\<close>

text \<open>\<open>rDialled\<close> are the addresses that the goroutines of the clients have asked the runtime to dial, in order;
  \<open>rReturned\<close> tells that the deferred \<^verbatim>\<open>listener.Close()\<close> has run and the function returned.\<close>

record route_state =
  rBridge :: bridge_state
  rDialled :: "string list"
  rReturned :: bool

definition route_start :: "bool \<Rightarrow> route_state" where
  "route_start ctx_done = \<lparr>rBridge = serve_start ctx_done True, rDialled = [], rReturned = False\<rparr>"

text \<open>A step of the bridge that starts the goroutine of a client makes the one dial of that goroutine.\<close>

definition bridge_moves :: "string \<Rightarrow> route_state \<Rightarrow> bridge_state \<Rightarrow> route_state" where
  "bridge_moves addr r b =
     r\<lparr>rBridge := b, rDialled := rDialled r @ replicate (length (bStreams b) - length (bStreams (rBridge r))) addr\<rparr>"

definition close_listener_at_end :: "route_state \<Rightarrow> route_state" where
  "close_listener_at_end r = r\<lparr>rBridge := (rBridge r)\<lparr>bListening := False\<rparr>, rReturned := True\<rparr>"

inductive route_due :: "string \<Rightarrow> route_state \<Rightarrow> route_state \<Rightarrow> bool" for addr where
  route_bridge: "forced (rBridge r) b \<Longrightarrow> route_due addr r (bridge_moves addr r b)"
| route_end: "returned (bPhase (rBridge r)) \<Longrightarrow> \<not> rReturned r \<Longrightarrow> route_due addr r (close_listener_at_end r)"

definition route_step :: "string \<Rightarrow> route_state \<Rightarrow> route_state \<Rightarrow> bool" where
  "route_step addr r r' \<longleftrightarrow> route_due addr r r' \<or> (\<exists>b. free (rBridge r) b \<and> r' = bridge_moves addr r b)"

abbreviation route_init :: "route_state \<Rightarrow> bool" where
  "route_init r \<equiv> \<exists>ctx_done. r = route_start ctx_done"

abbreviation route_reach :: "string \<Rightarrow> route_state \<Rightarrow> bool" where
  "route_reach addr \<equiv> reach route_init (route_step addr)"

section \<open>Lemmas\<close>

lemma bstep_streams: "bstep b b' \<Longrightarrow> length (bStreams b) \<le> length (bStreams b')"
  unfolding bstep_def by (elim disjE forced.cases free.cases) (auto simp: bridge_ops split: if_splits)

lemma bstep_closes: "bstep b b' \<Longrightarrow> bListening b' \<Longrightarrow> bListening b"
  unfolding bstep_def by (elim disjE forced.cases free.cases) (auto simp: bridge_ops split: if_splits)

definition route_inv :: "string \<Rightarrow> route_state \<Rightarrow> bool" where
  "route_inv addr r \<longleftrightarrow> rDialled r = replicate (length (bStreams (rBridge r))) addr \<and>
     (rReturned r \<longrightarrow> returned (bPhase (rBridge r)) \<and> \<not> bListening (rBridge r))"

lemma route_cases:
  assumes "route_step addr r r'"
  obtains (bridge) b where "bstep (rBridge r) b" "r' = bridge_moves addr r b"
  | (ended) "returned (bPhase (rBridge r))" "\<not> rReturned r" "r' = close_listener_at_end r"
  using assms by (auto simp: route_step_def bstep_def elim!: route_due.cases)

lemma route_inv_step:
  assumes "route_inv addr r" and "route_step addr r r'"
  shows "route_inv addr r'"
  using assms(2)
proof (cases rule: route_cases)
  case (bridge b)
  with assms(1) bstep_streams [OF bridge(1)] bstep_closes [OF bridge(1)] bstep_frame [OF bridge(1)] show ?thesis
    by (auto simp: route_inv_def bridge_moves_def replicate_add [symmetric])
next
  case ended
  with assms(1) show ?thesis by (simp add: route_inv_def close_listener_at_end_def)
qed

lemma route_moves: "route_step addr r r' \<Longrightarrow> bstep (rBridge r) (rBridge r') \<or> rBridge r' = rBridge r"
  by (cases rule: route_cases, assumption)
    (simp_all add: bridge_moves_def close_listener_at_end_def listener_closes)

interpretation route_part: projection route_init "route_step addr" "route_inv addr" rBridge breachable bstep for addr
proof
  show "route_init r \<Longrightarrow> route_inv addr r" for r by (auto simp: route_inv_def route_start_def serve_start_def)
  show "route_init r \<Longrightarrow> breachable (rBridge r)" for r by (auto simp: route_start_def intro: breach_start)
qed (auto intro: route_inv_step breachable.intros dest: route_moves)

definition rweight :: "route_state \<Rightarrow> nat" where
  "rweight r = bweight (rBridge r) + (if rReturned r then 0 else 1)"

abbreviation route_ending :: "route_state \<Rightarrow> bool" where
  "route_ending r \<equiv> binv (rBridge r) \<and> bCancelled (rBridge r)"

lemma rweight_lighter: "route_ending r \<Longrightarrow> route_step addr r r' \<Longrightarrow> rweight r' < rweight r"
  by (cases rule: route_cases, assumption)
    (auto simp: rweight_def bridge_moves_def close_listener_at_end_def bweight_def dest: bweight_lighter)

lemma route_progress: "route_ending r \<Longrightarrow> \<not> rReturned r \<Longrightarrow> \<exists>r'. route_due addr r r'"
  using bridge_progress [of "rBridge r"] route_bridge route_end by metis

interpretation route: winding_down route_ending "route_step addr" "route_due addr" "\<lambda>_ _. False" rReturned rweight 0 for addr
proof
  show "route_ending r \<Longrightarrow> route_step addr r r' \<Longrightarrow> route_ending r'" for r r'
    using route_moves binv_step cancelled_stays by metis
  show "route_ending r \<Longrightarrow> route_step addr r r' \<Longrightarrow> rweight r' < rweight r" for r r' by (rule rweight_lighter)
qed (auto simp: route_step_def intro: route_progress)

lemma route_forced: "route_reach addr r \<Longrightarrow> forced (rBridge r) b \<Longrightarrow> route_reach addr (bridge_moves addr r b)"
  by (rule reach_step) (auto simp: route_step_def intro: route_bridge)

lemma route_free: "route_reach addr r \<Longrightarrow> free (rBridge r) b \<Longrightarrow> route_reach addr (bridge_moves addr r b)"
  by (rule reach_step) (auto simp: route_step_def)

section \<open>Properties\<close>

text \<open>The address route opens one listener and dials one address. A route is served exactly when both addresses
  are TCP addresses, the runtime is complete and its drain timeout positive, and the listening address can
  be bound; the listener is bound to the first address and every dial goes to the second; \<^verbatim>\<open>link.Serve\<close> does not
  refuse its arguments; and with the runtime of the program only the addresses and the binding matter.\<close>

theorem serveAddressRoute_iff:
  "(serveAddressRoute route rt = Inr (listener, dialler, drain) \<longleftrightarrow>
     Kind (Ingress route) = TCPListen \<and> Kind (Egress route) = TCPConnect \<and> 0 < rtDrain rt \<and> drain = rtDrain rt \<and>
     (\<exists>listen dial. rtListen rt = Some listen \<and> rtDial rt = Some dial \<and>
        listen ''tcp'' (address_of (Ingress route)) = Inr listener \<and> dialler = dial ''tcp'' (address_of (Egress route)))) \<and>
   (serveAddressRoute route rt = Inr (listener, dialler, drain) \<longrightarrow> serve_check True True drain = None) \<and>
   (serveAddressRoute route (productionAddressRouteRuntime net_Listen dialContext) = Inr (listener, dialler, drain) \<longleftrightarrow>
     Kind (Ingress route) = TCPListen \<and> Kind (Egress route) = TCPConnect \<and> drain = 10000000000 \<and>
     net_Listen ''tcp'' (address_of (Ingress route)) = Inr listener \<and> dialler = dialContext ''tcp'' (address_of (Egress route)))"
  by (auto simp: serveAddressRoute_def productionAddressRouteRuntime_def serve_check_def split: option.splits sum.splits)

theorem serveAddressRoute_iff_witness:
  "serveAddressRoute \<lparr>Ingress = \<lparr>Kind = TCPListen, aHost = ''::1'', aPort = 80, Input = []\<rparr>,
       Egress = \<lparr>Kind = TCPConnect, aHost = ''db'', aPort = 5432, Input = []\<rparr>\<rparr>
     (productionAddressRouteRuntime (\<lambda>n a. Inr (n, a)) (\<lambda>n a. (n, a))) =
   Inr ((''tcp'', ''[::1]:80''), (''tcp'', ''db:5432''), 10000000000)"
  by (rule serveAddressRoute_iff [THEN conjunct2, THEN conjunct2, THEN iffD2])
    (simp add: kinds address_of_def go_defs go_loops)

text \<open>A running route keeps to its address and leaves nothing open. In every reachable state each client that was
  registered has caused one dial, to the address of the route, and nothing else is dialled; and when the
  function has returned, its listener is closed, every client and every dialled connection is closed, and
  each goroutine of a client has ended.\<close>

theorem route_no_leak:
  assumes "route_reach (address_of (Egress route)) r"
  shows "rDialled r = replicate (length (bStreams (rBridge r))) (address_of (Egress route)) \<and>
    (rReturned r \<longrightarrow> \<not> bListening (rBridge r) \<and> bOpened (rBridge r) \<subseteq> bClosed (rBridge r) \<and> all_finished (rBridge r))"
proof -
  have parts: "route_inv (address_of (Egress route)) r" "breachable (rBridge r)" using route_part.projects [OF assms] by auto
  have "bOpened (rBridge r) \<subseteq> bClosed (rBridge r) \<and> all_finished (rBridge r)" if "returned (bPhase (rBridge r))"
    using that no_leak_reachable [OF parts(2)] by (cases "bPhase (rBridge r)") auto
  with parts(1) show ?thesis by (auto simp: route_inv_def)
qed

theorem route_no_leak_witness:
  "\<exists>r. route_reach ''db:5432'' r \<and> rReturned r \<and> rDialled r = [''db:5432''] \<and> bOpened (rBridge r) = {1} \<and> 1 \<in> bClosed (rBridge r)"
proof -
  let ?route = "\<lparr>Ingress = \<lparr>Kind = TCPListen, aHost = ''::1'', aPort = 80, Input = []\<rparr>,
    Egress = \<lparr>Kind = TCPConnect, aHost = ''db'', aPort = 5432, Input = []\<rparr>\<rparr>"
  let ?b0 = "serve_start False True"
  let ?b1 = "?b0\<lparr>bPhase := Accepted 1, bOpened := {1}\<rparr>"
  let ?b3 = "checked_add 1 (accepted_check 1 ?b1)"
  let ?b4 = "set_stream 0 (Unwind (client_deferred 1)) ?b3"
  let ?b6 = "run_deferred (DClose 1) (set_stream 0 (Unwind []) (run_deferred (DRemove 1) (set_stream 0 (Unwind [DClose 1]) ?b4)))"
  let ?b8 = "?b6\<lparr>bListening := False, bPhase := Draining\<rparr>"
  let ?b9 = "?b8\<lparr>bPhase := Returned None\<rparr>"
  note ev = serve_start_def newConnections_def bridge_ops bridge_moves_def
  have "route_reach ''db:5432'' \<lparr>rBridge = ?b0, rDialled = [], rReturned = False\<rparr>"
    by (rule reach_init, rule exI [of _ False]) (simp add: route_start_def)
  from route_free [OF this accept_client [where c = 1]] have "route_reach ''db:5432'' \<lparr>rBridge = ?b1, rDialled = [], rReturned = False\<rparr>"
    by (simp add: ev)
  from route_forced [OF this check_accepted [where c = 1]]
  have "route_reach ''db:5432'' \<lparr>rBridge = accepted_check 1 ?b1, rDialled = [], rReturned = False\<rparr>" by (simp add: ev)
  from route_forced [OF this add_checked [where c = 1]]
  have "route_reach ''db:5432'' \<lparr>rBridge = ?b3, rDialled = [''db:5432''], rReturned = False\<rparr>" by (simp add: ev)
  from route_free [OF this dial_fails [where i = 0 and c = 1]]
  have "route_reach ''db:5432'' \<lparr>rBridge = ?b4, rDialled = [''db:5432''], rReturned = False\<rparr>" by (simp add: ev)
  from route_forced [OF this unwind [where i = 0 and c = 1 and d = "DRemove 1" and ds = "[DClose 1]"]]
  have "route_reach ''db:5432'' \<lparr>rBridge = run_deferred (DRemove 1) (set_stream 0 (Unwind [DClose 1]) ?b4), rDialled = [''db:5432''],
    rReturned = False\<rparr>" by (simp add: ev)
  from route_forced [OF this unwind [where i = 0 and c = 1 and d = "DClose 1" and ds = "[]"]]
  have "route_reach ''db:5432'' \<lparr>rBridge = ?b6, rDialled = [''db:5432''], rReturned = False\<rparr>" by (simp add: ev)
  from route_free [OF this close_listener]
  have "route_reach ''db:5432'' \<lparr>rBridge = ?b6\<lparr>bListening := False\<rparr>, rDialled = [''db:5432''], rReturned = False\<rparr>" by (simp add: ev)
  from route_forced [OF this accept_closed]
  have "route_reach ''db:5432'' \<lparr>rBridge = ?b8, rDialled = [''db:5432''], rReturned = False\<rparr>" by (simp add: ev)
  from route_forced [OF this all_drained]
  have r: "route_reach ''db:5432'' \<lparr>rBridge = ?b9, rDialled = [''db:5432''], rReturned = False\<rparr>" by (simp add: ev all_finished_def)
  have "route_reach ''db:5432'' (close_listener_at_end \<lparr>rBridge = ?b9, rDialled = [''db:5432''], rReturned = False\<rparr>)"
    by (rule reach_step [OF r]) (simp add: route_step_def route_end)
  moreover have "address_of (Egress ?route) = ''db:5432''" by (simp add: address_of_def go_defs go_loops)
  ultimately show ?thesis
    using route_no_leak [of ?route "close_listener_at_end \<lparr>rBridge = ?b9, rDialled = [''db:5432''], rReturned = False\<rparr>"]
    by (intro exI [of _ "close_listener_at_end \<lparr>rBridge = ?b9, rDialled = [''db:5432''], rReturned = False\<rparr>"])
      (simp add: ev close_listener_at_end_def)
qed

text \<open>A route ends after a signal. From every reachable state with a cancelled context every run is bounded by
  \<open>rweight\<close>, a step is due until the function has returned, and so it returns.\<close>

theorem route_terminates:
  assumes "route_reach addr r" and "bCancelled (rBridge r)"
  shows "((route_step addr ^^ n) r r' \<longrightarrow> n \<le> rweight r \<and> (rReturned r' \<or> (\<exists>u. route_due addr r' u))) \<and>
    (\<exists>m u. (route_due addr ^^ m) r u \<and> rReturned u)"
  using route.winds_down [of r addr n 0 r'] run_counted_relpowp [of n "route_step addr" r r'] assms(2)
    binv_reachable route_part.projects [OF assms(1)] by auto

theorem route_terminates_witness:
  "\<exists>m u. (route_due ''db:5432'' ^^ m) (route_start True) u \<and> rReturned u"
proof -
  have "route_reach ''db:5432'' (route_start True)" by (rule reach_init) blast
  from route_terminates [OF this, of 0 "route_start True"] show ?thesis by (simp add: route_start_def serve_start_def)
qed

end
