(* ===== verification/Process.thy ===== *)
theory Process
  imports Command Runtime Server_Lifecycle Address_Route
begin

text \<open>
  The serving process of \<^verbatim>\<open>cmd/delegate/main.go\<close>: \<^verbatim>\<open>serveHTTP\<close> and the reload loop \<^verbatim>\<open>watchReload\<close>, which join the
  configuration store, the start-up, the handler and the end of the servers. The properties here span
  these components.
\<close>

section \<open>Reloading\<close>

text \<open>What the \<^verbatim>\<open>select\<close> of the loop receives: a signal, with what opening and reading the file gives then, or
  the end of the context.\<close>

datatype 'i watch_event = ReloadSignal "(string, 'i \<times> string option) result" | ContextDone

definition runtime_capability :: "Config \<Rightarrow> string option" where
  "runtime_capability c = (if validateRuntimeSupport c then None else Some ''unsupported server protocol'')"

fun watchReload ::
    "('i \<Rightarrow> (toml_error, Config) result) \<Rightarrow> Store \<Rightarrow> 'i watch_event list \<Rightarrow>
       Store \<times> (string, string) reload_error option list" where
  "watchReload decode store [] = (store, [])"
| "watchReload decode store (ContextDone # events) = (store, [])"
| "watchReload decode store (ReloadSignal opened # events) =
     (case ReloadTOMLFileWithValidation decode opened (Some runtime_capability) (Some store) of
        (err, None) \<Rightarrow> (store, [err])
      | (err, Some store') \<Rightarrow>
          (case watchReload decode store' events of (final, reports) \<Rightarrow> (final, err # reports)))"

section \<open>Serving\<close>

datatype gateway_error =
    InitializeStore config_error
  | PrepareRuntime runtime_error
  | ServeFailed lifecycle_error

text \<open>What is running once everything is prepared; \<open>gwWatching\<close> tells whether reload signals are handled.\<close>

record ('s, 'tls) gateway =
  gwStore :: Store
  gwWatching :: bool
  gwRuntime :: "('s, 'tls) http_runtime"

definition start_gateway ::
    "(Backend \<Rightarrow> (load_error, 'tls) result) \<Rightarrow> (Frontend \<Rightarrow> (load_error, 'tls) result) \<Rightarrow> (string \<Rightarrow> (err, nat) result) \<Rightarrow>
     ('s, 'tls) http_client \<Rightarrow> 's ftp_peer \<Rightarrow> ('s, 'tls) http_client \<Rightarrow> 's dialer \<Rightarrow> bool \<Rightarrow> Config \<Rightarrow> string \<Rightarrow>
       runtime_event list \<times> (gateway_error, ('s, 'tls) gateway) result" where
  "start_gateway load_backend load_frontend listen lib network backendClient net_dialer has_signals configured reloadPath =
     (case NewStore configured of
        Inl e \<Rightarrow> ([], Inl (InitializeStore e))
      | Inr store \<Rightarrow>
          (case prepareHTTPRuntime load_backend load_frontend listen (NewHTTPRoutes lib network (Some backendClient)) Snapshot net_dialer configured of
             (log, Inl e) \<Rightarrow> (log, Inl (PrepareRuntime e))
           | (log, Inr rt) \<Rightarrow>
               (log, Inr \<lparr>gwStore = store, gwWatching = (reloadPath \<noteq> [] \<and> has_signals), gwRuntime = rt\<rparr>)))"

text \<open>The whole of \<^verbatim>\<open>serveHTTP\<close>: after the start, the servers run until all have ended, and the idle connections of
  the routes are closed. \<open>finished\<close> and \<open>parentStopped\<close> are those of \<open>ServeAll\<close>.\<close>

definition serveHTTP ::
    "(Backend \<Rightarrow> (load_error, 'tls) result) \<Rightarrow> (Frontend \<Rightarrow> (load_error, 'tls) result) \<Rightarrow> (string \<Rightarrow> (err, nat) result) \<Rightarrow>
     ('s, 'tls) http_client \<Rightarrow> 's ftp_peer \<Rightarrow> ('s, 'tls) http_client \<Rightarrow> 's dialer \<Rightarrow> bool \<Rightarrow>
     (serve_env \<times> connectionSessions tracked) list \<Rightarrow> bool \<Rightarrow> Config \<Rightarrow> string \<Rightarrow>
       gateway_error option \<times> runtime_event list \<times> connectionSessions tracked list" where
  "serveHTTP load_backend load_frontend listen lib network backendClient net_dialer has_signals finished parentStopped configured reloadPath =
     (case start_gateway load_backend load_frontend listen lib network backendClient net_dialer has_signals configured reloadPath of
        (log, Inl e) \<Rightarrow> (Some e, log, [])
      | (log, Inr gw) \<Rightarrow>
          (case ServeAll (length (rtListeners (gwRuntime gw))) finished parentStopped of
             (r, ts) \<Rightarrow> (map_option ServeFailed r, log @ [ClosedIdle], ts)))"

section \<open>Lemmas\<close>

lemma watch_reload_store:
  "ReloadTOMLFileWithValidation decode opened validate (Some store) = (err, store') \<Longrightarrow> \<exists>s. store' = Some s"
  by (cases err) (auto dest: Reload_failure elim: Reload_success)

lemma watchReload_running:
  assumes "watchReload decode store events = (final, reports)" and "running decode initial store"
  shows "running decode initial final"
  using assms
proof (induction decode store events arbitrary: final reports rule: watchReload.induct)
  case (3 decode store opened events)
  obtain err store' where step: "ReloadTOMLFileWithValidation decode opened (Some runtime_capability) (Some store) = (err, Some store')"
    using watch_reload_store by (metis prod.exhaust)
  from reloaded [OF "3.prems"(2) step] have "running decode initial store'" .
  with 3 step show ?case by (auto split: prod.splits)
qed auto

text \<open>The contents that the reloads up to the end of the context find and accept.\<close>

definition runs :: "Config \<Rightarrow> bool" where
  "runs c \<longleftrightarrow> Config_Validate c = None \<and> validateRuntimeSupport c"

lemma watchReload_steps:
  assumes "watchReload decode store events = (final, reports)"
  shows "length reports = length (takeWhile (\<lambda>e. e \<noteq> ContextDone) events) \<and>
    (runs (Snapshot store) \<longrightarrow> runs (Snapshot final)) \<and>
    ((\<forall>r \<in> set reports. r \<noteq> None) \<longrightarrow> final = store)"
  using assms
proof (induction decode store events arbitrary: final reports rule: watchReload.induct)
  case (3 decode store opened events)
  obtain err store' where step: "ReloadTOMLFileWithValidation decode opened (Some runtime_capability) (Some store) = (err, Some store')"
    using watch_reload_store by (metis prod.exhaust)
  obtain reports' where rest: "watchReload decode store' events = (final, reports')" "reports = err # reports'"
    using 3(2) step by (auto split: prod.splits)
  note IH = 3(1) [OF step [symmetric] refl rest(1)]
  show ?case
  proof (cases err)
    case None
    with step have "runs (Snapshot store')"
      by (auto elim!: Reload_success simp: runs_def runtime_capability_def Snapshot_def Config_Validate_wf split: if_splits)
    with IH rest(2) None show ?thesis by auto
  next
    case (Some e)
    with step have "store' = store" using Reload_failure by blast
    with IH rest(2) Some show ?thesis by auto
  qed
qed auto

lemma start_gateway_Inr:
  assumes "start_gateway lb lf listen lib network client dial sig configured path = (log, Inr gw)"
  shows "NewStore configured = Inr (gwStore gw) \<and> Snapshot (gwStore gw) = configured \<and> Config_Validate configured = None \<and>
    prepareHTTPRuntime lb lf listen (NewHTTPRoutes lib network (Some client)) Snapshot dial configured = (log, Inr (gwRuntime gw))"
  using assms
  by (auto simp: start_gateway_def NewStore_Inr Snapshot_def Config_Validate_wf split: sum.splits prod.splits)

text \<open>A tunnel dials over TCP, the authority in the target of its mapping.\<close>

lemma tunnel_dials:
  assumes "handle_request h st room hdr env request s t = (resp, s', t')" and "s' \<noteq> s" and "hMethod request = ''CONNECT''"
    and "hdRelay h = Some (TCP_Connect (Some dial))"
    and "ResolveFor (Mounts (hdSnapshot h st)) (handler_request (hdServer h) request) = Inr matched"
  shows "\<exists>op. relayOperation (matchTarget matched) = Some op \<and> ValidateConnectAuthority (rlAddress op) = None \<and>
    s' = fst (dial (dialContext (registry t) (request_cancelled env)) ''tcp'' (rlAddress op) s)"
proof -
  obtain r where "serveCONNECT (hdServer h) (hdSnapshot h st) (Some (TCP_Connect (Some dial))) env request s t = (r, s', t')"
    using assms(1,3,4) by (auto simp: handle_request_def ServeHTTP_def split: prod.splits)
  then show ?thesis
  proof (cases rule: serveCONNECT_passes)
    case (accepted matched' source Connect op)
    have "matched' = matched" using accepted(2) assms(3,5) by (simp add: handler_request_def)
    with accepted connect_tunnel_state [of Connect env op s t] relayOperation_valid [of "matchTarget matched" op] show ?thesis
      by (auto simp: TCP_Connect_def)
  qed (use assms(2) in simp)
qed

lemma gateway_handler:
  assumes "start_gateway lb lf listen lib network client dial sig configured path = (log, Inr gw)"
    and "h \<in> set (rtHandlers (gwRuntime gw))"
  shows "hdSnapshot h = Snapshot \<and> hdRelay h = Some (TCP_Connect (Some dial)) \<and>
    hdConnector h = routes_connector (rtRoutes (gwRuntime gw)) \<and> hdServer h \<in> sName ` set (Servers configured)"
proof -
  from start_gateway_Inr [OF assms(1)]
  have "prepareHTTPRuntime lb lf listen (NewHTTPRoutes lib network (Some client)) Snapshot dial configured = (log, Inr (gwRuntime gw))"
    by simp
  then show ?thesis using assms(2) by (cases rule: prepare_cases) auto
qed

text \<open>A gateway with one server and one mapping, on a library that records what it is asked.\<close>

lemma small_gateway:
  obtains h :: "string list httpHandler" and gw :: "(string list, unit) gateway" and s' r where
    "start_gateway (\<lambda>_. Inl NoCertificates) (\<lambda>_. Inl NoCertificates) (\<lambda>_. Inr 1) log_client plain_server_peer log_client (\<lambda>_ _ _ s. (s, Inl [])) True
      files_config ''c.toml'' = ([Bound '':80'' 1], Inr gw)"
    "watchReload (\<lambda>_ :: string. Inl (OtherDecodeError [])) (gwStore gw) [ReloadSignal (Inl ''gone'')] =
      (Some files_config, [Some (ReloadOpen ''gone'')])"
    "h \<in> set (rtHandlers (gwRuntime gw))"
    "handle_request h (Some files_config) None [] quiet_env (origin_request ''GET'' ''/files/x'') [] (fresh newConnectionSessions) =
      (Operation r, s', fresh newConnectionSessions)" "s' \<noteq> []"
    "hdServer h = ''web''" "rtRoutes (gwRuntime gw) = NewHTTPRoutes log_client plain_server_peer (Some log_client) Map.empty"
proof -
  let ?r = "NewHTTPRoutes log_client plain_server_peer (Some log_client) Map.empty"
  let ?req = "origin_request ''GET'' ''/files/x''" and ?d = "\<lambda>_ _ _ s. (s, Inl [])"
  let ?h = "server_handler Snapshot ?d ?r (plain_server ''web'' ''http'' '':80'')"
  let ?gw = "\<lparr>gwStore = Some files_config, gwWatching = True,
        gwRuntime = \<lparr>rtHandlers = [?h], rtListeners = [(''web'', 1, None)], rtRoutes = ?r\<rparr>\<rparr>"
  have "wf_config files_config"
    by (simp add: wf_config_def good_server_def good_scope_def Rule_Validate_def mount_eval path_eval go_defs go_loops)
  then have "NewStore files_config = Inr (Some files_config)" by (simp only: NewStore_Inr simp_thms)
  then have start: "start_gateway (\<lambda>_. Inl NoCertificates) (\<lambda>_. Inl NoCertificates) (\<lambda>_. Inr 1) log_client plain_server_peer log_client ?d True
      files_config ''c.toml'' = ([Bound '':80'' 1], Inr ?gw)"
    by (simp add: start_gateway_def prepareHTTPRuntime_def)
  have watch: "watchReload (\<lambda>_ :: string. Inl (OtherDecodeError [])) (gwStore ?gw) [ReloadSignal (Inl ''gone'')] =
      (Some files_config, [Some (ReloadOpen ''gone'')])"
    by (simp add: ReloadTOMLFileWithValidation_def reload_candidate_def)
  obtain s' r where op: "serve_operation ''web'' files_config (routes_connector ?r) None [] ?req [] = (s', r)"
    by (rule prod.exhaust)
  have "fst (serve_operation ''web'' files_config (routes_connector ?r) None [] ?req []) \<noteq> []"
    by (simp add: serve_eval routes_connector_def routes_Fetch_def connectorForMount_def HTTP_Fetch_def HTTP_execute_def
        NewRequest_def token_char_def NewHTTPRoutes_def NewHTTP_def log_client_def Let_def)
  with op have change: "s' \<noteq> []" by simp
  have served: "handle_request ?h (Some files_config) None [] quiet_env ?req [] (fresh newConnectionSessions) =
      (Operation r, s', fresh newConnectionSessions)"
    using op by (simp add: handle_request_def ServeHTTP_def Snapshot_def)
  show thesis by (rule that [OF start watch _ served change]) simp_all
qed

section \<open>Properties\<close>

text \<open>C1: the gateway as a whole. Take a gateway that was started, let it go through any sequence of reload signals
  with whatever files are found, and send any request to the handler of any of its servers: if serving it
  changes anything outside the process, then the configuration published at that moment is valid, the
  request resolves in it to one of its mappings in the scope of that server, a permit rule matches and the
  policy allows exactly this source, method and mapping, and the routes that were prepared at the start have
  the connector of that mapping; and what a tunnel does outside is one dial, over TCP, of the validated
  authority in that mapping's target.\<close>

theorem gateway_guarded:
  assumes "start_gateway lb lf listen lib network client dial sig configured path = (log, Inr gw)"
    and "watchReload decode (gwStore gw) events = (st, reports)"
    and "h \<in> set (rtHandlers (gwRuntime gw))"
    and "handle_request h st room hdr env request s t = (resp, s', t')"
    and "s' \<noteq> s"
  shows "Config_Validate (Snapshot st) = None \<and> hdServer h \<in> sName ` set (Servers configured) \<and>
    (\<exists>matched source rule.
      ResolveFor (Mounts (Snapshot st)) (handler_request (hdServer h) request) = Inr matched \<and>
      matchMount matched \<in> set (Mounts (Snapshot st)) \<and> mServer (matchMount matched) \<in> {[], ''*'', hdServer h} \<and>
      policySource (Servers (Snapshot st)) (hdServer h) request = Inr source \<and>
      Allowed (Evaluate (Policies (Snapshot st)) (policy_request source matched (hMethod request))) \<and>
      rule \<in> set (Policies (Snapshot st)) \<and> Effect rule = Permit \<and>
      (\<exists>connector. connectorForMount (rtRoutes (gwRuntime gw)) (matchMount matched) = Inr connector) \<and>
      (hMethod request = ''CONNECT'' \<longrightarrow> (\<exists>op. relayOperation (matchTarget matched) = Some op \<and>
         ValidateConnectAuthority (rlAddress op) = None \<and>
         s' = fst (dial (dialContext (registry t) (request_cancelled env)) ''tcp'' (rlAddress op) s))))"
proof -
  note gw = start_gateway_Inr [OF assms(1)]
  note h = gateway_handler [OF assms(1,3)]
  from gw have run: "running decode configured st" by (intro watchReload_running [OF assms(2)] started) blast
  then have valid: "Config_Validate (Snapshot st) = None" by (simp add: running_invariant Config_Validate_wf)
  have "fst (snd (ServeHTTP (hdServer h) (Snapshot st) (hdConnector h) (hdRelay h) room hdr env request s t)) \<noteq> s"
    using assms(4,5) h by (simp add: handle_request_def)
  from handler.guarded [OF this] obtain matched source rule where m:
    "ResolveFor (Mounts (Snapshot st)) (handler_request (hdServer h) request) = Inr matched"
    "policySource (Servers (Snapshot st)) (hdServer h) request = Inr source"
    "Allowed (Evaluate (Policies (Snapshot st)) (policy_request source matched (hMethod request)))"
    "matchMount matched \<in> set (Mounts (Snapshot st))" "mServer (matchMount matched) \<in> {[], ''*'', hdServer h}"
    "rule \<in> set (Policies (Snapshot st))" "Effect rule = Permit" by (elim exE conjE) (rule that; assumption)
  have "\<exists>connector. connectorForMount (rtRoutes (gwRuntime gw)) (matchMount matched) = Inr connector"
    using running_routes [OF _ run m(4)] gw by blast
  moreover have "hMethod request = ''CONNECT'' \<longrightarrow> (\<exists>op. relayOperation (matchTarget matched) = Some op \<and>
      ValidateConnectAuthority (rlAddress op) = None \<and>
      s' = fst (dial (dialContext (registry t) (request_cancelled env)) ''tcp'' (rlAddress op) s))"
    using tunnel_dials [OF assms(4,5), of dial matched] h m(1) by simp
  ultimately show ?thesis using valid h m by blast
qed

theorem gateway_guarded_witness:
  "\<exists>matched connector. ResolveFor (Mounts files_config) (mount_request ''web'' (origin_request ''GET'' ''/files/x'')) = Inr matched \<and>
     connectorForMount (NewHTTPRoutes log_client plain_server_peer (Some log_client) Map.empty) (matchMount matched) = Inr connector"
proof (rule small_gateway)
  fix h gw s' r
  assume run: "start_gateway (\<lambda>_. Inl NoCertificates) (\<lambda>_. Inl NoCertificates) (\<lambda>_. Inr 1) log_client plain_server_peer log_client (\<lambda>_ _ _ s. (s, Inl [])) True
      files_config ''c.toml'' = ([Bound '':80'' 1], Inr gw)"
    "watchReload (\<lambda>_ :: string. Inl (OtherDecodeError [])) (gwStore gw) [ReloadSignal (Inl ''gone'')] =
      (Some files_config, [Some (ReloadOpen ''gone'')])"
    "h \<in> set (rtHandlers (gwRuntime gw))"
    "handle_request h (Some files_config) None [] quiet_env (origin_request ''GET'' ''/files/x'') [] (fresh newConnectionSessions) =
      (Operation r, s', fresh newConnectionSessions)" "s' \<noteq> []"
    and fields: "hdServer h = ''web''" "rtRoutes (gwRuntime gw) = NewHTTPRoutes log_client plain_server_peer (Some log_client) Map.empty"
  from gateway_guarded [OF run] fields show ?thesis by (auto simp: Snapshot_def handler_request_def)
qed

text \<open>Reloads keep a running gateway running. Every signal that arrives before the context ends is answered by
  one report and later ones by none; a gateway that runs a supported configuration keeps running one;
  and when every reload was refused, the configuration is the one before.\<close>

theorem watchReload_keeps:
  assumes "watchReload decode store events = (final, reports)"
  shows "length reports = length (takeWhile (\<lambda>e. e \<noteq> ContextDone) events) \<and>
    (Config_Validate (Snapshot store) = None \<and> validateRuntimeSupport (Snapshot store) \<longrightarrow>
      Config_Validate (Snapshot final) = None \<and> validateRuntimeSupport (Snapshot final)) \<and>
    ((\<forall>r \<in> set reports. r \<noteq> None) \<longrightarrow> Snapshot final = Snapshot store)"
  using watchReload_steps [OF assms] by (auto simp: runs_def)

theorem watchReload_keeps_witness:
  "Snapshot (fst (watchReload (\<lambda>_ :: string. Inl (OtherDecodeError [])) (Some files_config)
     [ReloadSignal (Inr (''x'', None)), ContextDone, ReloadSignal (Inl ''gone'')])) = files_config"
proof -
  let ?w = "watchReload (\<lambda>_ :: string. Inl (OtherDecodeError [])) (Some files_config)
     [ReloadSignal (Inr (''x'', None)), ContextDone, ReloadSignal (Inl ''gone'')]"
  obtain st reports where run: "?w = (st, reports)" by (rule prod.exhaust)
  then have "\<forall>r \<in> set reports. r \<noteq> None"
    by (auto simp: ReloadTOMLFileWithValidation_def reload_candidate_def ParseTOML_def split: prod.splits sum.splits)
  with watchReload_keeps [OF run] show ?thesis unfolding run by (simp add: Snapshot_def)
qed

end
