(* ===== verification/Delegate.thy ===== *)
theory Delegate
  imports Process
begin

text \<open>
  The program: \<^verbatim>\<open>main\<close> of \<^verbatim>\<open>cmd/delegate/main.go\<close> with the reload signals of \<^verbatim>\<open>reload_signal_unix.go\<close> and
  \<^verbatim>\<open>reload_signal_windows.go\<close>. Everything the program takes from the operating system and from libraries is a
  field of one record.
\<close>

section \<open>Reload signals\<close>

text \<open>The build constraint of the two files decides which one is compiled.\<close>

datatype platform = Windows | NotWindows

definition reloadSignals :: "platform \<Rightarrow> string list" where
  "reloadSignals os = (case os of NotWindows \<Rightarrow> [''SIGHUP''] | Windows \<Rightarrow> [])"

text \<open>The channel that \<^verbatim>\<open>signal.Notify\<close> fills has room for one signal; another is dropped while it is full. A receive of
  the loop opens and reads the file after it; with an empty channel the loop goes on waiting.\<close>

datatype 'i signal_event = SignalArrives | LoopReceives "(string, 'i \<times> string option) result"

fun reloadEvents :: "bool \<Rightarrow> 'i signal_event list \<Rightarrow> 'i watch_event list" where
  "reloadEvents full [] = []"
| "reloadEvents full (SignalArrives # es) = reloadEvents True es"
| "reloadEvents full (LoopReceives opened # es) =
     (if full then ReloadSignal opened # reloadEvents False es else reloadEvents False es)"

section \<open>The program\<close>

record ('s, 'tls, 'i, 'l, 'd) operating_system =
  osPlatform :: platform
  osOpen :: "string \<Rightarrow> (string, 'i) result"
  osDecode :: "'i \<Rightarrow> (toml_error, Config) result"
  osWrites :: bool
  osLoadBackend :: "Backend \<Rightarrow> (load_error, 'tls) result"
  osLoadFrontend :: "Frontend \<Rightarrow> (load_error, 'tls) result"
  osListen :: "string \<Rightarrow> (err, nat) result"
  osDefaultClient :: "('s, 'tls) http_client"
  osNetwork :: "'s ftp_peer"
  osBackendClient :: "('s, 'tls) http_client"
  osDialer :: "'s dialer"
  osServers :: "(serve_env \<times> connectionSessions tracked) list"
  osStopped :: bool
  osRouteListen :: "string \<Rightarrow> string \<Rightarrow> (string, 'l) result"
  osRouteDial :: "string \<Rightarrow> string \<Rightarrow> 'd"
  osBridgeResult :: "string option"

text \<open>The two closures that \<^verbatim>\<open>main\<close> gives to \<^verbatim>\<open>runCommand\<close>.\<close>

definition main_serveConfig :: "('s, 'tls, 'i, 'l, 'd) operating_system \<Rightarrow> string \<Rightarrow> Config \<Rightarrow>
    gateway_error option \<times> runtime_event list \<times> connectionSessions tracked list" where
  "main_serveConfig os reloadPath configured =
     serveHTTP (osLoadBackend os) (osLoadFrontend os) (osListen os) (osDefaultClient os) (osNetwork os) (osBackendClient os)
       (osDialer os) (reloadSignals (osPlatform os) \<noteq> []) (osServers os) (osStopped os) configured reloadPath"

definition main_serveRoute :: "('s, 'tls, 'i, 'l, 'd) operating_system \<Rightarrow> Route \<Rightarrow> bool" where
  "main_serveRoute os route =
     (case serveAddressRoute route (productionAddressRouteRuntime (osRouteListen os) (osRouteDial os)) of
        Inl _ \<Rightarrow> False
      | Inr _ \<Rightarrow> osBridgeResult os = None)"

definition delegate_main :: "('s, 'tls, 'i, 'l, 'd) operating_system \<Rightarrow> string list \<Rightarrow> nat \<times> cli_effect" where
  "delegate_main os args =
     (let reloadPath = configPathFromArgs args in
      runCommand (osOpen os) (osDecode os) (osWrites os) (\<lambda>configured. fst (main_serveConfig os reloadPath configured) = None)
        (Some (main_serveRoute os)) args)"

section \<open>Lemmas\<close>

lemma reloadEvents_waiting:
  "\<forall>e \<in> set mid. e = SignalArrives \<Longrightarrow> reloadEvents True (mid @ LoopReceives opened # es) = ReloadSignal opened # reloadEvents False es"
  by (induction mid) auto

lemma reloadEvents_split:
  "\<exists>b' xs. reloadEvents b (pre @ es) = xs @ reloadEvents b' es"
proof (induction pre arbitrary: b)
  case Nil
  have "reloadEvents b ([] @ es) = [] @ reloadEvents b es" by simp
  then show ?case by blast
next
  case (Cons e pre)
  show ?case
  proof (cases e)
    case SignalArrives
    with Cons.IH [of True] show ?thesis by simp
  next
    case (LoopReceives opened)
    obtain b' xs where "reloadEvents False (pre @ es) = xs @ reloadEvents b' es" using Cons.IH [of False] by blast
    then have "reloadEvents b ((e # pre) @ es) = ((if b then [ReloadSignal opened] else []) @ xs) @ reloadEvents b' es"
      using LoopReceives by simp
    then show ?thesis by blast
  qed
qed

lemma reloadEvents_bound:
  "length (reloadEvents b es) \<le> (if b then 1 else 0) + length (filter (\<lambda>e. e = SignalArrives) es)"
  by (induction b es rule: reloadEvents.induct) auto

lemma run_config_serves:
  assumes "run_config open_file decode out_ok serve checking args = (code, ServeConfig c)"
  shows "code = (if serve c then 0 else 1)"
  using assms by (auto simp: run_config_def split: sum.splits if_splits)

lemma runCommand_code:
  assumes "runCommand open_file decode out_ok serve (Some serveRoute) args = (code, eff)"
  shows "(\<forall>c. eff = ServeConfig c \<longrightarrow> code = (if serve c then 0 else 1)) \<and>
    (\<forall>r. eff = ServeRoute r \<longrightarrow> code = (if serveRoute r then 0 else 1))"
proof (cases "looksLikeAddressRoute args")
  case True
  with assms show ?thesis by (auto simp: runCommand_def split: sum.splits if_splits)
next
  case False
  with assms have "run open_file decode out_ok serve args = (code, eff)" by (simp add: runCommand_def)
  then show ?thesis
    using run_config_serves run_config_effect run_explain_effect
    by (cases args) (fastforce simp: run_def split: if_splits)+
qed

text \<open>What the commands that only print have to do with the arguments.\<close>

definition printed ::
    "(string \<Rightarrow> (string, 'i) result) \<Rightarrow> ('i \<Rightarrow> (toml_error, Config) result) \<Rightarrow> bool \<Rightarrow> string list \<Rightarrow> cli_effect \<Rightarrow> bool" where
  "printed open_file decode out_ok args eff \<longleftrightarrow>
     (case eff of
        NoEffect \<Rightarrow> False
      | PrintVersion \<Rightarrow> args = [''version'']
      | PrintConfig c \<Rightarrow> out_ok \<and> (\<exists>rest. args = ''check'' # rest \<and> loadConfiguration open_file decode rest = Inr c \<and>
          Config_Validate c = None)
      | PrintExplanation res \<Rightarrow> out_ok \<and> (\<exists>rest c request. args = ''explain'' # rest \<and>
          loadExplanation open_file decode rest = Inr (c, request) \<and> explain_Evaluate c request = Inr res)
      | _ \<Rightarrow> True)"

lemma run_config_prints:
  "run_config open_file decode out_ok serve False args = (0, eff) \<Longrightarrow> \<exists>c. eff = ServeConfig c"
  "run_config open_file decode out_ok serve True args = (0, eff) \<Longrightarrow>
     \<exists>c. eff = PrintConfig c \<and> out_ok \<and> loadConfiguration open_file decode args = Inr c \<and> Config_Validate c = None"
  by (auto simp: run_config_def split: sum.splits if_splits)

lemma run_words:
  assumes "(if a = v then (if rest \<noteq> [] then (2, NoEffect) else (0, PrintVersion))
      else if a = x then f rest else if a = c then g rest else if a = w then h rest else h (a # rest)) = (0 :: nat, eff)"
  shows "a = v \<and> rest = [] \<and> eff = PrintVersion \<or> a = x \<and> f rest = (0, eff) \<or> a = c \<and> g rest = (0, eff) \<or>
    h rest = (0, eff) \<or> h (a # rest) = (0, eff)"
  using assms by (simp split: if_splits)

lemma runCommand_prints:
  assumes "runCommand open_file decode out_ok serve serveRoute args = (0, eff)"
  shows "printed open_file decode out_ok args eff"
proof (cases "looksLikeAddressRoute args")
  case True
  with assms show ?thesis by (auto simp: runCommand_def printed_def split: sum.splits option.splits if_splits)
next
  case False
  with assms have "run open_file decode out_ok serve args = (0, eff)" by (simp add: runCommand_def)
  then consider (version) "args = [''version'']" "eff = PrintVersion"
    | (expl) rest where "args = ''explain'' # rest" "run_explain open_file decode out_ok rest = (0, eff)"
    | (chk) rest where "args = ''check'' # rest" "run_config open_file decode out_ok serve True rest = (0, eff)"
    | (serving) rest where "run_config open_file decode out_ok serve False rest = (0, eff)"
  proof (cases args)
    case (Cons a rest)
    have "(if a = ''version'' then (if rest \<noteq> [] then (2, NoEffect) else (0, PrintVersion))
        else if a = ''explain'' then run_explain open_file decode out_ok rest
        else if a = ''check'' then run_config open_file decode out_ok serve True rest
        else if a = ''serve'' then run_config open_file decode out_ok serve False rest
        else run_config open_file decode out_ok serve False (a # rest)) = (0, eff)"
      using \<open>run open_file decode out_ok serve args = (0, eff)\<close> unfolding run_def Cons list.case .
    from run_words [where f = "run_explain open_file decode out_ok" and g = "run_config open_file decode out_ok serve True"
        and h = "run_config open_file decode out_ok serve False", OF this]
    show ?thesis using Cons version expl chk serving by blast
  next
    case Nil
    then show ?thesis
      using serving \<open>run open_file decode out_ok serve args = (0, eff)\<close> by (simp add: run_def)
  qed
  then show ?thesis
  proof cases
    case expl
    then show ?thesis by (auto simp: run_explain_def printed_def split: sum.splits if_splits)
  next
    case chk
    with run_config_prints(2) [OF chk(2)] show ?thesis by (auto simp: printed_def)
  next
    case serving
    with run_config_prints(1) [OF serving] show ?thesis by (auto simp: printed_def)
  qed (simp add: printed_def)
qed

section \<open>Properties\<close>

text \<open>No reload signal is lost, and none causes more than one reload. Whatever was pending, when a signal arrives and
  the loop receives afterwards, the file is read after the signal, also if the channel was full and the
  signal itself was dropped; and there are at most as many reloads as signals.\<close>

theorem signal_reloads:
  "(\<forall>e \<in> set mid. e = SignalArrives) \<longrightarrow>
     (\<exists>earlier later. reloadEvents b (pre @ SignalArrives # mid @ LoopReceives opened # post) =
        earlier @ ReloadSignal opened # later)"
  "length (reloadEvents False es) \<le> length (filter (\<lambda>e. e = SignalArrives) es)"
proof -
  show "(\<forall>e \<in> set mid. e = SignalArrives) \<longrightarrow>
     (\<exists>earlier later. reloadEvents b (pre @ SignalArrives # mid @ LoopReceives opened # post) =
        earlier @ ReloadSignal opened # later)"
    using reloadEvents_split [of b pre "SignalArrives # mid @ LoopReceives opened # post"] reloadEvents_waiting [of mid opened post]
    by fastforce
  show "length (reloadEvents False es) \<le> length (filter (\<lambda>e. e = SignalArrives) es)"
    using reloadEvents_bound [of False es] by simp
qed

text \<open>C18: what exit code 0 means. The program ends with 0 in one of five ways. After serving a configuration: it was
  valid, the whole start-up succeeded, reload signals were handled exactly if the platform has them and the
  arguments name a file, and all servers ended without error. After serving a route: it was one between two
  TCP addresses that parsed, its listener was bound, and the bridge returned without error; in particular a
  Tailcat address is never served. Or without serving anything, for \<^verbatim>\<open>version\<close> with no argument, for \<^verbatim>\<open>check\<close>
  of a configuration that loads and is valid and for an \<^verbatim>\<open>explain\<close> that was answered, the two latter with
  their output written.\<close>

theorem main_exit_zero:
  assumes "delegate_main os args = (0, eff)"
  shows "(\<forall>c. eff = ServeConfig c \<longrightarrow> Config_Validate c = None \<and>
      (\<exists>log gw. start_gateway (osLoadBackend os) (osLoadFrontend os) (osListen os) (osDefaultClient os) (osNetwork os)
          (osBackendClient os) (osDialer os) (reloadSignals (osPlatform os) \<noteq> []) c (configPathFromArgs args) = (log, Inr gw) \<and>
        (gwWatching gw \<longleftrightarrow> configPathFromArgs args \<noteq> [] \<and> osPlatform os \<noteq> Windows) \<and>
        fst (ServeAll (length (rtListeners (gwRuntime gw))) (osServers os) (osStopped os)) = None)) \<and>
    (\<forall>route. eff = ServeRoute route \<longrightarrow> ParseRoute args = Inr route \<and>
      Kind (Ingress route) = TCPListen \<and> Kind (Egress route) = TCPConnect \<and> osBridgeResult os = None \<and>
      (\<exists>listener. osRouteListen os ''tcp'' (address_of (Ingress route)) = Inr listener)) \<and>
    eff \<noteq> NoEffect \<and> (eff = PrintVersion \<longrightarrow> args = [''version'']) \<and>
    (\<forall>c. eff = PrintConfig c \<longrightarrow> osWrites os \<and> (\<exists>rest. args = ''check'' # rest \<and>
      loadConfiguration (osOpen os) (osDecode os) rest = Inr c \<and> Config_Validate c = None)) \<and>
    (\<forall>res. eff = PrintExplanation res \<longrightarrow> osWrites os \<and> (\<exists>rest c request. args = ''explain'' # rest \<and>
      loadExplanation (osOpen os) (osDecode os) rest = Inr (c, request) \<and> explain_Evaluate c request = Inr res))"
proof (intro conjI allI impI)
  from assms have run: "runCommand (osOpen os) (osDecode os) (osWrites os)
      (\<lambda>configured. fst (main_serveConfig os (configPathFromArgs args) configured) = None) (Some (main_serveRoute os)) args = (0, eff)"
    by (simp add: delegate_main_def)
  note code = runCommand_code [OF run] and valid = serves_valid [OF run]
  { fix c assume eff: "eff = ServeConfig c"
    with valid show "Config_Validate c = None" by simp
    from eff code have ok: "fst (main_serveConfig os (configPathFromArgs args) c) = None" by (auto split: if_splits)
    then obtain log gw where gw: "start_gateway (osLoadBackend os) (osLoadFrontend os) (osListen os) (osDefaultClient os)
        (osNetwork os) (osBackendClient os) (osDialer os) (reloadSignals (osPlatform os) \<noteq> []) c (configPathFromArgs args) = (log, Inr gw)"
      "fst (ServeAll (length (rtListeners (gwRuntime gw))) (osServers os) (osStopped os)) = None"
      by (auto simp: main_serveConfig_def serveHTTP_def split: prod.splits sum.splits)
    from gw(1) have "gwWatching gw \<longleftrightarrow> configPathFromArgs args \<noteq> [] \<and> osPlatform os \<noteq> Windows"
      by (auto simp: start_gateway_def reloadSignals_def split: sum.splits prod.splits platform.splits)
    with gw show "\<exists>log gw. start_gateway (osLoadBackend os) (osLoadFrontend os) (osListen os) (osDefaultClient os) (osNetwork os)
          (osBackendClient os) (osDialer os) (reloadSignals (osPlatform os) \<noteq> []) c (configPathFromArgs args) = (log, Inr gw) \<and>
        (gwWatching gw \<longleftrightarrow> configPathFromArgs args \<noteq> [] \<and> osPlatform os \<noteq> Windows) \<and>
        fst (ServeAll (length (rtListeners (gwRuntime gw))) (osServers os) (osStopped os)) = None" by blast }
  { fix route assume eff: "eff = ServeRoute route"
    with valid show "ParseRoute args = Inr route" by simp
    from eff code have ok: "main_serveRoute os route" by (auto split: if_splits)
    then show "Kind (Ingress route) = TCPListen" "Kind (Egress route) = TCPConnect" "osBridgeResult os = None"
      "\<exists>listener. osRouteListen os ''tcp'' (address_of (Ingress route)) = Inr listener"
      by (auto simp: main_serveRoute_def serveAddressRoute_def productionAddressRouteRuntime_def split: sum.splits if_splits) }
qed (use runCommand_prints [OF assms [unfolded delegate_main_def Let_def]] in \<open>auto simp: printed_def\<close>)

theorem main_exit_zero_witness:
  "\<exists>gw :: (string list, unit) gateway. gwWatching gw \<and> gwStore gw = Some files_config \<and> Config_Validate files_config = None"
proof -
  let ?args = "[''--config'', ''/c.toml'']"
  define os :: "(string list, unit, unit, unit, unit) operating_system" where
    "os = \<lparr>osPlatform = NotWindows, osOpen = (\<lambda>_. Inr ()), osDecode = (\<lambda>_. Inr files_config), osWrites = True,
       osLoadBackend = (\<lambda>_. Inl NoCertificates), osLoadFrontend = (\<lambda>_. Inl NoCertificates), osListen = (\<lambda>_. Inr 1),
       osDefaultClient = log_client, osNetwork = plain_server_peer, osBackendClient = log_client,
       osDialer = (\<lambda>_ _ _ s. (s, Inl [])), osServers = [(plain_env\<lparr>shutdown_error := None\<rparr>, fresh newConnectionSessions)],
       osStopped = True, osRouteListen = (\<lambda>_ _. Inl []), osRouteDial = (\<lambda>_ _. ()), osBridgeResult = None\<rparr>"
  have "wf_config files_config"
    by (simp add: wf_config_def good_server_def good_scope_def Rule_Validate_def mount_eval path_eval go_defs go_loops)
  then have v: "Config_Validate files_config = None" and store: "NewStore files_config = Inr (Some files_config)"
    by (simp only: Config_Validate_wf, simp only: NewStore_Inr simp_thms)
  have path: "configPathFromArgs ?args = ''/c.toml''" by (simp add: configPathFromArgs.simps go_defs go_loops)
  obtain log gw where start: "start_gateway (osLoadBackend os) (osLoadFrontend os) (osListen os) (osDefaultClient os) (osNetwork os)
      (osBackendClient os) (osDialer os) (reloadSignals (osPlatform os) \<noteq> []) files_config ''/c.toml'' = (log, Inr gw)"
      "gwStore gw = Some files_config" "length (rtListeners (gwRuntime gw)) = 1"
    using store by (simp add: start_gateway_def prepareHTTPRuntime_def os_def)
  have all: "fst (ServeAll 1 (osServers os) (osStopped os)) = None"
    by (auto simp: os_def ServeAll_def Let_def first_error_of_def Serve_def normalizeServeError_def split: prod.splits)
  have serve: "fst (main_serveConfig os ''/c.toml'' files_config) = None"
    using start all by (auto simp: main_serveConfig_def serveHTTP_def split: prod.splits)
  have "loadConfiguration (osOpen os) (osDecode os) ?args = Inr files_config"
    using v by (simp add: os_def loadConfiguration_def config_file_def is_config_flag_def ParseTOML_def go_defs go_loops)
  moreover have "validateRuntimeSupport files_config" by (simp add: validateRuntimeSupport_def go_defs go_loops)
  moreover have "\<not> looksLikeAddressRoute ?args" by (simp add: looksLikeAddressRoute_def go_defs go_loops)
  ultimately have "delegate_main os ?args = (0, ServeConfig files_config)"
    using v path serve by (simp add: delegate_main_def runCommand_def run_def run_config_def)
  from main_exit_zero [OF this] start(1) path have "gwWatching gw" by (auto simp: os_def reloadSignals_def)
  from this start(2) v show ?thesis by (intro exI [of _ gw] conjI)
qed

end
