(* ===== verification/URL_Shape.thy ===== *)
theory URL_Shape
  imports Go_URL
begin

text \<open>
  Lemmas on \<^verbatim>\<open>net/url\<close> that the resource theorems share: percent encoding is undone by decoding, the parts of a
  URL of the form scheme, authority, path and tail are found where they were written, and decoding commutes
  with appending at a character that no escape contains.
\<close>

section \<open>Percent encoding\<close>

lemma hex_digit_cases: "0 \<le> (n :: int) \<Longrightarrow> n < 16 \<Longrightarrow> n \<in> {0, 1, 2, 3, 4, 5, 6, 7, 8, 9, 10, 11, 12, 13, 14, 15}"
  by simp presburger

lemma upper_hex_value: "0 \<le> n \<Longrightarrow> n < 16 \<Longrightarrow> hex_value (upper_hex n) = Some n"
proof -
  assume "0 \<le> n" "n < 16"
  from hex_digit_cases [OF this] show ?thesis
    by (elim insertE emptyE) (simp_all add: upper_hex_def hex_value_def digit_char_def)
qed

lemma char_int_bounds: "0 \<le> (of_char c :: int)" "(of_char c :: int) < 256"
proof -
  have "(of_char c :: int) = int (of_char c)" by (rule of_nat_of_char [symmetric])
  moreover have "(of_char c :: nat) < 256" by simp
  ultimately show "0 \<le> (of_char c :: int)" "(of_char c :: int) < 256" by linarith+
qed

lemma hex_pair_byte:
  "hex_pair (upper_hex (of_char c div 16)) (upper_hex (of_char c mod 16)) = Some (of_char c :: int)"
proof -
  have "hex_value (upper_hex (of_char c div 16)) = Some (of_char c div 16)"
    "hex_value (upper_hex (of_char c mod 16)) = Some (of_char c mod 16)"
    using char_int_bounds [of c] by (auto intro!: upper_hex_value)
  then show ?thesis by (simp add: hex_pair_def)
qed

lemma percent_escaped: "shouldEscape CHR ''%'' mode"
  by (cases mode) (simp_all add: shouldEscape_def is_alnum_def)

text \<open>What may be encoded in a mode and decoded in it again.\<close>

definition encodable :: "encoding \<Rightarrow> char \<Rightarrow> bool" where
  "encodable mode c \<longleftrightarrow> (if shouldEscape c mode then escape_allowed mode (of_char c) else plain_allowed mode c)"

lemma escape_Cons:
  "escape mode (c # cs) =
     (if shouldEscape c mode then [CHR ''%'', upper_hex (of_char c div 16), upper_hex (of_char c mod 16)] else [c]) @ escape mode cs"
  by (simp add: escape_def)

lemma unescape_escape: "\<forall>c \<in> set s. encodable mode c \<Longrightarrow> unescape mode (escape mode s) = Some s"
proof (induction s)
  case (Cons c cs)
  then have IH: "unescape mode (escape mode cs) = Some cs" and enc: "encodable mode c" by simp_all
  show ?case
  proof (cases "shouldEscape c mode")
    case True
    with IH enc show ?thesis by (simp add: escape_Cons hex_pair_byte encodable_def)
  next
    case False
    then have "c \<noteq> CHR ''%''" using percent_escaped by blast
    with False IH enc show ?thesis by (simp add: escape_Cons encodable_def)
  qed
qed (simp add: escape_def)

lemma unescape_escape_path: "unescape encodePath (escape encodePath s) = Some s"
  by (rule unescape_escape) (simp add: encodable_def escape_allowed_def plain_allowed_def)

lemma unescape_plain: "CHR ''%'' \<notin> set s \<Longrightarrow> \<forall>c \<in> set s. plain_allowed mode c \<Longrightarrow> unescape mode s = Some s"
  by (induction s) auto

text \<open>The characters of an encoded text: those that need no escape, and those of the escapes.\<close>

lemma upper_hex_alnum: "0 \<le> n \<Longrightarrow> n < 16 \<Longrightarrow> is_alnum (upper_hex n)"
proof -
  assume "0 \<le> n" "n < 16"
  from hex_digit_cases [OF this] show ?thesis
    by (elim insertE emptyE) (simp_all add: upper_hex_def is_alnum_def digit_char_def)
qed

lemma set_escape: "c \<in> set (escape mode s) \<Longrightarrow> c = CHR ''%'' \<or> is_alnum c \<or> c \<in> set s \<and> \<not> shouldEscape c mode"
proof (induction s)
  case (Cons d s)
  have "is_alnum (upper_hex (of_char d div 16))" "is_alnum (upper_hex (of_char d mod 16))"
    using char_int_bounds [of d] by (auto intro!: upper_hex_alnum)
  with Cons show ?case by (auto simp: escape_Cons split: if_splits)
qed (simp add: escape_def)

lemma escape_id: "\<forall>c \<in> set s. \<not> shouldEscape c mode \<Longrightarrow> escape mode s = s"
  by (induction s) (simp_all add: escape_Cons, simp add: escape_def)

text \<open>Decoding up to a character that no escape contains.\<close>

lemma unescape_append:
  "unescape mode (x @ [d]) = Some z \<Longrightarrow> hex_value d = None \<Longrightarrow> d \<noteq> CHR ''%'' \<Longrightarrow>
     \<exists>x'. z = x' @ [d] \<and> (\<forall>y. unescape mode (x @ y) = map_option ((@) x') (unescape mode y))"
proof (induction mode x arbitrary: z rule: unescape.induct)
  case (2 mode c cs)
  show ?case
  proof (cases "c = CHR ''%''")
    case True
    with "2.prems" obtain h l rest where cs: "cs = h # l # rest"
      by (cases cs; cases "tl cs") (auto simp: hex_pair_def split: list.splits option.splits if_splits)
    with True "2.prems"(1) obtain v w where v: "hex_pair h l = Some v" "escape_allowed mode v"
      "unescape mode (rest @ [d]) = Some w" "z = char_of v # w"
      by (auto split: option.splits if_splits)
    from "2.IH"(1) [OF True cs refl v(1,2) v(3) "2.prems"(2,3)] obtain x' where
      "w = x' @ [d]" "\<forall>y. unescape mode (rest @ y) = map_option ((@) x') (unescape mode y)" by blast
    with True cs v show ?thesis by (intro exI [of _ "char_of v # x'"]) (auto simp: option.map_comp comp_def)
  next
    case False
    with "2.prems"(1) obtain w where w: "plain_allowed mode c" "unescape mode (cs @ [d]) = Some w" "z = c # w"
      by (auto split: if_splits)
    from "2.IH"(2) [OF False w(1,2) "2.prems"(2,3)] obtain x' where
      "w = x' @ [d]" "\<forall>y. unescape mode (cs @ y) = map_option ((@) x') (unescape mode y)" by blast
    with False w show ?thesis by (intro exI [of _ "c # x'"]) (auto simp: option.map_comp comp_def)
  qed
qed (auto simp: map_option_idI split: if_splits)

section \<open>Schemes\<close>

definition letter :: "char \<Rightarrow> bool" where
  "letter c \<longleftrightarrow> 97 \<le> byte c \<and> byte c \<le> 122 \<or> 65 \<le> byte c \<and> byte c \<le> 90"

definition scheme_char :: "char \<Rightarrow> bool" where
  "scheme_char c \<longleftrightarrow> letter c \<or> 48 \<le> byte c \<and> byte c \<le> 57 \<or> List.member ''+-.'' c"

definition scheme_text :: "string \<Rightarrow> bool" where
  "scheme_text s \<longleftrightarrow> s \<noteq> [] \<and> letter (hd s) \<and> list_all scheme_char s"

lemma scheme_end_tail: "list_all scheme_char cs \<Longrightarrow> 0 < i \<Longrightarrow> scheme_end (cs @ CHR '':'' # r) i = Some (Some (i + length cs))"
  by (induction cs arbitrary: i) (auto simp: scheme_char_def letter_def Let_def)

lemma scheme_end_text: "scheme_text cs \<Longrightarrow> scheme_end (cs @ CHR '':'' # r) 0 = Some (Some (length cs))"
  by (cases cs) (auto simp: scheme_text_def letter_def Let_def scheme_end_tail)

lemma scheme_end_Some:
  "scheme_end s i = Some (Some k) \<Longrightarrow> \<exists>cs r. s = cs @ CHR '':'' # r \<and> k = i + length cs \<and> list_all scheme_char cs \<and>
     (i = 0 \<longrightarrow> cs \<noteq> [] \<and> letter (hd cs))"
proof (induction s arbitrary: i)
  case (Cons c cs)
  consider (colon) "c = CHR '':''" "k = i" "i \<noteq> 0" | (step) "scheme_char c" "i = 0 \<longrightarrow> letter c" "scheme_end cs (Suc i) = Some (Some k)"
    using Cons.prems by (auto simp: letter_def scheme_char_def Let_def split: if_splits)
  then show ?case
  proof cases
    case colon
    then show ?thesis by (intro exI [of _ "[]"] exI [of _ cs]) simp
  next
    case step
    from Cons.IH [OF step(3)] obtain ds r where "cs = ds @ CHR '':'' # r" "k = Suc i + length ds" "list_all scheme_char ds"
      by blast
    with step show ?thesis by - (rule exI [of _ "c # ds"], rule exI [of _ r], simp)
  qed
qed simp

lemma getScheme_text: "scheme_text cs \<Longrightarrow> getScheme (cs @ CHR '':'' # r) = Some (cs, r)"
  by (simp add: getScheme_def scheme_end_text)

lemma getScheme_Some:
  assumes "getScheme s = Some (sch, r)" and "sch \<noteq> []"
  shows "scheme_text sch \<and> s = sch @ CHR '':'' # r"
  using assms scheme_end_Some [of s 0]
  by (fastforce simp: getScheme_def scheme_text_def split: option.splits)

lemma scheme_ascii: "scheme_text s \<Longrightarrow> c \<in> set s \<Longrightarrow> byte c < 128"
  by (fastforce simp: scheme_text_def scheme_char_def letter_def list_all_iff)

lemma ToLower_ascii: "(\<And>c. c \<in> set s \<Longrightarrow> byte c < 128) \<Longrightarrow> ToLower s = map (\<lambda>c. char_of (lower_rune (byte c))) s"
proof (induction s)
  case (Cons a s)
  then have "runes (a # s) = map byte (a # s)" "runes s = map byte s" using runes_ascii [of "a # s"] runes_ascii [of s] by auto
  moreover have "byte a < 128" using Cons.prems by simp
  then have "encode_rune (lower_rune (byte a)) = [char_of (lower_rune (byte a))]"
    by (auto simp: lower_rune_def encode_rune_def)
  ultimately show ?case using Cons by (simp add: ToLower_def)
qed (simp add: ToLower_def runes.simps)

lemma lower_letter: "letter c \<Longrightarrow> letter (char_of (lower_rune (byte c)))"
  by (auto simp: letter_def lower_rune_def)

lemma lower_other: "\<not> letter c \<Longrightarrow> byte c < 128 \<Longrightarrow> char_of (lower_rune (byte c)) = c"
  by (auto simp: letter_def lower_rune_def)

lemma lower_scheme_char: "scheme_char c \<Longrightarrow> byte c < 128 \<Longrightarrow> scheme_char (char_of (lower_rune (byte c)))"
  using lower_letter [of c] lower_other [of c] by (cases "letter c") (auto simp: scheme_char_def)

lemma lower_idem: "byte c < 128 \<Longrightarrow> lower_rune (byte (char_of (lower_rune (byte c)))) = lower_rune (byte c)"
  by (simp add: lower_rune_def)

lemma scheme_lower:
  assumes "scheme_text s"
  shows "scheme_text (ToLower s)" and "ToLower (ToLower s) = ToLower s"
proof -
  let ?f = "\<lambda>c. char_of (lower_rune (byte c))"
  have low: "ToLower s = map ?f s" by (rule ToLower_ascii) (rule scheme_ascii [OF assms])
  have chars: "scheme_char (?f c)" if "c \<in> set s" for c
    using lower_scheme_char [of c] scheme_ascii [OF assms that] that assms by (simp add: scheme_text_def list_all_iff)
  show sch: "scheme_text (ToLower s)"
    using assms chars lower_letter [of "hd s"] by (simp add: low scheme_text_def list_all_iff hd_map)
  have "map ?f (map ?f s) = map ?f s"
    using scheme_ascii [OF assms] lower_idem by simp
  then show "ToLower (ToLower s) = ToLower s"
    using ToLower_ascii [of "map ?f s"] scheme_ascii [OF sch] by (simp add: low)
qed

section \<open>Scheme, authority, path and tail\<close>

text \<open>The parts of a URL with an authority: the scheme, what stands between the two slashes and the path, the path,
  and the query and fragment with their marks.\<close>

definition url_parts :: "string \<Rightarrow> string \<Rightarrow> string \<Rightarrow> string \<Rightarrow> bool" where
  "url_parts sch auth path tail \<longleftrightarrow> scheme_text sch \<and> set auth \<inter> {CHR ''/'', CHR ''?'', CHR ''#''} = {} \<and>
     (path = [] \<or> hd path = CHR ''/'') \<and> set path \<inter> {CHR ''?'', CHR ''#''} = {} \<and>
     (tail = [] \<or> hd tail \<in> {CHR ''?'', CHR ''#''})"

abbreviation url_of :: "string \<Rightarrow> string \<Rightarrow> string \<Rightarrow> string \<Rightarrow> string" where
  "url_of sch auth path tail \<equiv> sch @ ''://'' @ auth @ path @ tail"

lemma scheme_plain: "scheme_text s \<Longrightarrow> c \<in> {CHR '':'', CHR ''/'', CHR ''?'', CHR ''#'', CHR ''*''} \<Longrightarrow> c \<notin> set s"
  by (fastforce simp: scheme_text_def scheme_char_def letter_def list_all_iff)

lemma takeWhile_neq_skip: "d \<notin> set k \<Longrightarrow> takeWhile (\<lambda>c. c \<noteq> d) (k @ t) = k @ takeWhile (\<lambda>c. c \<noteq> d) t"
  by (induction k) auto

lemma dropWhile_neq_skip: "d \<notin> set k \<Longrightarrow> dropWhile (\<lambda>c. c \<noteq> d) (k @ t) = dropWhile (\<lambda>c. c \<noteq> d) t"
  by (induction k) auto

lemma parse_rest_authority:
  assumes "url_parts sch auth path []" and "Scheme u \<noteq> []" and "parse_rest False u (''//'' @ auth @ path) = Some v"
  shows "Scheme v = Scheme u \<and> Opaque v = Opaque u \<and> OmitHost v = OmitHost u \<and> ForceQuery v = ForceQuery u \<and> RawQuery v = RawQuery u \<and>
    parseAuthority (Scheme u) auth = Some (User v, Host v) \<and> unescape encodePath path = Some (Path v) \<and>
    RawPath v = (if escape encodePath (Path v) = path then [] else path)"
proof -
  have "takeWhile (\<lambda>c. c \<noteq> CHR ''/'') (auth @ path) = auth" "dropWhile (\<lambda>c. c \<noteq> CHR ''/'') (auth @ path) = path"
    using assms(1) by (cases path; simp add: url_parts_def takeWhile_neq_skip dropWhile_neq_skip)+
  then have "parse_rest False u (''//'' @ auth @ path) = (case parseAuthority (Scheme u) auth of
      None \<Rightarrow> None | Some (usr, h) \<Rightarrow> setPath (u\<lparr>User := usr, Host := h\<rparr>) path)"
    using assms(2) by (simp add: parse_rest_def HasPrefix_def Let_def)
  with assms(3) show ?thesis by (auto simp: setPath_def split: option.splits prod.splits)
qed

lemma query_cut:
  assumes "CHR ''?'' \<notin> set r" and "q = [] \<or> hd q = CHR ''?''"
  shows "(if HasSuffix (r @ q) ''?'' \<and> Count (r @ q) CHR ''?'' = 1 then f (butlast (r @ q))
      else (case Cut (r @ q) CHR ''?'' of (a, b, _) \<Rightarrow> g b a)) = (if q = ''?'' then f r else g (tl q) r)"
proof (cases q)
  case Nil
  with assms(1) have "\<not> HasSuffix (r @ q) ''?''" by (auto simp: HasSuffix_def suffix_def)
  with Nil assms(1) show ?thesis by (simp add: Cut_def)
next
  case (Cons c q')
  with assms(2) have q: "q = CHR ''?'' # q'" by simp
  have "HasSuffix (r @ q) ''?'' \<and> Count (r @ q) CHR ''?'' = 1 \<longleftrightarrow> q' = []"
  proof (cases q' rule: rev_cases)
    case Nil
    with q assms(1) show ?thesis by (simp add: HasSuffix_def suffix_def Count_def count_list_0_iff)
  next
    case (snoc ys y)
    with q assms(1) show ?thesis by (auto simp: HasSuffix_def suffix_def Count_def count_list_0_iff)
  qed
  with q assms(1) show ?thesis by (simp add: Cut_def)
qed

lemma url_parse_scheme:
  assumes "getScheme f = Some (sch, r @ q)" and "f \<noteq> ''*''" and "CHR ''?'' \<notin> set r" and "q = [] \<or> hd q = CHR ''?''"
    and w: "w = empty_url\<lparr>Scheme := ToLower sch\<rparr>"
  shows "url_parse False f = (if has_ctl_byte f then None
      else if q = ''?'' then parse_rest False (w\<lparr>ForceQuery := True\<rparr>) r else parse_rest False (w\<lparr>RawQuery := tl q\<rparr>) r)"
  using query_cut [OF assms(3,4), of "parse_rest False (w\<lparr>ForceQuery := True\<rparr>)" "\<lambda>q. parse_rest False (w\<lparr>RawQuery := q\<rparr>)"]
    assms(1,2)
  unfolding url_parse_def Let_def w by simp

text \<open>The fields of a parsed URL, read off its parts.\<close>

lemma url_Parse_fields:
  assumes parts: "url_parts sch auth path tail" and parse: "url_Parse (url_of sch auth path tail) = Some v"
  shows "Scheme v = ToLower sch \<and> Opaque v = [] \<and> \<not> OmitHost v \<and>
    parseAuthority (ToLower sch) auth = Some (User v, Host v) \<and> unescape encodePath path = Some (Path v) \<and>
    RawPath v = (if escape encodePath (Path v) = path then [] else path)"
proof -
  let ?q = "takeWhile (\<lambda>c. c \<noteq> CHR ''#'') tail"
  let ?front = "url_of sch auth path ?q" and ?rest = "''//'' @ auth @ path"
  have plain: "CHR ''#'' \<notin> set (url_of sch auth path [])"
    using parts scheme_plain [of sch "CHR ''#''"] by (auto simp: url_parts_def)
  have cut: "takeWhile (\<lambda>c. c \<noteq> CHR ''#'') (url_of sch auth path tail) = ?front"
    using plain takeWhile_neq_skip [of "CHR ''#''" "url_of sch auth path []" tail] by simp
  have front: "fst (Cut (url_of sch auth path tail) CHR ''#'') = ?front"
    using cut by (auto simp: Cut_def)
  then obtain u where u: "url_parse False ?front = Some u" "Scheme v = Scheme u" "Opaque v = Opaque u" "OmitHost v = OmitHost u"
      "User v = User u" "Host v = Host u" "Path v = Path u" "RawPath v = RawPath u"
    using parse by (auto simp: url_Parse_def split: prod.splits option.splits if_splits)
  have scheme: "getScheme ?front = Some (sch, ''//'' @ auth @ path @ ?q)"
    using getScheme_text [of sch "''//'' @ auth @ path @ ?q"] parts by (simp add: url_parts_def)
  have sch: "sch \<noteq> []" "ToLower sch \<noteq> []" using parts scheme_lower(1) [of sch] by (auto simp: url_parts_def scheme_text_def)
  have noq: "CHR ''?'' \<notin> set ?rest" using parts by (auto simp: url_parts_def)
  have q: "?q = [] \<or> (\<exists>q. ?q = CHR ''?'' # q)" using parts by (cases tail) (auto simp: url_parts_def)
  have star: "?front \<noteq> ''*''" using sch by (cases sch) auto
  let ?w = "empty_url\<lparr>Scheme := ToLower sch\<rparr>"
  have parsed: "url_parse False ?front = (if has_ctl_byte ?front then None
      else if ?q = ''?'' then parse_rest False (?w\<lparr>ForceQuery := True\<rparr>) ?rest
      else parse_rest False (?w\<lparr>RawQuery := tl ?q\<rparr>) ?rest)"
    by (rule url_parse_scheme [where q = ?q]) (use scheme star noq q in auto)
  from parsed u(1) obtain w where "parse_rest False w ?rest = Some u" "Scheme w = ToLower sch" "Opaque w = []" "\<not> OmitHost w"
    by (auto simp: empty_url_def split: if_splits)
  then show ?thesis using u parse_rest_authority [of sch auth path w u] parts sch by (auto simp: url_parts_def)
qed

text \<open>A URL with a host has these parts.\<close>

lemma parse_rest_host:
  assumes "parse_rest False u r = Some v" and "Scheme u \<noteq> []" and "Host u = []" and "Host v \<noteq> []"
  shows "\<exists>auth path. r = ''//'' @ auth @ path \<and> CHR ''/'' \<notin> set auth \<and> (path = [] \<or> hd path = CHR ''/'')"
proof -
  have "HasPrefix r ''//''"
    using assms by (auto simp: parse_rest_def setPath_def Let_def split: if_splits option.splits)
  then obtain a where "r = ''//'' @ a" by (auto simp: HasPrefix_def prefix_def)
  moreover have "a = takeWhile (\<lambda>c. c \<noteq> CHR ''/'') a @ dropWhile (\<lambda>c. c \<noteq> CHR ''/'') a" by simp
  moreover have "dropWhile (\<lambda>c. c \<noteq> CHR ''/'') a = [] \<or> hd (dropWhile (\<lambda>c. c \<noteq> CHR ''/'') a) = CHR ''/''"
    using hd_dropWhile [of "\<lambda>c. c \<noteq> CHR ''/''" a] by blast
  moreover have "CHR ''/'' \<notin> set (takeWhile (\<lambda>c. c \<noteq> CHR ''/'') a)" by simp
  ultimately show ?thesis by blast
qed

lemma url_Parse_parts:
  assumes "url_Parse s = Some v" and "Scheme v \<noteq> []" and "Host v \<noteq> []"
  shows "\<exists>sch auth path tail. s = url_of sch auth path tail \<and> url_parts sch auth path tail"
proof -
  let ?f = "takeWhile (\<lambda>c. c \<noteq> CHR ''#'') s" and ?t = "dropWhile (\<lambda>c. c \<noteq> CHR ''#'') s"
  have f: "fst (Cut s CHR ''#'') = ?f" by (simp add: Cut_def)
  have t: "?t = [] \<or> hd ?t = CHR ''#''" using hd_dropWhile [of "\<lambda>c. c \<noteq> CHR ''#''" s] by blast
  from assms(1) f obtain u where u: "url_parse False ?f = Some u" "Scheme v = Scheme u" "Host v = Host u"
    by (auto simp: url_Parse_def split: prod.splits option.splits if_splits)
  have star: "?f \<noteq> ''*''" using u assms(2) by (auto simp: url_parse_def empty_url_def split: if_splits)
  from u(1) star obtain sch rest where scheme: "getScheme ?f = Some (sch, rest)"
    by (auto simp: url_parse_def split: if_splits option.splits)
  let ?r = "takeWhile (\<lambda>c. c \<noteq> CHR ''?'') rest" and ?q = "dropWhile (\<lambda>c. c \<noteq> CHR ''?'') rest"
  have q: "?q = [] \<or> hd ?q = CHR ''?''" using hd_dropWhile [of "\<lambda>c. c \<noteq> CHR ''?''" rest] by blast
  let ?w = "empty_url\<lparr>Scheme := ToLower sch\<rparr>"
  have parsed: "url_parse False ?f = (if has_ctl_byte ?f then None
      else if ?q = ''?'' then parse_rest False (?w\<lparr>ForceQuery := True\<rparr>) ?r
      else parse_rest False (?w\<lparr>RawQuery := tl ?q\<rparr>) ?r)"
    by (rule url_parse_scheme [where q = ?q]) (use scheme star q in auto)
  with u(1) obtain w where w: "parse_rest False w ?r = Some u" "Scheme w = ToLower sch" "Host w = []"
    by (auto simp: empty_url_def split: if_splits)
  have "Scheme u = Scheme w" using w(1) by (auto simp: parse_rest_def setPath_def Let_def split: if_splits option.splits)
  with w(2) u(2) assms(2) have low: "ToLower sch \<noteq> []" by simp
  then have "sch \<noteq> []" by (auto simp: ToLower_def runes.simps)
  from getScheme_Some [OF scheme this] have sch: "scheme_text sch" "?f = sch @ CHR '':'' # rest" by simp_all
  from parse_rest_host [OF w(1)] w low u(3) assms(3) obtain auth path where
    r: "?r = ''//'' @ auth @ path" "CHR ''/'' \<notin> set auth" "path = [] \<or> hd path = CHR ''/''" by auto
  have "s = ?f @ ?t" by simp
  also have "\<dots> = sch @ CHR '':'' # (?r @ ?q) @ ?t" by (simp only: sch(2) takeWhile_dropWhile_id append.simps append_assoc)
  finally have "s = url_of sch auth path (?q @ ?t)" using r(1) by simp
  moreover have "set ?r \<subseteq> set ?f" using sch(2) by (auto dest: set_takeWhileD)
  then have "set ?r \<inter> {CHR ''?'', CHR ''#''} = {}" by (auto dest: set_takeWhileD)
  then have "set auth \<inter> {CHR ''?'', CHR ''#''} = {}" "set path \<inter> {CHR ''?'', CHR ''#''} = {}" using r(1) by auto
  then have "url_parts sch auth path (?q @ ?t)"
    using sch(1) r(2,3) q t by (auto simp: url_parts_def hd_append)
  ultimately show ?thesis by blast
qed

section \<open>Writing a parsed URL\<close>

definition user_prefix :: "url \<Rightarrow> string" where
  "user_prefix v = (case User v of None \<Rightarrow> [] | Some ui \<Rightarrow> UserString ui @ ''@'')"

lemma not_alnum_special: "c \<in> {CHR ''/'', CHR ''?'', CHR ''#'', CHR ''@'', CHR ''%''} \<Longrightarrow> \<not> is_alnum c"
  by (auto simp: is_alnum_def)

lemma escape_plain:
  assumes "c \<in> {CHR ''/'', CHR ''?'', CHR ''#'', CHR ''@''}" and "shouldEscape c mode"
  shows "c \<notin> set (escape mode s)"
  using set_escape [of c mode s] assms not_alnum_special [of c] by auto

lemma escape_host_plain: "c \<in> {CHR ''/'', CHR ''?'', CHR ''#'', CHR ''@''} \<Longrightarrow> c \<notin> set (escape encodeHost s)"
proof -
  assume "c \<in> {CHR ''/'', CHR ''?'', CHR ''#'', CHR ''@''}"
  then have "shouldEscape c encodeHost" by (elim insertE emptyE) (simp_all add: shouldEscape_def is_alnum_def)
  with \<open>c \<in> _\<close> show ?thesis by (intro escape_plain) auto
qed

lemma escape_user_plain: "c \<in> {CHR ''/'', CHR ''?'', CHR ''#''} \<Longrightarrow> c \<notin> set (escape encodeUserPassword s)"
proof -
  assume "c \<in> {CHR ''/'', CHR ''?'', CHR ''#''}"
  then have "shouldEscape c encodeUserPassword" by (elim insertE emptyE) (simp_all add: shouldEscape_def is_alnum_def)
  with \<open>c \<in> _\<close> show ?thesis by (intro escape_plain) auto
qed

lemma escape_path_plain: "c \<in> {CHR ''?'', CHR ''#''} \<Longrightarrow> c \<notin> set (escape encodePath s)"
proof -
  assume "c \<in> {CHR ''?'', CHR ''#''}"
  then have "shouldEscape c encodePath" by (elim insertE emptyE) (simp_all add: shouldEscape_def is_alnum_def)
  with \<open>c \<in> _\<close> show ?thesis by (intro escape_plain) auto
qed

lemma user_prefix_plain: "c \<in> {CHR ''/'', CHR ''?'', CHR ''#''} \<Longrightarrow> c \<notin> set (user_prefix v)"
  using escape_user_plain [of c] by (auto simp: user_prefix_def UserString_def Let_def split: option.splits)

lemma unescape_slash: "unescape encodePath p = Some z \<Longrightarrow> p = [] \<or> hd p = CHR ''/'' \<Longrightarrow> z = [] \<or> hd z = CHR ''/''"
  by (cases p) (auto simp: plain_allowed_def split: if_splits)

text \<open>The escaped path of a URL that was parsed from parts.\<close>

lemma EscapedPath_parts:
  assumes path: "path = [] \<or> hd path = CHR ''/''" "set path \<inter> {CHR ''?'', CHR ''#''} = {}"
    and v: "unescape encodePath path = Some (Path v)" "RawPath v = (if escape encodePath (Path v) = path then [] else path)"
  shows "(EscapedPath v = [] \<or> hd (EscapedPath v) = CHR ''/'') \<and> set (EscapedPath v) \<inter> {CHR ''?'', CHR ''#''} = {} \<and>
    unescape encodePath (EscapedPath v) = Some (Path v)"
proof -
  have slash: "Path v = [] \<or> hd (Path v) = CHR ''/''" using unescape_slash [OF v(1) path(1)] .
  then have esc: "escape encodePath (Path v) = [] \<or> hd (escape encodePath (Path v)) = CHR ''/''"
    by (cases "Path v") (auto simp: escape_Cons shouldEscape_def is_alnum_def escape_def)
  consider (raw) "EscapedPath v = path" | (esc) "EscapedPath v = escape encodePath (Path v)"
  proof -
    have "Path v \<noteq> ''*''" using slash by auto
    then have "EscapedPath v = RawPath v \<and> RawPath v \<noteq> [] \<or> EscapedPath v = escape encodePath (Path v)"
      unfolding EscapedPath_def by (simp split: if_split)
    moreover have "RawPath v \<noteq> [] \<Longrightarrow> RawPath v = path" using v(2) by (simp split: if_splits)
    ultimately show thesis using that by auto
  qed
  then show ?thesis
  proof cases
    case raw
    with path v(1) show ?thesis by simp
  next
    case esc
    with \<open>escape encodePath (Path v) = [] \<or> _\<close> escape_path_plain [of _ "Path v"] show ?thesis
      by (auto simp: unescape_escape_path)
  qed
qed

lemma URLString_parts:
  assumes parts: "url_parts sch auth path tail" and parse: "url_Parse (url_of sch auth path tail) = Some v" and host: "Host v \<noteq> []"
  shows "\<exists>tail'. URLString (v\<lparr>RawQuery := q\<rparr>) = url_of (Scheme v) (user_prefix v @ escape encodeHost (Host v)) (EscapedPath v) tail' \<and>
    url_parts (Scheme v) (user_prefix v @ escape encodeHost (Host v)) (EscapedPath v) tail'"
proof -
  from url_Parse_fields [OF parts parse] have v: "Scheme v = ToLower sch" "Opaque v = []" "\<not> OmitHost v"
    "unescape encodePath path = Some (Path v)" "RawPath v = (if escape encodePath (Path v) = path then [] else path)" by simp_all
  have sch: "scheme_text (Scheme v)" using v(1) parts scheme_lower(1) by (simp add: url_parts_def)
  then have "Scheme v \<noteq> []" by (simp add: scheme_text_def)
  have path: "(EscapedPath v = [] \<or> hd (EscapedPath v) = CHR ''/'') \<and> set (EscapedPath v) \<inter> {CHR ''?'', CHR ''#''} = {}"
    using EscapedPath_parts [OF _ _ v(4,5)] parts by (simp add: url_parts_def)
  let ?t = "(if ForceQuery v \<or> q \<noteq> [] then ''?'' @ q else []) @ (if Fragment v = [] then [] else ''#'' @ EscapedFragment v)"
  have esc: "EscapedPath (v\<lparr>RawQuery := q\<rparr>) = EscapedPath v" "EscapedFragment (v\<lparr>RawQuery := q\<rparr>) = EscapedFragment v"
    by (simp_all add: EscapedPath_def EscapedFragment_def)
  have "URLString (v\<lparr>RawQuery := q\<rparr>) = url_of (Scheme v) (user_prefix v @ escape encodeHost (Host v)) (EscapedPath v) ?t"
    using \<open>Scheme v \<noteq> []\<close> v(2,3) host path by (auto simp: URLString_def Let_def esc user_prefix_def split: option.splits)
  moreover have "set (user_prefix v @ escape encodeHost (Host v)) \<inter> {CHR ''/'', CHR ''?'', CHR ''#''} = {}"
    using user_prefix_plain [of _ v] escape_host_plain [of _ "Host v"] by auto
  then have "url_parts (Scheme v) (user_prefix v @ escape encodeHost (Host v)) (EscapedPath v) ?t"
    using sch path by (simp add: url_parts_def)
  ultimately show ?thesis by blast
qed

end
