(* ===== verification/Destination.thy ===== *)
theory Destination
  imports Http_Server Ftp URL_Shape
begin

text \<open>
  Where a request goes. The resolver rewrites the target of a mapping as text, the policy judges the host of the
  rewritten target, \<^verbatim>\<open>backendResource\<close> of \<^verbatim>\<open>server/http.go\<close> parses and writes it again, and the connectors parse
  the result once more. The theorems say that the four readings agree, and under which mappings a client
  can influence them.
\<close>

section \<open>Hosts\<close>

lemma no_port_star: "\<not> validOptionalPort (y @ ''*'')"
  by (cases y) (auto simp: validOptionalPort_def is_digit_def)

lemma drop_before_last: "i < length x \<Longrightarrow> drop (Suc i) (x @ ''*'') = drop (Suc i) x @ ''*''"
  by simp

lemma LastIndexByte_star: "LastIndexByte (x @ ''*'') d = Some i \<Longrightarrow> d \<noteq> CHR ''*'' \<Longrightarrow> i < length x"
proof -
  assume l: "LastIndexByte (x @ ''*'') d = Some i" and d: "d \<noteq> CHR ''*''"
  have "d \<in> set x" using l d LastIndexByte_None [of "x @ ''*''" d] by auto
  from split_list_last [OF this] obtain a b where x: "x = a @ d # b" "d \<notin> set b" by blast
  with d have "LastIndexByte (a @ d # b @ ''*'') d = Some (length a)" by (intro LastIndexByte_append) simp
  with l x show ?thesis by simp
qed

lemma parseHost_star:
  assumes "parseHost sch (x @ ''*'') = Some h"
  shows "HasSuffix h ''*''"
proof -
  have "parse_ip_literal (x @ ''*'') = None"
    using LastIndexByte_star [of x "CHR '']''"] no_port_star
    by (auto simp: parse_ip_literal_def Let_def split: option.splits)
  with assms have "unescape encodeHost (x @ ''*'') = Some h"
    by (auto simp: parseHost_def Let_def split: option.splits if_splits)
  moreover have "hex_value CHR ''*'' = None" by (simp add: hex_value_def is_digit_def)
  ultimately obtain x' where "h = x' @ ''*''" using unescape_append [of encodeHost x "CHR ''*''" h] by auto
  then show ?thesis by (simp add: HasSuffix_def suffix_def)
qed

lemma parseAuthority_star:
  assumes "parseAuthority sch (x @ ''*'') = Some (usr, h)"
  shows "HasSuffix h ''*''"
proof (cases "LastIndexByte (x @ ''*'') CHR ''@''")
  case None
  with assms show ?thesis by (auto simp: parseAuthority_def intro: parseHost_star)
next
  case (Some i)
  with LastIndexByte_star [OF Some] have "drop (i + 1) (x @ ''*'') = drop (i + 1) x @ ''*''" by simp
  with assms Some show ?thesis by (auto simp: parseAuthority_def intro: parseHost_star split: option.splits)
qed

text \<open>A host without brackets survives being written and read again.\<close>

lemma hex_pair_range: "hex_pair h l = Some v \<Longrightarrow> 0 \<le> v \<and> v < 256"
  using decodeHexByte_range [of h l v] by (simp add: decodeHexByte_hex_pair)

lemma encodable_plain: "plain_allowed encodeHost c \<Longrightarrow> encodable encodeHost c"
proof -
  assume p: "plain_allowed encodeHost c"
  have "(of_char c :: int) = int (byte c)" by (rule of_nat_of_char [symmetric])
  with p show ?thesis by (auto simp: encodable_def plain_allowed_def escape_allowed_def)
qed

lemma encodable_escaped:
  assumes "0 \<le> v" "v < 256" and "escape_allowed encodeHost v"
  shows "encodable encodeHost (char_of v)"
proof -
  have "(of_char (char_of v :: char) :: int) = v" using assms(1,2) by simp
  with assms(3) show ?thesis by (simp add: encodable_def plain_allowed_def)
qed

lemma unescape_encodable: "unescape encodeHost s = Some t \<Longrightarrow> c \<in> set t \<Longrightarrow> encodable encodeHost c"
proof (induction "encodeHost" s arbitrary: t rule: unescape.induct)
  case (2 d cs)
  show ?case
  proof (cases "d = CHR ''%''")
    case True
    with "2.prems"(1) obtain h l rest v w where w: "cs = h # l # rest" "hex_pair h l = Some v" "escape_allowed encodeHost v"
      "unescape encodeHost rest = Some w" "t = char_of v # w"
      by (auto split: list.splits option.splits if_splits)
    have "encodable encodeHost (char_of v)" using hex_pair_range [OF w(2)] w(3) by (intro encodable_escaped) auto
    with "2.hyps"(1) [OF True w(1) refl w(2,3,4)] "2.prems"(2) w(5) show ?thesis by auto
  next
    case False
    with "2.prems" "2.hyps"(2) show ?thesis by (auto simp: encodable_plain split: if_splits)
  qed
qed simp

lemma bracket_escape: "CHR ''['' \<notin> set h \<Longrightarrow> CHR ''['' \<notin> set (escape mode h)"
  using set_escape [of "CHR ''[''" mode h] by (auto simp: is_alnum_def)

lemma parseHost_unescape:
  assumes "parseHost sch h = Some k" and "CHR ''['' \<notin> set k"
  shows "unescape encodeHost h = Some k"
  using assms by (auto simp: parseHost_def parse_ip_literal_def Let_def split: option.splits if_splits)

lemma parseHost_escape:
  assumes "parseHost sch h = Some k" and "CHR ''['' \<notin> set k" and "parseHost sch' (escape encodeHost k) = Some k'"
  shows "k' = k"
proof -
  have "LastIndexByte (escape encodeHost k) CHR ''['' = None"
    using bracket_escape [OF assms(2)] by (simp add: LastIndexByte_None)
  with assms(3) have "unescape encodeHost (escape encodeHost k) = Some k'"
    by (auto simp: parseHost_def Let_def split: option.splits if_splits)
  moreover have "unescape encodeHost (escape encodeHost k) = Some k"
    using unescape_encodable [OF parseHost_unescape [OF assms(1,2)]] by (intro unescape_escape) blast
  ultimately show ?thesis by simp
qed

text \<open>Nor does a host change that needs no escape, with brackets or without.\<close>

definition rereadable :: "string \<Rightarrow> bool" where
  "rereadable h \<longleftrightarrow> CHR ''['' \<notin> set h \<or> (\<forall>c \<in> set h. \<not> shouldEscape c encodeHost)"

lemma no_percent: "\<forall>c \<in> set h. \<not> shouldEscape c encodeHost \<Longrightarrow> CHR ''%'' \<notin> set h"
  using percent_escaped by blast

lemma parse_ip_literal_same:
  assumes "parse_ip_literal h = Some k" and "hd h = CHR ''[''" and plain: "\<forall>c \<in> set h. \<not> shouldEscape c encodeHost"
  shows "k = h"
proof -
  from assms(1) obtain i where i: "LastIndexByte h CHR '']'' = Some i" by (auto simp: parse_ip_literal_def split: option.splits)
  from LastIndexByte_split [OF i] have h: "h = take i h @ CHR '']'' # drop (Suc i) h" by simp
  have "take i h \<noteq> []"
  proof
    assume "take i h = []"
    with h have "hd h = CHR '']''" by (metis append_Nil list.sel(1))
    with assms(2) show False by simp
  qed
  with h assms(2) obtain name where name: "take i h = CHR ''['' # name" by (metis hd_append2 list.collapse)
  then have sub: "set name \<subseteq> set h" by (metis set_subset_Cons set_take_subset subset_trans)
  with plain have "CHR ''%'' \<notin> set name" "\<forall>c \<in> set name. plain_allowed encodeHost c"
    using no_percent by (auto simp: plain_allowed_def)
  then have "unescape encodeHost name = Some name" by (rule unescape_plain)
  moreover have "Index name ''%25'' = None" using \<open>CHR ''%'' \<notin> set name\<close>
    by (induction name) (auto simp: HasPrefix_def)
  moreover have "drop 1 (take i h) = name" using name by simp
  ultimately have "k = ''['' @ name @ '']'' @ drop (Suc i) h"
    using assms(1) i by (auto simp: parse_ip_literal_def Let_def split: option.splits if_splits)
  with h name show ?thesis by simp
qed

lemma parseHost_same:
  assumes "parseHost sch h = Some k" and plain: "\<forall>c \<in> set h. \<not> shouldEscape c encodeHost"
  shows "k = h"
proof (cases "LastIndexByte h CHR ''[''")
  case None
  with assms(1) have "unescape encodeHost h = Some k" by (auto simp: parseHost_def Let_def split: option.splits if_splits)
  moreover have "unescape encodeHost h = Some h"
    using plain no_percent by (intro unescape_plain) (auto simp: plain_allowed_def)
  ultimately show ?thesis by simp
next
  case (Some i)
  with assms(1) have i: "i = 0" "parse_ip_literal h = Some k" by (auto simp: parseHost_def split: if_splits)
  with LastIndexByte_split [OF Some] have "hd h = CHR ''[''" by (metis append_Nil list.sel(1) take0)
  with i plain show ?thesis by (intro parse_ip_literal_same)
qed

lemma parseHost_again:
  assumes "parseHost sch h = Some k" and "rereadable k" and "parseHost sch' (escape encodeHost k) = Some k'"
  shows "k' = k"
  using assms parseHost_escape parseHost_same [of sch' k k'] by (auto simp: rereadable_def escape_id)

lemma parseAuthority_host:
  "parseAuthority sch a = Some (usr, h) \<Longrightarrow> \<exists>b. parseHost sch b = Some h"
  by (auto simp: parseAuthority_def split: option.splits)

lemma parseAuthority_user_prefix:
  assumes "parseAuthority sch (user_prefix v @ escape encodeHost h) = Some (usr, k)"
  shows "parseHost sch (escape encodeHost h) = Some k"
proof -
  have at: "CHR ''@'' \<notin> set (escape encodeHost h)" by (rule escape_host_plain) simp
  show ?thesis
  proof (cases "User v")
    case None
    moreover have "LastIndexByte (escape encodeHost h) CHR ''@'' = None" using at by (simp add: LastIndexByte_None)
    ultimately show ?thesis using assms by (simp add: user_prefix_def parseAuthority_def)
  next
    case (Some ui)
    have "LastIndexByte (UserString ui @ CHR ''@'' # escape encodeHost h) CHR ''@'' = Some (length (UserString ui))"
      by (rule LastIndexByte_append [OF at])
    with assms Some show ?thesis by (auto simp: user_prefix_def parseAuthority_def split: option.splits)
  qed
qed

section \<open>The resource of an operation\<close>

text \<open>A resource parses to the scheme and the path of the target it was made from, and to its host unless that is
  an IPv6 literal with characters that need an escape.\<close>

lemma resource_of_target:
  assumes target: "url_Parse target = Some v" "Scheme v \<noteq> []" "Host v \<noteq> []"
    and resource: "backendResource target query = Some resource" "url_Parse resource = Some w"
  shows "Scheme w = Scheme v \<and> Path w = Path v \<and> (rereadable (Host v) \<longrightarrow> Host w = Host v)"
proof -
  from url_Parse_parts [OF target] obtain sch auth path tail where
    t: "target = url_of sch auth path tail" "url_parts sch auth path tail" by blast
  note fields = url_Parse_fields [OF t(2) target(1) [unfolded t(1)]]
  obtain q where "resource = URLString (v\<lparr>RawQuery := q\<rparr>)"
  proof -
    have "v\<lparr>RawQuery := RawQuery v\<rparr> = v" by simp
    with resource(1) target(1) that [of "RawQuery v"] that show thesis by (auto simp: backendResource_def split: if_splits)
  qed
  with URLString_parts [OF t(2) target(1) [unfolded t(1)] target(3)] obtain tail' where
    r: "resource = url_of (Scheme v) (user_prefix v @ escape encodeHost (Host v)) (EscapedPath v) tail'"
      "url_parts (Scheme v) (user_prefix v @ escape encodeHost (Host v)) (EscapedPath v) tail'" by blast
  note again = url_Parse_fields [OF r(2) resource(2) [unfolded r(1)]]
  have low: "ToLower (Scheme v) = Scheme v" using fields t(2) scheme_lower(2) by (simp add: url_parts_def)
  have "Path w = Path v"
    using again fields t(2) EscapedPath_parts [of path v] by (simp add: url_parts_def)
  moreover have "Host w = Host v" if "rereadable (Host v)"
  proof -
    from fields obtain b where b: "parseHost (ToLower sch) b = Some (Host v)" using parseAuthority_host by blast
    have "parseHost (ToLower (Scheme v)) (escape encodeHost (Host v)) = Some (Host w)"
      using again parseAuthority_user_prefix by blast
    with parseHost_again [OF b that] show ?thesis by blast
  qed
  ultimately show ?thesis using again low by simp
qed

section \<open>The target of a mapping\<close>

text \<open>What is spliced in for a wildcard behind the host cannot reach the host.\<close>

lemma splice_parts:
  assumes parts: "url_parts sch auth path tail" and spelled: "t @ ''*'' = url_of sch auth path tail" and behind: "path @ tail \<noteq> []"
  shows "\<exists>path' tail'. t @ rest = url_of sch auth path' tail' \<and> url_parts sch auth path' tail' \<and>
    (path' = path \<or> (\<exists>p. path = p @ ''*'' \<and> path' = p @ takeWhile (\<lambda>c. c \<noteq> CHR ''?'' \<and> c \<noteq> CHR ''#'') rest))"
proof (cases tail rule: rev_cases)
  case (snoc y x)
  with spelled have t: "t = url_of sch auth path y" "x = CHR ''*''" by auto
  with parts snoc have "y \<noteq> []" by (auto simp: url_parts_def)
  with parts snoc have "url_parts sch auth path (y @ rest)" by (cases y) (auto simp: url_parts_def)
  moreover have "t @ rest = url_of sch auth path (y @ rest)" using t by simp
  ultimately show ?thesis by blast
next
  case Nil
  with behind obtain p x where "path = p @ [x]" by (cases path rule: rev_cases) auto
  with spelled Nil have t: "t = url_of sch auth p []" "path = p @ ''*''" by auto
  with parts have p: "p \<noteq> []" "hd p = CHR ''/''" by (cases p; auto simp: url_parts_def)+
  let ?k = "\<lambda>c. c \<noteq> CHR ''?'' \<and> c \<noteq> CHR ''#''"
  have "dropWhile ?k rest = [] \<or> hd (dropWhile ?k rest) \<in> {CHR ''?'', CHR ''#''}"
    using hd_dropWhile [of ?k rest] by auto
  moreover have "set (takeWhile ?k rest) \<inter> {CHR ''?'', CHR ''#''} = {}" by (auto dest: set_takeWhileD)
  ultimately have "url_parts sch auth (p @ takeWhile ?k rest) (dropWhile ?k rest)"
    using parts p t(2) by (auto simp: url_parts_def)
  moreover have "t @ rest = url_of sch auth (p @ takeWhile ?k rest) (dropWhile ?k rest)" using t(1) by simp
  ultimately show ?thesis using t(2) by blast
qed

lemma no_escape_sublist: "sublist x y \<Longrightarrow> \<not> containsPercentEscape y \<Longrightarrow> \<not> containsPercentEscape x"
  unfolding containsPercentEscape_iff by (meson sublist_order.order_trans)

lemma unescape_no_escape: "unescape encodePath s = Some z \<Longrightarrow> \<not> containsPercentEscape s \<Longrightarrow> z = s"
proof (induction s arbitrary: z)
  case (Cons c cs)
  have rest: "\<not> containsPercentEscape cs" using no_escape_sublist [of cs "c # cs"] Cons.prems(2) by (auto simp: sublist_Cons_right)
  have "c \<noteq> CHR ''%''"
  proof
    assume "c = CHR ''%''"
    with Cons.prems(1) obtain h l tl where "cs = h # l # tl" "hex_pair h l \<noteq> None" by (auto split: list.splits option.splits)
    with \<open>c = _\<close> Cons.prems(2) show False by (simp add: decodeHexByte_hex_pair)
  qed
  with Cons.prems Cons.IH rest show ?case by (auto split: if_splits)
qed simp

lemma resolved_text:
  assumes "ResolveFor mounts request = Inr m"
  obtains rest where "matchMount m \<in> set mounts" "\<not> containsPercentEscape (NormalizedPath m)" "sublist rest (NormalizedPath m)"
    "(\<exists>t. mTarget (matchMount m) = t @ ''*'' \<and> matchTarget m = t @ rest) \<or> matchTarget m = mTarget (matchMount m)"
proof (rule ResolveFor_candidate [OF assms])
  fix n w
  assume n: "NormalizePath (rqPath request) = Inr n" and m: "m = match_of n w"
    and x: "matchMount m \<in> set mounts" and w: "candidate_of n request (matchMount m) = Some w"
  obtain pattern auth where path: "matchPath pattern n = Some (capture w, specificity w)" and map: "mapping w = matchMount m"
    using candidate_of_pattern [OF w] by metis
  have fields: "NormalizedPath m = n" "matchTarget m = rewrite_target w" by (simp_all add: m match_of_def)
  have "sublist (capture w) n" using matchPath_cases [OF path] by auto
  then show thesis
    using that [of "capture w"] x NormalizePath_no_escape [OF n] rewrite_target_cases [of w] unfolding map fields by blast
qed

lemma spliced_path:
  assumes old: "unescape encodePath (p @ ''*'') = Some q" and new: "unescape encodePath (p @ r) = Some z" and plain: "\<not> containsPercentEscape r"
  shows "\<exists>pre. q = pre @ ''*'' \<and> z = pre @ r"
proof -
  have "hex_value CHR ''*'' = None" by (simp add: hex_value_def is_digit_def)
  with old obtain x where x: "q = x @ ''*''" "\<And>y. unescape encodePath (p @ y) = map_option ((@) x) (unescape encodePath y)"
    using unescape_append [of encodePath p "CHR ''*''" q] by auto
  with new obtain y where y: "unescape encodePath r = Some y" "z = x @ y" by auto
  with unescape_no_escape [OF y(1) plain] x(1) show ?thesis by blast
qed

lemma resolved_url:
  assumes resolved: "ResolveFor mounts request = Inr m" and u: "url_Parse (mTarget (matchMount m)) = Some u"
    and abs: "Scheme u \<noteq> []" "Host u \<noteq> []" and wild: "\<not> HasSuffix (Host u) ''*''" and v: "url_Parse (matchTarget m) = Some v"
  shows "Scheme v = Scheme u \<and> User v = User u \<and> Host v = Host u \<and>
    (Path v = Path u \<or> (\<exists>pre rest. Path u = pre @ ''*'' \<and> Path v = pre @ rest \<and> sublist rest (NormalizedPath m)))"
proof (rule resolved_text [OF resolved])
  fix rest
  assume esc: "\<not> containsPercentEscape (NormalizedPath m)" and sub: "sublist rest (NormalizedPath m)"
    and target: "(\<exists>t. mTarget (matchMount m) = t @ ''*'' \<and> matchTarget m = t @ rest) \<or> matchTarget m = mTarget (matchMount m)"
  show ?thesis
  proof (cases "matchTarget m = mTarget (matchMount m)")
    case True
    with u v show ?thesis by simp
  next
    case False
    with target obtain t where t: "mTarget (matchMount m) = t @ ''*''" "matchTarget m = t @ rest" by blast
    from url_Parse_parts [OF u abs] t obtain sch auth path tail where
      spelled: "t @ ''*'' = url_of sch auth path tail" and parts: "url_parts sch auth path tail" by metis
    note fu = url_Parse_fields [OF parts u [unfolded t(1) spelled]]
    have "path @ tail \<noteq> []"
    proof
      assume "path @ tail = []"
      with spelled parts obtain a where "auth = a @ ''*''"
        by (cases auth rule: rev_cases) (auto simp: url_parts_def)
      with fu wild parseAuthority_star [of "ToLower sch" a] show False by blast
    qed
    from splice_parts [OF parts spelled this] obtain path' tail' where
      new: "t @ rest = url_of sch auth path' tail'" "url_parts sch auth path' tail'" and
      path: "path' = path \<or> (\<exists>p. path = p @ ''*'' \<and> path' = p @ takeWhile (\<lambda>c. c \<noteq> CHR ''?'' \<and> c \<noteq> CHR ''#'') rest)" by blast
    note fv = url_Parse_fields [OF new(2) v [unfolded t(2) new(1)]]
    have "Path v = Path u \<or> (\<exists>pre rest. Path u = pre @ ''*'' \<and> Path v = pre @ rest \<and> sublist rest (NormalizedPath m))"
    proof (cases "path' = path")
      case True
      with fu fv show ?thesis by simp
    next
      case False
      let ?r = "takeWhile (\<lambda>c. c \<noteq> CHR ''?'' \<and> c \<noteq> CHR ''#'') rest"
      from False path obtain p where p: "path = p @ ''*''" "path' = p @ ?r" by blast
      have part: "sublist ?r (NormalizedPath m)"
        using sublist_order.order_trans [OF prefix_imp_sublist [OF takeWhile_is_prefix] sub] .
      have "unescape encodePath (p @ ''*'') = Some (Path u)" "unescape encodePath (p @ ?r) = Some (Path v)"
        using fu fv p by simp_all
      from spliced_path [OF this no_escape_sublist [OF part esc]] part show ?thesis by blast
    qed
    with fu fv show ?thesis by simp
  qed
qed

lemma valid_target:
  assumes "Config_Validate c = None" and "ResolveFor (Mounts c) request = Inr m" and "url_Parse (mTarget (matchMount m)) = Some u"
  shows "Scheme u \<noteq> []" and "Host u \<noteq> []"
proof -
  have "matchMount m \<in> set (Mounts c)" using resolved_text [OF assms(2)] by metis
  with assms(1) have "Mount_Validate (matchMount m) = None" by (simp add: Config_Validate_wf wf_config_def)
  with assms(3) have "List.member supportedTargetSchemes (ToLower (Scheme u)) \<and> Host u \<noteq> []"
    by (auto simp: Mount_Validate_def validate_target_def split: if_splits sum.splits)
  then show "Host u \<noteq> []" "Scheme u \<noteq> []" by (auto simp: supportedTargetSchemes_def ToLower_def runes.simps)
qed

lemma same_destination:
  assumes "Config_Validate c = None" and "ResolveFor (Mounts c) request = Inr m"
    and "url_Parse (mTarget (matchMount m)) = Some u" and "\<not> HasSuffix (Host u) ''*''" and "rereadable (Host u)"
    and "backendResource (matchTarget m) query = Some resource" and "url_Parse resource = Some w"
  shows "Scheme w = Scheme u \<and> Host w = Host u \<and> prDestination (policy_request source m meth) = Hostname w \<and>
    (Path w = Path u \<or> (\<exists>pre rest. Path u = pre @ ''*'' \<and> Path w = pre @ rest \<and> sublist rest (NormalizedPath m)))"
proof -
  note abs = valid_target [OF assms(1-3)]
  obtain v where v: "url_Parse (matchTarget m) = Some v" using assms(6) by (auto simp: backendResource_def split: option.splits)
  note same = resolved_url [OF assms(2,3) abs assms(4) v]
  have "Scheme w = Scheme v \<and> Path w = Path v \<and> (rereadable (Host v) \<longrightarrow> Host w = Host v)"
    using resource_of_target [OF v _ _ assms(6,7)] same abs by simp
  moreover have "prDestination (policy_request source m meth) = Hostname v"
    using v by (simp add: policy_request_def targetHostname_def)
  moreover have "Hostname v = Hostname w" if "Host w = Host v" using that by (simp add: Hostname_def)
  ultimately show ?thesis using same assms(5) by simp
qed

section \<open>Properties\<close>

text \<open>C5: a client cannot choose where a request goes. In a valid configuration, when the wildcard of the mapping's
  target is not in its host, whatever path and query a client sends: the resource that the connector
  parses has the scheme and host that the operator wrote into the mapping, the policy has judged that very
  host, and the path is the mapping's with its wildcard replaced by a piece of the normalised request path.
  Left out are IPv6 literals with a zone or other characters that need an escape.\<close>

theorem destination_fixed:
  assumes "Config_Validate c = None" and "ResolveFor (Mounts c) request = Inr m"
    and "url_Parse (mTarget (matchMount m)) = Some u" and "\<not> HasSuffix (Host u) ''*''" and "rereadable (Host u)"
    and "backendResource (matchTarget m) query = Some resource" and "url_Parse resource = Some w"
  shows "Scheme w = Scheme u \<and> Host w = Host u \<and> prDestination (policy_request source m meth) = Hostname w \<and>
    (Path w = Path u \<or> (\<exists>pre rest. Path u = pre @ ''*'' \<and> Path w = pre @ rest \<and> sublist rest (NormalizedPath m)))"
  by (rule same_destination [OF assms])

theorem destination_fixed_witness:
  "\<exists>resource w. backendResource ''http://b/@evil:80'' ''q=1'' = Some resource \<and> url_Parse resource = Some w \<and> Host w = ''b''"
proof -
  let ?m = "path_mount ''/files/*'' ''http://b/*''"
  have "wf_config files_config"
    by (simp add: wf_config_def good_server_def good_scope_def Rule_Validate_def mount_eval path_eval go_defs go_loops)
  then have valid: "Config_Validate files_config = None" by (simp only: Config_Validate_wf)
  have resolved: "ResolveFor (Mounts files_config) (mount_request ''web'' (origin_request ''GET'' ''/files/@evil:80'')) =
      Inr \<lparr>matchMount = ?m, NormalizedPath = ''/files/@evil:80'', matchTarget = ''http://b/@evil:80''\<rparr>"
    by (simp add: serve_eval)
  obtain u where u: "url_Parse (mTarget ?m) = Some u" "Host u = ''b''" by (simp add: go_defs go_loops)
  obtain resource w where r: "backendResource ''http://b/@evil:80'' ''q=1'' = Some resource" "url_Parse resource = Some w"
    by (simp add: backendResource_def go_defs go_loops)
  from destination_fixed [OF valid resolved, of u "''q=1''" resource w] u r show ?thesis
    by (auto simp: HasSuffix_def suffix_def rereadable_def)
qed

text \<open>The wildcard may be in the host, and then the client chooses it. Validation accepts a mapping from \<^verbatim>\<open>/f/*\<close> to
  \<^verbatim>\<open>http://backend*\<close>; with it the request path \<^verbatim>\<open>/f/@evil.example/x\<close> goes to the host \<^verbatim>\<open>evil.example\<close>.\<close>

theorem Resolve_host_wildcard:
  "Mount_Validate (path_mount ''/f/*'' ''http://backend*'') = None \<and>
   Resolve [path_mount ''/f/*'' ''http://backend*''] ''/f/@evil.example/x'' =
     Inr \<lparr>matchMount = path_mount ''/f/*'' ''http://backend*'', NormalizedPath = ''/f/@evil.example/x'',
       matchTarget = ''http://backend@evil.example/x''\<rparr> \<and>
   targetHostname ''http://backend@evil.example/x'' = ''evil.example''"
  by (simp add: resolve_eval Resolve_def mount_eval targetHostname_def go_defs go_loops)

text \<open>C10: a client cannot inject FTP commands. In a valid configuration, for a mapping whose wildcard is not in the
  target's host and whose own path has no line break once decoded, whatever path and query a client sends,
  every command of the FTP session is one line: a server that answers differently to anything but a text
  without line breaks, followed by one line end, makes no difference. Neither condition follows from
  validation, see \<open>Resolve_host_wildcard\<close> and \<open>ftp_mapping_injects\<close>.\<close>

theorem ftp_no_injection:
  assumes "Config_Validate c = None" and "ResolveFor (Mounts c) request = Inr m"
    and "url_Parse (mTarget (matchMount m)) = Some u" and "\<not> HasSuffix (Host u) ''*''"
    and "newline \<notin> set (Path u) \<and> CHR 0x0D \<notin> set (Path u)"
    and "backendResource (matchTarget m) query = Some resource"
    and "\<And>l w. newline \<notin> set l \<Longrightarrow> CHR 0x0D \<notin> set l \<Longrightarrow> f (crlf l) w = send_control peer (crlf l) w"
  shows "operate (peer\<lparr>send_control := f\<rparr>) maxReply meth resource body s = operate peer maxReply meth resource body s"
proof (cases "parseFTPResource resource")
  case (Inl e)
  then show ?thesis by (simp add: operate_def operate_session_def outer_world_def)
next
  case (Inr target)
  then obtain w where w: "url_Parse resource = Some w" "ftPath target = normalizeFTPPath (Path w)"
    by (auto simp: parseFTPResource_def split: option.splits if_splits)
  note abs = valid_target [OF assms(1-3)]
  obtain v where v: "url_Parse (matchTarget m) = Some v" using assms(6) by (auto simp: backendResource_def split: option.splits)
  note same = resolved_url [OF assms(2,3) abs assms(4) v]
  have "Path w = Path v" using resource_of_target [OF v _ _ assms(6) w(1)] same abs by simp
  moreover obtain n where n: "NormalizePath (rqPath request) = Inr n" "NormalizedPath m = n"
    using ResolveFor_candidate [OF assms(2)] by (metis match_of_def Match.select_convs(2))
  have "newline \<notin> set n \<and> CHR 0x0D \<notin> set n" using NormalizePath_bytes [OF n(1)] by force
  ultimately have "newline \<notin> set (Path w) \<and> CHR 0x0D \<notin> set (Path w)"
    using same assms(5) n(2) set_mono_sublist by fastforce
  then show ?thesis using w(2) by (intro ftp_commands_one_line [OF Inr _ assms(7)]) (simp_all add: normalizeFTPPath_def)
qed

theorem ftp_no_injection_witness:
  "operate (plain_server_peer\<lparr>send_control := (\<lambda>c w. if newline \<in> set (butlast c) then (w, Inl []) else send_control plain_server_peer c w)\<rparr>)
     64 ''GET'' ''ftp://h:21/f%20g'' None [] = operate plain_server_peer 64 ''GET'' ''ftp://h:21/f%20g'' None []"
proof -
  let ?m = "path_mount ''/f/*'' ''ftp://h:21/*''"
  let ?c = "\<lparr>Servers = [plain_server ''web'' ''http'' '':80''], Mounts = [?m], Policies = [any_rule ''permit'' 0]\<rparr>"
  have "wf_config ?c"
    by (simp add: wf_config_def good_server_def good_scope_def Rule_Validate_def mount_eval path_eval go_defs go_loops)
  then have valid: "Config_Validate ?c = None" by (simp only: Config_Validate_wf)
  have resolved: "ResolveFor (Mounts ?c) (mount_request ''web'' (origin_request ''GET'' ''/f/f g'')) =
      Inr \<lparr>matchMount = ?m, NormalizedPath = ''/f/f g'', matchTarget = ''ftp://h:21/f g''\<rparr>"
    by (simp add: serve_eval)
  obtain u where u: "url_Parse (mTarget ?m) = Some u" "Host u = ''h:21''" "Path u = ''/*''" by (simp add: go_defs go_loops)
  have resource: "backendResource ''ftp://h:21/f g'' [] = Some ''ftp://h:21/f%20g''"
    by (simp add: backendResource_def go_defs go_loops)
  show ?thesis
    by (rule ftp_no_injection [OF valid resolved, of u "[]"])
      (use u in \<open>auto simp: resource HasSuffix_def suffix_def crlf_def butlast_append\<close>)
qed

text \<open>A mapping can inject FTP commands. Validation looks at the text of a target and not at its decoded path, so
  it accepts one with an encoded line break; every request for this mapping then sends two commands.\<close>

theorem ftp_mapping_injects:
  "\<exists>c m target. Config_Validate c = None \<and>
     ResolveFor (Mounts c) (mount_request ''web'' (origin_request ''GET'' ''/f'')) = Inr m \<and>
     backendResource (matchTarget m) [] = Some ''ftp://h:21/a%0D%0ADELE%20b'' \<and>
     parseFTPResource ''ftp://h:21/a%0D%0ADELE%20b'' = Inr target \<and>
     crlf (command_line ''RETR'' [ftPath target]) = crlf ''RETR /a'' @ crlf ''DELE b''"
proof -
  let ?m = "path_mount ''/f'' ''ftp://h:21/a%0D%0ADELE%20b''"
  let ?c = "\<lparr>Servers = [plain_server ''web'' ''http'' '':80''], Mounts = [?m], Policies = [any_rule ''permit'' 0]\<rparr>"
  have "wf_config ?c"
    by (simp add: wf_config_def good_server_def good_scope_def Rule_Validate_def mount_eval path_eval go_defs go_loops)
  then have "Config_Validate ?c = None" by (simp only: Config_Validate_wf)
  moreover have "ResolveFor (Mounts ?c) (mount_request ''web'' (origin_request ''GET'' ''/f'')) =
      Inr \<lparr>matchMount = ?m, NormalizedPath = ''/f'', matchTarget = ''ftp://h:21/a%0D%0ADELE%20b''\<rparr>"
    by (simp add: serve_eval)
  moreover have "backendResource ''ftp://h:21/a%0D%0ADELE%20b'' [] = Some ''ftp://h:21/a%0D%0ADELE%20b''"
    by (simp add: backendResource_def go_defs go_loops)
  moreover have "parseFTPResource ''ftp://h:21/a%0D%0ADELE%20b'' =
      Inr \<lparr>ftHost = ''h:21'', ftPath = ''/a'' @ [CHR 0x0D, newline] @ ''DELE b''\<rparr>"
    by (simp add: parseFTPResource_def normalizeFTPPath_def go_defs go_loops)
  moreover have "crlf (command_line ''RETR'' [''/a'' @ [CHR 0x0D, newline] @ ''DELE b'']) = crlf ''RETR /a'' @ crlf ''DELE b''"
    by (simp add: command_line_def crlf_def go_defs go_loops)
  ultimately show ?thesis by (metis Match.select_convs(3) ftpTarget.select_convs(2))
qed

end
