(* ===== verification/Egress.thy ===== *)
theory Egress
  imports Process Destination
begin

text \<open>
  Everything a started gateway does to the outside for an operation, from the handler of \<^verbatim>\<open>server/http.go\<close>
  through the routes of \<^verbatim>\<open>connector/routes.go\<close> to the one exchange or FTP session, together with where it goes.
\<close>

section \<open>What a connector does\<close>

text \<open>One exchange of an HTTP client, without redirects, or one FTP session, for a resource.\<close>

fun contacts :: "('s, 'tls) protocolConnector \<Rightarrow> string \<Rightarrow> 's \<Rightarrow> 's \<Rightarrow> bool" where
  "contacts (HTTPConnector c) resource s t \<longleftrightarrow>
     (\<exists>request. map_option removeEmptyPort (url_Parse resource) = Some (oURL request) \<and> t = fst (Transport c (TLSClientConfig c) (CheckRedirect c) request s))"
| "contacts (FTPConnector f) resource s t \<longleftrightarrow>
     (\<exists>target meth body. parseFTPResource resource = Inr target \<and>
        t = fst (operate (ftpDialer f) (maxReplyBytesValue f) meth resource body s))"

lemma HTTP_contacts: "HTTP_execute c meth resource metadata body sz s = (t, r) \<Longrightarrow> t \<noteq> s \<Longrightarrow> contacts (HTTPConnector c) resource s t"
  using HTTP_execute_once [of c meth resource metadata body sz s t r] by auto

lemma FTP_contacts:
  assumes "operate (ftpDialer f) (maxReplyBytesValue f) meth resource body s = (t, r)" and "t \<noteq> s"
  shows "contacts (FTPConnector f) resource s t"
proof (cases "parseFTPResource resource")
  case (Inl e)
  with assms show ?thesis by (auto simp: operate_def operate_session_def outer_world_def)
next
  case (Inr target)
  have "t = fst (operate (ftpDialer f) (maxReplyBytesValue f) meth resource body s)" using assms(1) by simp
  with Inr show ?thesis by auto
qed

text \<open>The three operations of the routes.\<close>

lemma routes_contact:
  assumes "t \<noteq> s"
  shows "routes_Fetch r m fetch s = (t, x) \<Longrightarrow> \<exists>c. connectorForMount r m = Inr c \<and> contacts c (fResource fetch) s t"
    and "routes_List r m list s = (t, x) \<Longrightarrow> \<exists>c. connectorForMount r m = Inr c \<and> contacts c (lResource list) s t"
    and "routes_Store r m store s = (t, x) \<Longrightarrow> \<exists>c. connectorForMount r m = Inr c \<and> contacts c (stResource store) s t"
  using assms HTTP_contacts [of _ _ _ _ _ _ s t x] FTP_contacts [of _ _ _ _ s t x]
  by (auto simp: routes_Fetch_def routes_List_def routes_Store_def HTTP_Fetch_def HTTP_List_def HTTP_Store_def
      FTP_Fetch_def FTP_List_def FTP_Store_def split: sum.splits protocolConnector.splits if_splits simp del: contacts.simps)

lemma perform_contacts:
  assumes "fst (fst (perform (routes_connector r) request matched (s, None))) \<noteq> s"
  shows "\<exists>resource c. backendResource (matchTarget matched) (RawQuery (hURL request)) = Some resource \<and>
    connectorForMount r (matchMount matched) = Inr c \<and>
    contacts c resource s (fst (fst (perform (routes_connector r) request matched (s, None))))"
  using assms
  by (auto simp: perform_def routes_connector_def Let_def split: option.splits if_splits prod.splits sum.splits simp del: contacts.simps
      dest!: routes_contact(1) [rotated] routes_contact(2) [rotated] routes_contact(3) [rotated])

text \<open>The connector for a mapping and where its resource points.\<close>

lemma connector_of_target:
  assumes "connectorForMount (NewHTTPRoutes lib network client ps) m = Inr c" and "url_Parse (mTarget m) = Some u"
  shows "if EqualFold (Scheme u) ''ftp'' then c = FTPConnector (NewFTP network None) else \<exists>h. c = HTTPConnector h \<and> CheckRedirect h = UseLastResponse"
  using assms routes_redirect [of lib network client ps m]
  by (auto simp: connectorForMount_def NewHTTPRoutes_def Let_def split: option.splits if_splits)

lemma contacts_parse: "contacts c resource s t \<Longrightarrow> \<exists>w. url_Parse resource = Some w"
  by (cases c) (auto simp: parseFTPResource_def split: option.splits)

lemma NewFTP_fields: "ftpDialer (NewFTP network None) = network" "maxReplyBytesValue (NewFTP network None) = 65536"
  by (simp_all add: NewFTP_def maxReplyBytesValue_def defaultFTPMaxReplyBytes_def)

section \<open>Properties\<close>

text \<open>C2: the gateway is no open proxy. When a started gateway, after any reloads, changes the world outside for a
  request that is not a tunnel, the policy has allowed it, and the change is one exchange of an HTTP client
  that leaves redirects alone, or one session of the FTP connector if the mapping's target is an FTP URL;
  and unless the mapping has its wildcard in the host, the URL of that exchange or session has the scheme
  and host of the mapping, where a client drops an empty port, and that host is the one the policy was asked
  about.\<close>

theorem gateway_contacts:
  assumes "start_gateway lb lf listen lib network client dial sig configured path = (log, Inr gw)"
    and "watchReload decode (gwStore gw) events = (st, reports)"
    and "h \<in> set (rtHandlers (gwRuntime gw))"
    and "handle_request h st room hdr env request s t = (resp, s', t')"
    and "s' \<noteq> s" and "hMethod request \<noteq> ''CONNECT''"
  shows "\<exists>matched source u resource w. ResolveFor (Mounts (Snapshot st)) (mount_request (hdServer h) request) = Inr matched \<and>
    policySource (Servers (Snapshot st)) (hdServer h) request = Inr source \<and>
    Allowed (Evaluate (Policies (Snapshot st)) (policy_request source matched (hMethod request))) \<and>
    url_Parse (mTarget (matchMount matched)) = Some u \<and> url_Parse resource = Some w \<and>
    (if EqualFold (Scheme u) ''ftp'' then \<exists>meth body. s' = fst (operate network 65536 meth resource body s)
     else \<exists>c request'. connectorForMount (rtRoutes (gwRuntime gw)) (matchMount matched) = Inr (HTTPConnector c) \<and>
       oURL request' = removeEmptyPort w \<and> s' = fst (Transport c (TLSClientConfig c) UseLastResponse request' s)) \<and>
    (\<not> HasSuffix (Host u) ''*'' \<and> rereadable (Host u) \<longrightarrow>
       Scheme w = Scheme u \<and> Host w = Host u \<and> prDestination (policy_request source matched (hMethod request)) = Hostname w)"
proof -
  note gw = start_gateway_Inr [OF assms(1)]
  note h = gateway_handler [OF assms(1,3)]
  from gw have prepared: "prepareHTTPRuntime lb lf listen (NewHTTPRoutes lib network (Some client)) Snapshot dial configured = (log, Inr (gwRuntime gw))"
    by simp
  then obtain ps where rt: "rtRoutes (gwRuntime gw) = NewHTTPRoutes lib network (Some client) ps" by (cases rule: prepare_cases) auto
  from gw have run: "running decode configured st" by (intro watchReload_running [OF assms(2)] started) blast
  then have valid: "Config_Validate (Snapshot st) = None" by (simp add: running_invariant Config_Validate_wf)
  have s': "s' = fst (serve_operation (hdServer h) (Snapshot st) (routes_connector (rtRoutes (gwRuntime gw))) room hdr request s)"
    using assms(4,6) h by (auto simp: handle_request_def ServeHTTP_def split: prod.splits)
  from serve_operation_guarded [OF assms(5) [unfolded s']] obtain matched source where m:
    "ResolveFor (Mounts (Snapshot st)) (mount_request (hdServer h) request) = Inr matched"
    "policySource (Servers (Snapshot st)) (hdServer h) request = Inr source"
    "Allowed (Evaluate (Policies (Snapshot st)) (policy_request source matched (hMethod request)))"
    "s' = fst (fst (perform (routes_connector (rtRoutes (gwRuntime gw))) request matched (s, None)))"
    unfolding s' by blast
  from perform_contacts [OF assms(5) [unfolded m(4)]] m(4) obtain resource c where
    r: "backendResource (matchTarget matched) (RawQuery (hURL request)) = Some resource" and
    c: "connectorForMount (rtRoutes (gwRuntime gw)) (matchMount matched) = Inr c" "contacts c resource s s'" by metis
  obtain w where w: "url_Parse resource = Some w" using contacts_parse [OF c(2)] by blast
  have "matchMount matched \<in> set (Mounts (Snapshot st))" using resolved_text [OF m(1)] by metis
  with valid have "Mount_Validate (matchMount matched) = None" by (simp add: Config_Validate_wf wf_config_def)
  then obtain u where u: "url_Parse (mTarget (matchMount matched)) = Some u" using Mount_Validate_target by blast
  have "Scheme w = Scheme u \<and> Host w = Host u \<and> prDestination (policy_request source matched (hMethod request)) = Hostname w"
    if "\<not> HasSuffix (Host u) ''*''" "rereadable (Host u)"
    using same_destination [OF valid m(1) u that r w] by blast
  moreover have "if EqualFold (Scheme u) ''ftp'' then \<exists>meth body. s' = fst (operate network 65536 meth resource body s)
     else \<exists>c request'. connectorForMount (rtRoutes (gwRuntime gw)) (matchMount matched) = Inr (HTTPConnector c) \<and>
       oURL request' = removeEmptyPort w \<and> s' = fst (Transport c (TLSClientConfig c) UseLastResponse request' s)"
    using connector_of_target [OF c(1) [unfolded rt] u] c w by (auto simp: NewFTP_fields split: if_splits) blast
  ultimately show ?thesis using m(1-3) u w by blast
qed

theorem gateway_contacts_witness:
  "\<exists>matched u. \<exists>w :: url. ResolveFor (Mounts files_config) (mount_request ''web'' (origin_request ''GET'' ''/files/x'')) = Inr matched \<and>
     url_Parse (mTarget (matchMount matched)) = Some u \<and> Host w = Host u"
proof (rule small_gateway)
  fix h gw s' r
  assume run: "start_gateway (\<lambda>_. Inl NoCertificates) (\<lambda>_. Inl NoCertificates) (\<lambda>_. Inr 1) log_client plain_server_peer log_client (\<lambda>_ _ _ s. (s, Inl [])) True
      files_config ''c.toml'' = ([Bound '':80'' 1], Inr gw)"
    "watchReload (\<lambda>_ :: string. Inl (OtherDecodeError [])) (gwStore gw) [ReloadSignal (Inl ''gone'')] =
      (Some files_config, [Some (ReloadOpen ''gone'')])"
    "h \<in> set (rtHandlers (gwRuntime gw))"
    "handle_request h (Some files_config) None [] quiet_env (origin_request ''GET'' ''/files/x'') [] (fresh newConnectionSessions) =
      (Operation r, s', fresh newConnectionSessions)" "s' \<noteq> []"
    and fields: "hdServer h = ''web''"
  have snap: "Snapshot (Some files_config) = files_config" by (simp add: Snapshot_def)
  have "hMethod (origin_request ''GET'' ''/files/x'') \<noteq> ''CONNECT''" by simp
  from gateway_contacts [OF run this, unfolded snap fields] show ?thesis
  proof (elim exE conjE, goal_cases)
    case (1 matched source u resource w)
    have "matchMount matched \<in> set (Mounts files_config)" by (rule resolved_text [OF 1(1)])
    then have "mTarget (matchMount matched) = ''http://b/*''" by simp
    moreover have "\<exists>v. url_Parse ''http://b/*'' = Some v \<and> Host v = ''b''" by (simp add: go_defs go_loops)
    ultimately have "Host u = ''b''" using 1(4) by auto
    with 1(7) have "Host w = Host u" by (auto simp: HasSuffix_def suffix_def rereadable_def)
    with 1(1,4) show ?case by blast
  qed
qed

end
