(* ===== verification/Relay.thy ===== *)
theory Relay
  imports Bridge Http_Connect
begin

text \<open>
  The bytes of a relay: \<^verbatim>\<open>copyHalf\<close> of \<^verbatim>\<open>link/bridge.go\<close> and \<^verbatim>\<open>copyRelay\<close> of \<^verbatim>\<open>server/http.go\<close> with its deadline
  wrappers, one read or write of \<^verbatim>\<open>io.Copy\<close> at a time. Both run the same loop and differ in what they close
  when it ends, which the locale \<open>copier\<close> abstracts from. The theorems say what arrives and tie the machine to
  the coarser views of it: the flags of \<open>Bridge\<close> and the function \<open>copyRelay\<close> of \<open>Http_Connect\<close>.
\<close>

section \<open>One direction\<close>

datatype copy_phase = Copying | CopyEnded bool

text \<open>What the peer has sent and whether it has ended its stream; what has not been read; the chunk that \<^verbatim>\<open>io.Copy\<close>
  has read and not written; what was written; whether the loop runs or has ended, and if so without error;
  whether the destination was half-closed and the source shut for reading.\<close>

record copying =
  cSent :: string
  cEnded :: bool
  cUnread :: string
  cChunk :: string
  cWritten :: string
  cPhase :: copy_phase
  cWriteClosed :: bool
  cReadClosed :: bool

definition copy_start :: copying where
  "copy_start = \<lparr>cSent = [], cEnded = False, cUnread = [], cChunk = [], cWritten = [], cPhase = Copying,
     cWriteClosed = False, cReadClosed = False\<rparr>"

text \<open>What follows the loop, for connections that have the methods asked for.\<close>

definition copyHalf_end :: "bool \<Rightarrow> copying \<Rightarrow> copying" where
  "copyHalf_end closeWriter c = (if closeWriter then c\<lparr>cWriteClosed := True\<rparr> else c)"

definition copyRelay_end :: "bool \<Rightarrow> bool \<Rightarrow> copying \<Rightarrow> copying" where
  "copyRelay_end closeWrite closeRead c =
     (let c1 = (if closeWrite then c\<lparr>cWriteClosed := True\<rparr> else c) in
      if closeRead then c1\<lparr>cReadClosed := True\<rparr> else c1)"

text \<open>The reads and writes of the loop. A read delivers the first \<open>n\<close> bytes that are there. \<open>idle\<close> says whether
  reads have a deadline.\<close>

inductive copy_due :: "(copying \<Rightarrow> copying) \<Rightarrow> copying \<Rightarrow> copying \<Rightarrow> bool" for fin where
  copy_read: "cPhase c = Copying \<Longrightarrow> cChunk c = [] \<Longrightarrow> 0 < n \<Longrightarrow> n \<le> length (cUnread c) \<Longrightarrow>
    copy_due fin c (c\<lparr>cChunk := take n (cUnread c), cUnread := drop n (cUnread c)\<rparr>)"
| copy_write: "cPhase c = Copying \<Longrightarrow> cChunk c \<noteq> [] \<Longrightarrow>
    copy_due fin c (c\<lparr>cWritten := cWritten c @ cChunk c, cChunk := []\<rparr>)"
| copy_eof: "cPhase c = Copying \<Longrightarrow> cChunk c = [] \<Longrightarrow> cUnread c = [] \<Longrightarrow> cEnded c \<Longrightarrow>
    copy_due fin c (fin (c\<lparr>cPhase := CopyEnded True\<rparr>))"

inductive copy_fails :: "bool \<Rightarrow> (copying \<Rightarrow> copying) \<Rightarrow> copying \<Rightarrow> copying \<Rightarrow> bool" for idle fin where
  copy_read_error: "cPhase c = Copying \<Longrightarrow> cChunk c = [] \<Longrightarrow> copy_fails idle fin c (fin (c\<lparr>cPhase := CopyEnded False\<rparr>))"
| copy_deadline: "idle \<Longrightarrow> cPhase c = Copying \<Longrightarrow> cChunk c = [] \<Longrightarrow> cUnread c = [] \<Longrightarrow> \<not> cEnded c \<Longrightarrow>
    copy_fails idle fin c (fin (c\<lparr>cPhase := CopyEnded False\<rparr>))"
| copy_write_error: "cPhase c = Copying \<Longrightarrow> cChunk c \<noteq> [] \<Longrightarrow>
    copy_fails idle fin c (fin (c\<lparr>cWritten := cWritten c @ take n (cChunk c), cChunk := [], cPhase := CopyEnded False\<rparr>))"

text \<open>The peer of the source.\<close>

inductive copy_peer :: "copying \<Rightarrow> copying \<Rightarrow> bool" where
  peer_sends: "\<not> cEnded c \<Longrightarrow> copy_peer c (c\<lparr>cSent := cSent c @ bs, cUnread := cUnread c @ bs\<rparr>)"
| peer_ends: "\<not> cEnded c \<Longrightarrow> copy_peer c (c\<lparr>cEnded := True\<rparr>)"

definition copy_own :: "bool \<Rightarrow> (copying \<Rightarrow> copying) \<Rightarrow> copying \<Rightarrow> copying \<Rightarrow> bool" where
  "copy_own idle fin c c' \<longleftrightarrow> copy_due fin c c' \<or> copy_fails idle fin c c'"

definition copy_step :: "bool \<Rightarrow> (copying \<Rightarrow> copying) \<Rightarrow> copying \<Rightarrow> copying \<Rightarrow> bool" where
  "copy_step idle fin c c' \<longleftrightarrow> copy_own idle fin c c' \<or> copy_peer c c'"

abbreviation copy_reach :: "bool \<Rightarrow> (copying \<Rightarrow> copying) \<Rightarrow> copying \<Rightarrow> bool" where
  "copy_reach idle fin \<equiv> reach (\<lambda>c. c = copy_start) (copy_step idle fin)"

lemma copy_reach_start: "copy_reach idle fin copy_start"
  by (rule reach_init) (rule refl)

section \<open>The contract of a copier\<close>

text \<open>What the end of a loop may do: half-close the destination, exactly when it can be, and leave the bytes and
  the outcome alone.\<close>

locale copier =
  fixes idle :: bool and fin :: "copying \<Rightarrow> copying" and half_closes :: bool
  assumes fin_bytes: "cSent (fin c) = cSent c" "cEnded (fin c) = cEnded c" "cUnread (fin c) = cUnread c"
      "cChunk (fin c) = cChunk c" "cWritten (fin c) = cWritten c" "cPhase (fin c) = cPhase c"
    and fin_closes: "cWriteClosed (fin c) \<longleftrightarrow> half_closes \<or> cWriteClosed c"
begin

definition copy_inv :: "copying \<Rightarrow> bool" where
  "copy_inv c \<longleftrightarrow>
     (case cPhase c of
        Copying \<Rightarrow> cSent c = cWritten c @ cChunk c @ cUnread c \<and> \<not> cWriteClosed c
      | CopyEnded ok \<Rightarrow> prefix (cWritten c) (cSent c) \<and> cChunk c = [] \<and> (ok \<longrightarrow> cEnded c \<and> cWritten c = cSent c) \<and>
          (cWriteClosed c \<longleftrightarrow> half_closes))"

lemma copy_inv_due: "copy_due fin c c' \<Longrightarrow> copy_inv c \<Longrightarrow> copy_inv c'"
  by (induction rule: copy_due.induct) (simp_all add: copy_inv_def fin_bytes fin_closes)

lemma copy_inv_fails: "copy_fails idle fin c c' \<Longrightarrow> copy_inv c \<Longrightarrow> copy_inv c'"
  by (induction rule: copy_fails.induct)
    (simp_all add: copy_inv_def fin_bytes fin_closes prefix_append take_is_prefix)

lemma copy_inv_peer: "copy_peer c c' \<Longrightarrow> copy_inv c \<Longrightarrow> copy_inv c'"
  by (induction rule: copy_peer.induct) (auto simp: copy_inv_def split: copy_phase.splits)

lemma copy_reachable: "copy_reach idle fin c \<Longrightarrow> copy_inv c"
proof (induction rule: reach.induct)
  case (reach_init c)
  then show ?case by (simp add: copy_inv_def copy_start_def)
next
  case (reach_step c c')
  then show ?case using copy_inv_due copy_inv_fails copy_inv_peer by (auto simp: copy_step_def copy_own_def)
qed

definition copy_weight :: "copying \<Rightarrow> nat" where
  "copy_weight c = (if cPhase c = Copying then 1 + 2 * length (cUnread c) + length (cChunk c) else 0)"

lemma copy_lighter: "copy_own idle fin c c' \<Longrightarrow> copy_weight c' < copy_weight c"
  unfolding copy_own_def by (elim disjE copy_due.cases copy_fails.cases) (auto simp: copy_weight_def fin_bytes)

lemma copy_progress:
  assumes "cEnded c" and "cPhase c = Copying"
  shows "\<exists>c'. copy_due fin c c'"
proof (cases "cChunk c = []")
  case True
  show ?thesis
  proof (cases "cUnread c = []")
    case False
    then have "0 < length (cUnread c)" by simp
    with assms True show ?thesis by (blast intro: copy_read)
  qed (use assms True copy_eof in blast)
qed (use assms copy_write in blast)

lemma copy_keeps_end: "copy_own idle fin c c' \<Longrightarrow> cEnded c \<Longrightarrow> cEnded c'"
  unfolding copy_own_def by (elim disjE copy_due.cases copy_fails.cases) (auto simp: fin_bytes)

lemma due_run:
  assumes "(copy_due fin ^^ m) c u" and "copy_inv c" and "cPhase c \<noteq> CopyEnded False"
  shows "copy_inv u \<and> cPhase u \<noteq> CopyEnded False \<and> cSent u = cSent c"
  using assms(1)
proof (induction m arbitrary: u)
  case (Suc m)
  then obtain v where v: "(copy_due fin ^^ m) c v" "copy_due fin v u" by auto
  with Suc.IH have "copy_inv v" "cPhase v \<noteq> CopyEnded False" "cSent v = cSent c" by blast+
  with v(2) copy_inv_due [OF v(2)] show ?case by (auto simp: fin_bytes elim!: copy_due.cases)
qed (use assms(2,3) in simp)

sublocale copy_end: winding_down cEnded "copy_own idle fin" "copy_due fin" "\<lambda>_ _. False" "\<lambda>c. cPhase c \<noteq> Copying" copy_weight 0
  by unfold_locales (auto simp: copy_own_def copy_progress intro: copy_keeps_end copy_lighter [unfolded copy_own_def])

text \<open>Once the peer has ended its stream, a loop that meets no error delivers everything, then half-closes.\<close>

lemma delivers:
  assumes "copy_reach idle fin c" and "cEnded c" and "cPhase c = Copying"
  shows "\<exists>m u. (copy_due fin ^^ m) c u \<and> cPhase u = CopyEnded True \<and> cWritten u = cSent c \<and> (cWriteClosed u \<longleftrightarrow> half_closes)"
proof -
  from copy_end.ends [OF assms(2)] obtain m u where u: "(copy_due fin ^^ m) c u" "cPhase u \<noteq> Copying" by blast
  from due_run [OF u(1) copy_reachable [OF assms(1)]] assms(3)
  have "copy_inv u" "cPhase u \<noteq> CopyEnded False" "cSent u = cSent c" by simp_all
  with u show ?thesis by (cases "cPhase u") (auto simp: copy_inv_def)
qed

lemma arrives:
  assumes "copy_reach idle fin c"
  shows "prefix (cWritten c) (cSent c) \<and> (cPhase c = CopyEnded True \<longrightarrow> cEnded c \<and> cWritten c = cSent c) \<and>
    (cWriteClosed c \<longleftrightarrow> half_closes \<and> cPhase c \<noteq> Copying)"
  using copy_reachable [OF assms] by (auto simp: copy_inv_def split: copy_phase.splits)

end

interpretation half_copier: copier False "copyHalf_end w" w for w
  by unfold_locales (simp_all add: copyHalf_end_def)

interpretation relay_copier: copier True "copyRelay_end w r" w for w r
  by unfold_locales (simp_all add: copyRelay_end_def Let_def)

section \<open>The coarser views\<close>

text \<open>The flags of \<open>Relaying\<close> in \<open>Bridge\<close>: whether the copies of the two directions have ended.\<close>

definition copy_flags :: "copying \<Rightarrow> copying \<Rightarrow> bool \<times> bool" where
  "copy_flags up down = (cPhase up \<noteq> Copying, cPhase down \<noteq> Copying)"

definition relay_view :: "conn \<Rightarrow> copying \<Rightarrow> copying \<Rightarrow> stream_state" where
  "relay_view r up down = (case copy_flags up down of (u, d) \<Rightarrow> Relaying r u d)"

lemma relay_view_start: "relay_view r copy_start copy_start = relay r"
  by (simp add: relay_view_def copy_flags_def copy_start_def relay_def)

lemma copy_phase_step:
  assumes "copy_step False (copyHalf_end w) c c'"
  shows "cPhase c' = cPhase c \<or> cPhase c = Copying"
  using assms unfolding copy_step_def copy_own_def
  by (elim disjE copy_due.cases copy_fails.cases copy_peer.cases) auto

lemma set_stream_same: "i < length (bStreams s) \<Longrightarrow> bStreams s ! i = (c, ph) \<Longrightarrow> set_stream i ph s = s"
  by (cases s) (metis bridge_state.select_convs(6) bridge_state.update_convs(6) fst_conv list_update_id set_stream_def)

lemma relay_view_up:
  assumes "copy_step False (copyHalf_end w) up up'" and "i < length (bStreams s)"
    and "bStreams s ! i = (c, relay_view r up down)"
  shows "set_stream i (relay_view r up' down) s = s \<or> free s (set_stream i (relay_view r up' down) s)"
  using copy_phase_step [OF assms(1)] assms(2,3) set_stream_same copy_up_ends
  by (cases "cPhase up' = cPhase up") (auto simp: relay_view_def copy_flags_def)

lemma relay_view_down:
  assumes "copy_step False (copyHalf_end w) down down'" and "i < length (bStreams s)"
    and "bStreams s ! i = (c, relay_view r up down)"
  shows "set_stream i (relay_view r up down') s = s \<or> free s (set_stream i (relay_view r up down') s)"
  using copy_phase_step [OF assms(1)] assms(2,3) set_stream_same copy_down_ends
  by (cases "cPhase down' = cPhase down") (auto simp: relay_view_def copy_flags_def)

section \<open>Properties\<close>

text \<open>C16: a relay delivers what was sent, in order, and ends truthfully. For both relays of the program, in every
  reachable state of a direction the bytes written are a prefix of those sent; the destination is
  half-closed only after the copy has ended, and then always if it can be; a copy that ended without error
  has delivered everything of a stream that had ended; and a copy whose peer has ended its stream and that
  meets no error gets there.\<close>

theorem relay_delivers:
  assumes "idle \<and> fin = copyRelay_end w r \<or> \<not> idle \<and> fin = copyHalf_end w" and "copy_reach idle fin c"
  shows "prefix (cWritten c) (cSent c) \<and> (cPhase c = CopyEnded True \<longrightarrow> cEnded c \<and> cWritten c = cSent c) \<and>
    (cWriteClosed c \<longleftrightarrow> w \<and> cPhase c \<noteq> Copying) \<and>
    (cEnded c \<and> cPhase c = Copying \<longrightarrow>
      (\<exists>m u. (copy_due fin ^^ m) c u \<and> cPhase u = CopyEnded True \<and> cWritten u = cSent c \<and> (cWriteClosed u \<longleftrightarrow> w)))"
  using assms half_copier.arrives [of w c] half_copier.delivers [of w c] relay_copier.arrives [of w r c] relay_copier.delivers [of w r c]
  by auto

theorem relay_delivers_witness:
  "\<exists>m u. (copy_due (copyHalf_end True) ^^ m) (copy_start\<lparr>cSent := ''ab'', cUnread := ''ab'', cEnded := True\<rparr>) u \<and>
     cWritten u = ''ab'' \<and> cWriteClosed u"
proof -
  let ?c = "copy_start\<lparr>cSent := ''ab'', cUnread := ''ab''\<rparr>"
  have "copy_reach False (copyHalf_end True) (copy_start\<lparr>cSent := cSent copy_start @ ''ab'', cUnread := cUnread copy_start @ ''ab''\<rparr>)"
    by (rule reach_step [OF copy_reach_start]) (simp add: copy_step_def, intro disjI2 peer_sends, simp add: copy_start_def)
  then have "copy_reach False (copyHalf_end True) ?c" by (simp add: copy_start_def)
  then have "copy_reach False (copyHalf_end True) (?c\<lparr>cEnded := True\<rparr>)"
    by (rule reach_step) (simp add: copy_step_def, intro disjI2 peer_ends, simp add: copy_start_def)
  moreover have "cPhase (?c\<lparr>cEnded := True\<rparr>) = Copying" by (simp add: copy_start_def)
  ultimately show ?thesis using relay_delivers [of False "copyHalf_end True" True undefined "?c\<lparr>cEnded := True\<rparr>"] by auto
qed

text \<open>The function \<open>copyRelay\<close> of \<open>Http_Connect\<close> is what such a loop computes: when a copy has ended, the bytes
  written are those of a copy of the stream its source had sent to a destination of some capacity, and
  that copy ends without error if the loop did.\<close>

theorem copyRelay_refined:
  assumes "copy_reach True (copyRelay_end w r) c" and "cPhase c = CopyEnded ok"
  shows "\<exists>room e. cWritten c = copyRelay room \<lparr>content = cSent c, stream_end = e\<rparr> \<and>
    (ok \<longrightarrow> snd (io_Copy room \<lparr>content = cSent c, stream_end = e\<rparr>))"
proof -
  from relay_copier.arrives [OF assms(1)] have p: "prefix (cWritten c) (cSent c)" and ok: "ok \<longrightarrow> cWritten c = cSent c"
    using assms(2) by auto
  then have "cWritten c = take (length (cWritten c)) (cSent c)" by (metis append_eq_conv_conj prefix_def)
  with ok show ?thesis
    by (intro exI [of _ "Some (length (cWritten c))"] exI [of _ StreamEOF]) (auto simp: copyRelay_def io_Copy_def)
qed

text \<open>A quiet client ends its half of a busy tunnel. Each direction has its own deadline: when the client has sent
  nothing for the idle limit, the copy to the backend ends and half-closes the backend although the client
  has not ended its stream, while the other direction is in the middle of a download.\<close>

theorem relay_idle_half_closes:
  "\<exists>up down. copy_reach True (copyRelay_end True True) up \<and> copy_reach True (copyRelay_end True True) down \<and>
     \<not> cEnded up \<and> cWriteClosed up \<and> cReadClosed up \<and> cPhase down = Copying \<and> cUnread down = ''data''"
proof -
  let ?fin = "copyRelay_end True True"
  have "copy_reach True ?fin (?fin (copy_start\<lparr>cPhase := CopyEnded False\<rparr>))"
    by (rule reach_step [OF copy_reach_start], unfold copy_step_def copy_own_def, intro disjI1 disjI2 copy_deadline)
      (simp_all add: copy_start_def)
  moreover have "copy_reach True ?fin (copy_start\<lparr>cSent := cSent copy_start @ ''data'', cUnread := cUnread copy_start @ ''data''\<rparr>)"
    by (rule reach_step [OF copy_reach_start], unfold copy_step_def copy_own_def, intro disjI2 peer_sends)
      (simp_all add: copy_start_def)
  ultimately show ?thesis
    by (intro exI [of _ "?fin (copy_start\<lparr>cPhase := CopyEnded False\<rparr>)"]
        exI [of _ "copy_start\<lparr>cSent := cSent copy_start @ ''data'', cUnread := cUnread copy_start @ ''data''\<rparr>"])
      (simp add: copyRelay_end_def copy_start_def)
qed

end
