(* ===== verification/Tailcat_Listener.thy ===== *)
theory Tailcat_Listener
  imports Registry
begin

text \<open>
  \<^verbatim>\<open>tailcatListener\<close> of \<^verbatim>\<open>link/tailcat_adapter.go\<close>: the bounded queue between Tailcat's callback and
  \<^verbatim>\<open>Accept\<close>, as a step relation. A step is what one goroutine does between two points where another can
  come in: a whole \<^verbatim>\<open>Handle\<close> under the mutex, the receive of an \<^verbatim>\<open>Accept\<close>, its check of \<open>closing\<close> under the
  mutex, the start of \<^verbatim>\<open>Close\<close>, each connection it takes from the queue, and its end. \<^verbatim>\<open>Close\<close> holds the
  mutex from its start to its end (\<open>locked\<close>), during which an \<^verbatim>\<open>Accept\<close> can still receive.
\<close>

section \<open>The machine\<close>

definition tailcatListenerBacklog :: nat where
  "tailcatListenerBacklog = 64"

record tailcatListener =
  incoming :: "conn list"
  closed_chan :: bool
  tclosing :: bool
  locked :: bool
  received :: "conn list"
  delivered :: "conn list"
  discarded :: "conn list"
  handled :: "conn list"

text \<open>\<open>received\<close> are connections an \<^verbatim>\<open>Accept\<close> holds between its receive and its check; \<open>delivered\<close> were
  returned by \<^verbatim>\<open>Accept\<close>, \<open>discarded\<close> were closed, \<open>handled\<close> were offered to \<^verbatim>\<open>Handle\<close>.\<close>

definition newTailcatListener :: tailcatListener where
  "newTailcatListener =
     \<lparr>incoming = [], closed_chan = False, tclosing = False, locked = False, received = [], delivered = [],
      discarded = [], handled = []\<rparr>"

definition Handle :: "tailcatListener \<Rightarrow> conn \<Rightarrow> tailcatListener" where
  "Handle l c =
     (let l' = l\<lparr>handled := c # handled l\<rparr> in
      if tclosing l' then l'\<lparr>discarded := c # discarded l'\<rparr>
      else if length (incoming l') < tailcatListenerBacklog then l'\<lparr>incoming := incoming l' @ [c]\<rparr>
      else l'\<lparr>discarded := c # discarded l'\<rparr>)"

text \<open>The second select of \<^verbatim>\<open>Accept\<close>: a receive from the queue.\<close>

definition accept_receive :: "tailcatListener \<Rightarrow> tailcatListener option" where
  "accept_receive l =
     (case incoming l of
        [] \<Rightarrow> None
      | c # cs \<Rightarrow> Some (l\<lparr>incoming := cs, received := c # received l\<rparr>))"

text \<open>The check that follows: the connection is returned, or closed.\<close>

definition accept_check :: "tailcatListener \<Rightarrow> conn \<Rightarrow> tailcatListener" where
  "accept_check l c =
     (if tclosing l then l\<lparr>received := remove1 c (received l), discarded := c # discarded l\<rparr>
      else l\<lparr>received := remove1 c (received l), delivered := c # delivered l\<rparr>)"

definition close_begin :: "tailcatListener \<Rightarrow> tailcatListener" where
  "close_begin l = l\<lparr>tclosing := True, closed_chan := True, locked := True\<rparr>"

definition close_drain :: "tailcatListener \<Rightarrow> tailcatListener" where
  "close_drain l =
     (case incoming l of
        [] \<Rightarrow> l\<lparr>locked := False\<rparr>
      | c # cs \<Rightarrow> l\<lparr>incoming := cs, discarded := c # discarded l\<rparr>)"

inductive tstep :: "tailcatListener \<Rightarrow> tailcatListener \<Rightarrow> bool" where
  step_handle: "\<not> locked l \<Longrightarrow> tstep l (Handle l c)"
| step_receive: "accept_receive l = Some l' \<Longrightarrow> tstep l l'"
| step_check: "\<not> locked l \<Longrightarrow> c \<in> set (received l) \<Longrightarrow> tstep l (accept_check l c)"
| step_close: "\<not> locked l \<Longrightarrow> \<not> tclosing l \<Longrightarrow> tstep l (close_begin l)"
| step_drain: "locked l \<Longrightarrow> tstep l (close_drain l)"

inductive_simps tstep_iff: "tstep l l'"

inductive treachable :: "tailcatListener \<Rightarrow> bool" where
  treach_new: "treachable newTailcatListener"
| treach_step: "treachable l \<Longrightarrow> tstep l l' \<Longrightarrow> treachable l'"

section \<open>The invariant\<close>

text \<open>Every offered connection is in exactly one place, the queue is bounded, and after the end of
  \<^verbatim>\<open>Close\<close> it is empty.\<close>

definition tinv :: "tailcatListener \<Rightarrow> bool" where
  "tinv l \<longleftrightarrow>
     mset (handled l) = mset (incoming l) + mset (received l) + mset (delivered l) + mset (discarded l) \<and>
     length (incoming l) \<le> tailcatListenerBacklog \<and>
     (closed_chan l \<longleftrightarrow> tclosing l) \<and> (locked l \<longrightarrow> tclosing l) \<and>
     (tclosing l \<and> \<not> locked l \<longrightarrow> incoming l = [])"

lemma tinv_Handle: "tinv l \<Longrightarrow> \<not> locked l \<Longrightarrow> tinv (Handle l c)"
  by (auto simp: tinv_def Handle_def Let_def)

lemma tinv_receive: "tinv l \<Longrightarrow> accept_receive l = Some l' \<Longrightarrow> tinv l'"
  by (auto simp: tinv_def accept_receive_def split: list.splits)

lemma tinv_check: "tinv l \<Longrightarrow> c \<in> set (received l) \<Longrightarrow> tinv (accept_check l c)"
  by (auto simp: tinv_def accept_check_def)

lemma tinv_close: "tinv l \<Longrightarrow> tinv (close_begin l)"
  by (auto simp: tinv_def close_begin_def)

lemma tinv_drain: "tinv l \<Longrightarrow> locked l \<Longrightarrow> tinv (close_drain l)"
  by (auto simp: tinv_def close_drain_def split: list.splits)

lemma tinv_reachable: "treachable l \<Longrightarrow> tinv l"
proof (induction rule: treachable.induct)
  case treach_new
  show ?case by (simp add: tinv_def newTailcatListener_def)
next
  case (treach_step l l')
  from treach_step.hyps(2) treach_step.IH show ?case
    by cases (auto intro: tinv_Handle tinv_receive tinv_check tinv_close tinv_drain)
qed

text \<open>Once closing, nothing is delivered any more.\<close>

lemma closing_delivers_nothing:
  assumes "tstep l l'" "tclosing l"
  shows "delivered l' = delivered l \<and> tclosing l'"
  using assms
  by cases (auto simp: Handle_def Let_def accept_receive_def accept_check_def close_begin_def close_drain_def
    split: list.splits)

text \<open>The drain of \<^verbatim>\<open>Close\<close> ends: each of its steps shortens the queue or releases the mutex.\<close>

lemma close_drain_ends: "length (incoming l) \<le> n \<Longrightarrow> \<not> locked ((close_drain ^^ Suc n) l) \<and> incoming ((close_drain ^^ Suc n) l) = []"
proof (induction n arbitrary: l)
  case (Suc n)
  have "length (incoming (close_drain l)) \<le> n"
    using Suc.prems by (auto simp: close_drain_def split: list.splits)
  from Suc.IH [OF this] show ?case by (simp add: funpow_swap1)
qed (simp add: close_drain_def)

section \<open>Properties\<close>

text \<open>The Tailcat listener neither loses nor duplicates a connection. In every reachable state each
  connection offered to \<^verbatim>\<open>Handle\<close> is in exactly one of: the queue, an \<^verbatim>\<open>Accept\<close> in progress, the returned
  ones, the closed ones; the queue never exceeds its backlog; and when \<^verbatim>\<open>Close\<close> has ended and no \<^verbatim>\<open>Accept\<close>
  is in progress, every connection has been either returned or closed.\<close>

theorem tailcatListener_conservation:
  assumes "treachable l"
  shows "mset (handled l) = mset (incoming l) + mset (received l) + mset (delivered l) + mset (discarded l) \<and>
    length (incoming l) \<le> 64 \<and>
    (tclosing l \<and> \<not> locked l \<and> received l = [] \<longrightarrow> mset (handled l) = mset (delivered l) + mset (discarded l))"
  using tinv_reachable [OF assms] by (auto simp: tinv_def tailcatListenerBacklog_def)

theorem tailcatListener_conservation_witness:
  "mset (handled (close_drain (close_drain (close_begin (Handle newTailcatListener 5))))) =
   mset (delivered (close_drain (close_drain (close_begin (Handle newTailcatListener 5))))) +
   mset (discarded (close_drain (close_drain (close_begin (Handle newTailcatListener 5)))))"
proof -
  let ?h = "Handle newTailcatListener 5" and ?d = "close_drain (close_drain (close_begin (Handle newTailcatListener 5)))"
  have h: "treachable ?h" by (rule treach_step [OF treach_new]) (simp add: step_handle newTailcatListener_def)
  have "treachable (close_begin ?h)"
    by (rule treach_step [OF h]) (rule step_close; simp add: Handle_def newTailcatListener_def tailcatListenerBacklog_def)
  then have "treachable (close_drain (close_begin ?h))"
    by (rule treach_step) (rule step_drain, simp add: close_begin_def)
  then have "treachable ?d"
    by (rule treach_step) (rule step_drain, simp add: close_drain_def close_begin_def Handle_def newTailcatListener_def tailcatListenerBacklog_def)
  from tailcatListener_conservation [OF this] show ?thesis
    by (simp add: close_drain_def close_begin_def Handle_def newTailcatListener_def tailcatListenerBacklog_def)
qed

text \<open>\<^verbatim>\<open>Close\<close> is final and ends. From the moment it starts no step delivers a connection any more
  and none reopens the listener; and its own drain loop, run alone, releases the mutex with an empty
  queue after one step more than the queue is long.\<close>

theorem tailcatListener_close_final:
  "(tstep l l' \<and> tclosing l \<longrightarrow> delivered l' = delivered l \<and> tclosing l') \<and>
   (let m = (close_drain ^^ Suc (length (incoming l))) l in \<not> locked m \<and> incoming m = [])"
  using closing_delivers_nothing [of l l'] close_drain_ends [of l "length (incoming l)"] by (simp add: Let_def)

theorem tailcatListener_close_final_witness:
  "delivered (Handle (close_drain (close_begin newTailcatListener)) 3) = []"
proof -
  let ?l = "close_drain (close_begin newTailcatListener)"
  have "tstep ?l (Handle ?l 3)"
    by (rule step_handle) (simp add: close_drain_def close_begin_def newTailcatListener_def)
  then show ?thesis
    using tailcatListener_close_final [of ?l "Handle ?l 3"]
    by (simp add: close_drain_def close_begin_def newTailcatListener_def)
qed

end
