(* ===== verification/Tailcat_Ingress.thy ===== *)
theory Tailcat_Ingress
  imports Bridge Tailcat_Listener
begin

text \<open>
  The Tailcat ingress at work: \<^verbatim>\<open>serveTailcat\<close> of \<^verbatim>\<open>link/tailcat_adapter.go\<close> from its call of the bridge on, with
  the bridge's \<^verbatim>\<open>Accept\<close> and \<^verbatim>\<open>Close\<close> calls answered by the Tailcat listener. The composed machine runs the steps
  of \<open>Bridge\<close> and \<open>Tailcat_Listener\<close> and synchronises them where one calls the other. The locales of \<open>Simulation\<close>
  carry the theorems of the parts over to the whole.
\<close>

section \<open>The machine\<close>

text \<open>The goroutine of \<^verbatim>\<open>serveTailcat\<close>: in \<^verbatim>\<open>Serve\<close>, in \<^verbatim>\<open>server.DrainTCP\<close>, in the deferred \<^verbatim>\<open>listener.Close\<close>, in the
  deferred \<^verbatim>\<open>server.Close\<close>, and returned.\<close>

datatype ingress_phase = Bridging | DrainingTCP | ClosingListener | ClosingServer | IngressReturned

record ingress_state =
  gListener :: tailcatListener
  gBridge :: bridge_state
  gMain :: ingress_phase

definition ingress_start :: "bool \<Rightarrow> ingress_state" where
  "ingress_start ctx_done = \<lparr>gListener = newTailcatListener, gBridge = serve_start ctx_done True, gMain = Bridging\<rparr>"

text \<open>\<^verbatim>\<open>Close\<close> of the listener through its \<^verbatim>\<open>sync.Once\<close>.\<close>

definition close_once :: "tailcatListener \<Rightarrow> tailcatListener" where
  "close_once l = (if tclosing l then l else close_begin l)"

text \<open>What \<^verbatim>\<open>Accept\<close> returns after its receive and check: the connection, or \<^verbatim>\<open>net.ErrClosed\<close>, upon which \<^verbatim>\<open>Serve\<close>
  leaves its loop.\<close>

definition accept_returns :: "conn \<Rightarrow> ingress_state \<Rightarrow> ingress_state" where
  "accept_returns c g =
     g\<lparr>gListener := accept_check (gListener g) c,
       gBridge := (if tclosing (gListener g) then (gBridge g)\<lparr>bPhase := Draining\<rparr>
         else (gBridge g)\<lparr>bPhase := Accepted c, bOpened := insert c (bOpened (gBridge g))\<rparr>)\<rparr>"

text \<open>Steps of the bridge that neither close the listener nor are an \<^verbatim>\<open>Accept\<close>. A dialled connection is not one
  that Tailcat has offered.\<close>

definition inner :: "ingress_state \<Rightarrow> bridge_state \<Rightarrow> bool" where
  "inner g b \<longleftrightarrow> bListening b = bListening (gBridge g) \<and> (bPhase (gBridge g) = Accepting \<longrightarrow> bPhase b = Accepting) \<and>
     (bOpened b - bOpened (gBridge g)) \<inter> set (handled (gListener g)) = {}"

inductive ingress_due :: "ingress_state \<Rightarrow> ingress_state \<Rightarrow> bool" where
  due_receive: "bPhase (gBridge g) = Accepting \<Longrightarrow> received (gListener g) = [] \<Longrightarrow> accept_receive (gListener g) = Some l \<Longrightarrow>
    ingress_due g (g\<lparr>gListener := l\<rparr>)"
| due_check: "bPhase (gBridge g) = Accepting \<Longrightarrow> received (gListener g) = [c] \<Longrightarrow> \<not> locked (gListener g) \<Longrightarrow>
    ingress_due g (accept_returns c g)"
| due_closed: "bPhase (gBridge g) = Accepting \<Longrightarrow> received (gListener g) = [] \<Longrightarrow> closed_chan (gListener g) \<Longrightarrow>
    ingress_due g (g\<lparr>gBridge := (gBridge g)\<lparr>bPhase := Draining\<rparr>\<rparr>)"
| due_watch: "bWatching (gBridge g) \<Longrightarrow> bCancelled (gBridge g) \<Longrightarrow> \<not> locked (gListener g) \<Longrightarrow>
    ingress_due g (g\<lparr>gListener := close_once (gListener g), gBridge := (gBridge g)\<lparr>bWatching := False, bListening := False\<rparr>\<rparr>)"
| due_drain: "locked (gListener g) \<Longrightarrow> ingress_due g (g\<lparr>gListener := close_drain (gListener g)\<rparr>)"
| due_bridge: "forced (gBridge g) b \<Longrightarrow> inner g b \<Longrightarrow> ingress_due g (g\<lparr>gBridge := b\<rparr>)"
| due_returned: "gMain g = Bridging \<Longrightarrow> returned (bPhase (gBridge g)) \<Longrightarrow> ingress_due g (g\<lparr>gMain := DrainingTCP\<rparr>)"
| due_drained: "gMain g = DrainingTCP \<Longrightarrow> ingress_due g (g\<lparr>gMain := ClosingListener\<rparr>)"
| due_close: "gMain g = ClosingListener \<Longrightarrow> \<not> tclosing (gListener g) \<Longrightarrow> \<not> locked (gListener g) \<Longrightarrow>
    ingress_due g (g\<lparr>gListener := close_once (gListener g), gBridge := (gBridge g)\<lparr>bListening := False\<rparr>\<rparr>)"
| due_server: "gMain g = ClosingListener \<Longrightarrow> tclosing (gListener g) \<Longrightarrow> \<not> locked (gListener g) \<Longrightarrow>
    ingress_due g (g\<lparr>gMain := ClosingServer\<rparr>)"
| due_end: "gMain g = ClosingServer \<Longrightarrow> ingress_due g (g\<lparr>gMain := IngressReturned\<rparr>)"

text \<open>Choices of the outside: the peers of the bridge, the cancellation, and a stream that Tailcat offers.\<close>

definition ingress_own :: "ingress_state \<Rightarrow> ingress_state \<Rightarrow> bool" where
  "ingress_own g g' \<longleftrightarrow> ingress_due g g' \<or>
     (\<exists>b. free (gBridge g) b \<and> inner g b \<and> g' = g\<lparr>gBridge := b\<rparr>)"

definition ingress_offer :: "ingress_state \<Rightarrow> ingress_state \<Rightarrow> bool" where
  "ingress_offer g g' \<longleftrightarrow> \<not> locked (gListener g) \<and>
     (\<exists>c. c \<notin> set (handled (gListener g)) \<union> bOpened (gBridge g) \<and> g' = g\<lparr>gListener := Handle (gListener g) c\<rparr>)"

definition ingress_step :: "ingress_state \<Rightarrow> ingress_state \<Rightarrow> bool" where
  "ingress_step g g' \<longleftrightarrow> ingress_own g g' \<or> ingress_offer g g'"

abbreviation ingress_init :: "ingress_state \<Rightarrow> bool" where
  "ingress_init g \<equiv> \<exists>ctx_done. g = ingress_start ctx_done"

abbreviation ingress_reach :: "ingress_state \<Rightarrow> bool" where
  "ingress_reach \<equiv> reach ingress_init ingress_step"

section \<open>What holds between the parts\<close>

fun no_failure :: "serve_phase \<Rightarrow> bool" where
  "no_failure (AcceptFailed e) = False"
| "no_failure (Closing cs e) = (e = None)"
| "no_failure (Waiting e) = (e = None)"
| "no_failure (Returned e) = (e = None)"
| "no_failure _ = True"

definition glue :: "ingress_state \<Rightarrow> bool" where
  "glue g \<longleftrightarrow>
     (let l = gListener g; b = gBridge g in
      (bListening b \<longleftrightarrow> \<not> tclosing l) \<and> (closed_chan l \<longleftrightarrow> tclosing l) \<and>
      set (delivered l) \<subseteq> bOpened b \<and> set (incoming l @ received l) \<inter> bOpened b = {} \<and>
      set (incoming l @ received l) \<subseteq> set (handled l) \<and> distinct (incoming l @ received l) \<and>
      (received l = [] \<or> bPhase b = Accepting \<and> (\<exists>c. received l = [c])) \<and>
      no_failure (bPhase b) \<and>
      (gMain g \<noteq> Bridging \<longrightarrow> returned (bPhase b)) \<and>
      (gMain g = ClosingServer \<or> gMain g = IngressReturned \<longrightarrow> tclosing l \<and> \<not> locked l))"


lemma bstep_no_failure:
  "bstep b b' \<Longrightarrow> no_failure (bPhase b) \<Longrightarrow> (bPhase b = Accepting \<longrightarrow> bPhase b' = Accepting) \<Longrightarrow> no_failure (bPhase b')"
  unfolding bstep_def by (elim disjE forced.cases free.cases) (auto simp: bridge_ops split: if_splits)

lemma glue_inner:
  assumes "glue g" and "bstep (gBridge g) b" and "inner g b"
  shows "glue (g\<lparr>gBridge := b\<rparr>)"
  using assms bstep_frame [OF assms(2)] bstep_no_failure [OF assms(2)]
  by (auto simp: glue_def inner_def Let_def)

lemma glue_offer:
  assumes "glue g" and "ingress_offer g g'"
  shows "glue g'"
proof -
  from assms(2) obtain c where c: "c \<notin> set (handled (gListener g))" "c \<notin> bOpened (gBridge g)"
    and g': "g' = g\<lparr>gListener := Handle (gListener g) c\<rparr>" by (auto simp: ingress_offer_def)
  from assms(1) c(1) have "c \<notin> set (incoming (gListener g) @ received (gListener g))" by (auto simp: glue_def Let_def)
  with assms(1) c show ?thesis
    unfolding g' glue_def Handle_def Let_def by (simp split: if_split) blast
qed

lemma glue_receive:
  assumes "glue g" and "bPhase (gBridge g) = Accepting" and "received (gListener g) = []"
    and "accept_receive (gListener g) = Some l"
  shows "glue (g\<lparr>gListener := l\<rparr>)"
  using assms by (auto simp: glue_def accept_receive_def Let_def split: list.splits)

lemma glue_check:
  assumes "glue g" and "bPhase (gBridge g) = Accepting" and "received (gListener g) = [c]" and "\<not> locked (gListener g)"
  shows "glue (accept_returns c g)"
  using assms by (auto simp: glue_def accept_returns_def accept_check_def Let_def)

lemma glue_drain: "glue g \<Longrightarrow> locked (gListener g) \<Longrightarrow> glue (g\<lparr>gListener := close_drain (gListener g)\<rparr>)"
  by (auto simp: glue_def close_drain_def Let_def split: list.splits)

lemma glue_due: "ingress_due g g' \<Longrightarrow> glue g \<Longrightarrow> glue g'"
proof (induction rule: ingress_due.induct)
  case (due_bridge g b)
  then show ?case by (simp add: glue_inner bstep_def)
qed (simp_all add: glue_receive glue_check glue_drain, simp_all add: glue_def close_once_def close_begin_def Let_def)

lemma glue_step: "glue g \<Longrightarrow> ingress_step g g' \<Longrightarrow> glue g'"
  unfolding ingress_step_def ingress_own_def using glue_due glue_offer glue_inner by (metis bstep_def)

lemma glue_start: "glue (ingress_start ctx_done)"
  by (simp add: glue_def ingress_start_def newTailcatListener_def serve_start_def Let_def)

section \<open>The parts inside the whole\<close>

lemma ingress_start_fields [simp]:
  "gBridge (ingress_start d) = serve_start d True"
  "gListener (ingress_start d) = newTailcatListener"
  by (simp_all add: ingress_start_def)

lemma due_bridge_moves:
  "ingress_due g g' \<Longrightarrow> glue g \<Longrightarrow> bstep (gBridge g) (gBridge g') \<or> gBridge g' = gBridge g"
proof (induction rule: ingress_due.induct)
  case (due_check g c)
  show ?case
  proof (cases "tclosing (gListener g)")
    case True
    with due_check have "forced (gBridge g) ((gBridge g)\<lparr>bPhase := Draining\<rparr>)"
      by (intro accept_closed) (auto simp: glue_def Let_def)
    with True show ?thesis by (simp add: accept_returns_def bstep_def)
  next
    case False
    with due_check have "free (gBridge g) ((gBridge g)\<lparr>bPhase := Accepted c, bOpened := insert c (bOpened (gBridge g))\<rparr>)"
      by (intro accept_client) (auto simp: glue_def Let_def)
    with False show ?thesis by (simp add: accept_returns_def bstep_def)
  qed
next
  case (due_closed g)
  then have "forced (gBridge g) ((gBridge g)\<lparr>bPhase := Draining\<rparr>)"
    by (intro accept_closed) (auto simp: glue_def Let_def)
  then show ?case by (simp add: bstep_def)
next
  case (due_close g)
  show ?case by (simp add: listener_closes)
qed (simp_all add: bstep_def watch_cancel)

lemma due_listener_moves:
  "ingress_due g g' \<Longrightarrow> glue g \<Longrightarrow> tstep (gListener g) (gListener g') \<or> gListener g' = gListener g"
  by (induction rule: ingress_due.induct)
    (simp_all add: step_receive step_check step_close step_drain accept_returns_def close_once_def)

interpretation bridge_part: projection ingress_init ingress_step glue gBridge breachable bstep
proof
  fix g g' assume "glue g" "ingress_step g g'"
  then show "bstep (gBridge g) (gBridge g') \<or> gBridge g' = gBridge g"
    using due_bridge_moves by (auto simp: ingress_step_def ingress_own_def ingress_offer_def bstep_def)
qed (auto intro: glue_start glue_step breachable.intros)

interpretation listener_part: projection ingress_init ingress_step glue gListener treachable tstep
proof
  fix g g' assume "glue g" "ingress_step g g'"
  then show "tstep (gListener g) (gListener g') \<or> gListener g' = gListener g"
    using due_listener_moves step_handle by (auto simp: ingress_step_def ingress_own_def ingress_offer_def)
qed (auto intro: glue_start glue_step treachable.intros)

lemma ingress_parts: "ingress_reach g \<Longrightarrow> glue g \<and> binv (gBridge g) \<and> breachable (gBridge g) \<and> treachable (gListener g)"
  using bridge_part.projects listener_part.projects binv_reachable by blast

section \<open>Winding down\<close>

fun main_weight :: "ingress_phase \<Rightarrow> nat" where
  "main_weight Bridging = 4"
| "main_weight DrainingTCP = 3"
| "main_weight ClosingListener = 2"
| "main_weight ClosingServer = 1"
| "main_weight IngressReturned = 0"

definition gweight :: "ingress_state \<Rightarrow> nat" where
  "gweight g = bweight (gBridge g) + 2 * length (incoming (gListener g)) + length (received (gListener g)) +
     (if locked (gListener g) then 1 else 0) + (if tclosing (gListener g) then 0 else 1) + main_weight (gMain g)"

lemma bweight_fields [simp]:
  "bweight (b\<lparr>bListening := False\<rparr>) + (if bListening b then 1 else 0) = bweight b"
  "bweight (b\<lparr>bWatching := False, bListening := False\<rparr>) + (if bListening b then 1 else 0) + (if bWatching b then 1 else 0) = bweight b"
  by (simp_all add: bweight_def)

lemma due_lighter:
  assumes "ingress_due g g'" and "glue g" and "binv (gBridge g)" and "bCancelled (gBridge g)"
  shows "gweight g' < gweight g"
  using assms
proof (induction rule: ingress_due.induct)
  case (due_receive g l)
  then show ?case by (auto simp: gweight_def accept_receive_def split: list.splits)
next
  case (due_check g c)
  then show ?case by (simp add: gweight_def accept_returns_def accept_check_def bweight_def)
next
  case (due_closed g)
  then show ?case by (simp add: gweight_def bweight_def)
next
  case (due_watch g)
  then show ?case using bweight_fields(2) [of "gBridge g"]
    by (auto simp: gweight_def close_once_def close_begin_def glue_def Let_def)
next
  case (due_drain g)
  then show ?case by (auto simp: gweight_def close_drain_def split: list.splits)
next
  case (due_bridge g b)
  then show ?case using weight_forced by (simp add: gweight_def)
next
  case (due_close g)
  then show ?case using bweight_fields(1) [of "gBridge g"]
    by (auto simp: gweight_def close_once_def close_begin_def glue_def Let_def)
qed (simp_all add: gweight_def)

lemma ingress_progress:
  assumes "glue g" and "binv (gBridge g)" and "bCancelled (gBridge g)" and "gMain g \<noteq> IngressReturned"
  shows "\<exists>g'. ingress_due g g'"
proof (cases "locked (gListener g)")
  case free: False
  show ?thesis
  proof (cases "gMain g")
    case Bridging
    show ?thesis
    proof (cases "bPhase (gBridge g) = Accepting")
      case True
      show ?thesis
      proof (cases "received (gListener g) = []")
        case False
        with assms(1) True free show ?thesis by (auto simp: glue_def Let_def intro: due_check)
      next
        case empty: True
        show ?thesis
        proof (cases "tclosing (gListener g)")
          case False
          with assms(1) have "bListening (gBridge g)" by (auto simp: glue_def Let_def)
          with True assms(2) have "bWatching (gBridge g)" by (simp add: binv_def inv_control_def)
          with assms(3) free show ?thesis by (blast intro: due_watch)
        qed (use assms(1) True empty in \<open>auto simp: glue_def Let_def intro: due_closed\<close>)
      qed
    next
      case False
      show ?thesis
      proof (cases "returned (bPhase (gBridge g))")
        case True
        with Bridging show ?thesis by (blast intro: due_returned)
      next
        case running: False
        then obtain b where b: "forced (gBridge g) b" using bridge_progress assms(2,3) by blast
        then have "bOpened b = bOpened (gBridge g)" by cases (auto simp: bridge_ops split: if_splits)
        show ?thesis
        proof (cases "bListening b = bListening (gBridge g)")
          case True
          with False \<open>bOpened b = _\<close> have "inner g b" by (simp add: inner_def)
          with b show ?thesis by (blast intro: due_bridge)
        next
          case False
          from b this have "bWatching (gBridge g)" by cases (auto simp: bridge_ops split: if_splits)
          with assms(3) free show ?thesis by (blast intro: due_watch)
        qed
      qed
    qed
  qed (use free assms(4) in \<open>blast intro: due_drained due_close due_server due_end\<close>)+
qed (blast intro: due_drain)

definition ingress_inv :: "ingress_state \<Rightarrow> bool" where
  "ingress_inv g \<longleftrightarrow> glue g \<and> binv (gBridge g) \<and> bCancelled (gBridge g)"

lemma ingress_inv_step: "ingress_inv g \<Longrightarrow> ingress_step g g' \<Longrightarrow> ingress_inv g'"
  using glue_step bridge_part.part_moves binv_step cancelled_stays unfolding ingress_inv_def by metis

lemma own_lighter: "ingress_inv g \<Longrightarrow> ingress_own g g' \<Longrightarrow> gweight g' < gweight g"
  using due_lighter [of g g'] bweight_lighter by (auto simp: ingress_own_def ingress_inv_def gweight_def bstep_def)

lemma offer_heavier: "ingress_offer g g' \<Longrightarrow> gweight g' \<le> gweight g + 2"
  by (auto simp: ingress_offer_def gweight_def Handle_def Let_def split: if_splits)

interpretation ingress: winding_down ingress_inv ingress_own ingress_due ingress_offer "\<lambda>g. gMain g = IngressReturned" gweight 2
proof
  show "ingress_due g g' \<Longrightarrow> ingress_own g g'" for g g' by (simp add: ingress_own_def)
  show "ingress_inv g \<Longrightarrow> ingress_own g g' \<Longrightarrow> ingress_inv g'" for g g'
    by (rule ingress_inv_step) (auto simp: ingress_step_def)
  show "ingress_inv g \<Longrightarrow> ingress_offer g g' \<Longrightarrow> ingress_inv g'" for g g'
    by (rule ingress_inv_step) (auto simp: ingress_step_def)
  show "ingress_offer g g' \<Longrightarrow> gweight g' \<le> gweight g + 2" for g g' by (rule offer_heavier)
qed (auto simp: ingress_inv_def intro: own_lighter ingress_progress)

lemma reach_due: "ingress_reach g \<Longrightarrow> ingress_due g g' \<Longrightarrow> ingress_reach g'"
  by (rule reach_step) (auto simp: ingress_step_def ingress_own_def)

lemma reach_offer:
  "ingress_reach g \<Longrightarrow> \<not> locked (gListener g) \<Longrightarrow> c \<notin> set (handled (gListener g)) \<union> bOpened (gBridge g) \<Longrightarrow>
     ingress_reach (g\<lparr>gListener := Handle (gListener g) c\<rparr>)"
  by (rule reach_step) (auto simp: ingress_step_def ingress_offer_def)

section \<open>Properties\<close>

text \<open>C14: the ingress leaves nothing open. In every reachable state in which \<^verbatim>\<open>serveTailcat\<close> has returned, whatever the
  order of Tailcat's callbacks, the goroutines of the bridge and the closing of the listener was, every
  stream that Tailcat ever offered is closed, by the bridge that relayed it or by the listener that
  refused it; every dialled connection is closed; each goroutine of a stream has ended; the bridge has
  returned without an error; and its watcher has ended, or its own end is a step that needs nothing more.\<close>

theorem ingress_no_leak:
  assumes "ingress_reach g" and "gMain g = IngressReturned"
  shows "set (handled (gListener g)) \<subseteq> set (discarded (gListener g)) \<union> bClosed (gBridge g) \<and>
    bOpened (gBridge g) \<subseteq> bClosed (gBridge g) \<and> all_finished (gBridge g) \<and> bPhase (gBridge g) = Returned None \<and>
    (bWatching (gBridge g) \<longrightarrow> (\<exists>u. ingress_due g u \<and> \<not> bWatching (gBridge u)))"
proof -
  let ?l = "gListener g" and ?b = "gBridge g"
  have parts: "glue g" "breachable ?b" "treachable ?l" using ingress_parts [OF assms(1)] by simp_all
  then have ret: "bPhase ?b = Returned None" using assms(2) by (cases "bPhase ?b") (auto simp: glue_def Let_def)
  then have closed: "bOpened ?b \<subseteq> bClosed ?b \<and> all_finished ?b"
    using no_leak_reachable(1) [OF parts(2)] by simp
  have watcher: "\<exists>u. ingress_due g u \<and> \<not> bWatching (gBridge u)" if "bWatching ?b"
    using watch_stop [OF that ret] ret by (intro exI [of _ "g\<lparr>gBridge := ?b\<lparr>bWatching := False\<rparr>\<rparr>"]) (auto simp: inner_def intro: due_bridge)
  have "mset (handled ?l) = mset (incoming ?l) + mset (received ?l) + mset (delivered ?l) + mset (discarded ?l)"
    "incoming ?l = []" "received ?l = []"
    using tinv_reachable [OF parts(3)] parts(1) assms(2) ret by (auto simp: tinv_def glue_def Let_def)
  then have "set (handled ?l) = set (delivered ?l) \<union> set (discarded ?l)" by (metis add_0 mset.simps(1) set_mset_mset set_mset_union)
  with closed ret parts(1) have "set (handled ?l) \<subseteq> set (discarded ?l) \<union> bClosed ?b" by (auto simp: glue_def Let_def)
  with closed ret watcher show ?thesis by simp
qed

text \<open>A run with a stream that the bridge takes and one that comes too late.\<close>

theorem ingress_no_leak_witness:
  "\<exists>g. ingress_reach g \<and> set (handled (gListener g)) = {8, 7} \<and> 8 \<in> set (discarded (gListener g)) \<and>
     7 \<notin> set (discarded (gListener g)) \<and> {7, 8} \<subseteq> set (discarded (gListener g)) \<union> bClosed (gBridge g)"
proof -
  let ?b0 = "serve_start True True" and ?l0 = newTailcatListener
  let ?l1 = "Handle ?l0 7" and ?b1 = "?b0\<lparr>bPhase := Accepted 7, bOpened := {7}\<rparr>"
  let ?l2 = "?l1\<lparr>incoming := [], received := [7]\<rparr>"
  let ?l3 = "accept_check ?l2 7" and ?b2 = "accepted_check 7 ?b1"
  let ?b3 = "?b2\<lparr>bPhase := Returned None\<rparr>" and ?l4 = "Handle ?l3 8"
  let ?l5 = "close_once ?l4" and ?b4 = "?b3\<lparr>bListening := False\<rparr>"
  let ?l6 = "close_drain (close_drain ?l5)"
  note ev = newTailcatListener_def Handle_def tailcatListenerBacklog_def accept_check_def close_once_def close_begin_def
    close_drain_def serve_start_def newConnections_def accepted_check_def all_finished_def inner_def Let_def
  have "ingress_reach \<lparr>gListener = ?l0, gBridge = ?b0, gMain = Bridging\<rparr>"
    by (rule reach_init, rule exI [of _ True]) (simp add: ingress_start_def)
  from reach_offer [OF this, of 7] have "ingress_reach \<lparr>gListener = ?l1, gBridge = ?b0, gMain = Bridging\<rparr>" by (simp add: ev)
  from reach_due [OF this due_receive [where l = ?l2]] have "ingress_reach \<lparr>gListener = ?l2, gBridge = ?b0, gMain = Bridging\<rparr>"
    by (simp add: ev accept_receive_def)
  from reach_due [OF this due_check [where c = 7]] have "ingress_reach \<lparr>gListener = ?l3, gBridge = ?b1, gMain = Bridging\<rparr>"
    by (simp add: ev accept_returns_def)
  from reach_due [OF this due_bridge [where b = ?b2]] have "ingress_reach \<lparr>gListener = ?l3, gBridge = ?b2, gMain = Bridging\<rparr>"
    using check_accepted [of ?b1 7] by (simp add: inner_def) (simp add: ev)
  from reach_due [OF this due_bridge [where b = ?b3]] have "ingress_reach \<lparr>gListener = ?l3, gBridge = ?b3, gMain = Bridging\<rparr>"
    using all_drained [of ?b2] by (simp add: ev)
  from reach_offer [OF this, of 8] have "ingress_reach \<lparr>gListener = ?l4, gBridge = ?b3, gMain = Bridging\<rparr>" by (simp add: ev)
  from reach_due [OF this due_returned] have "ingress_reach \<lparr>gListener = ?l4, gBridge = ?b3, gMain = DrainingTCP\<rparr>" by simp
  from reach_due [OF this due_drained] have "ingress_reach \<lparr>gListener = ?l4, gBridge = ?b3, gMain = ClosingListener\<rparr>" by simp
  from reach_due [OF this due_close] have "ingress_reach \<lparr>gListener = ?l5, gBridge = ?b4, gMain = ClosingListener\<rparr>" by (simp add: ev)
  from reach_due [OF this due_drain] have "ingress_reach \<lparr>gListener = close_drain ?l5, gBridge = ?b4, gMain = ClosingListener\<rparr>"
    by (simp add: ev)
  from reach_due [OF this due_drain] have "ingress_reach \<lparr>gListener = ?l6, gBridge = ?b4, gMain = ClosingListener\<rparr>"
    by (simp add: ev)
  from reach_due [OF this due_server] have "ingress_reach \<lparr>gListener = ?l6, gBridge = ?b4, gMain = ClosingServer\<rparr>" by (simp add: ev)
  from reach_due [OF this due_end] have r: "ingress_reach \<lparr>gListener = ?l6, gBridge = ?b4, gMain = IngressReturned\<rparr>" by simp
  from ingress_no_leak [OF r] r show ?thesis by (intro exI [of _ "\<lparr>gListener = ?l6, gBridge = ?b4, gMain = IngressReturned\<rparr>"]) (simp add: ev)
qed

text \<open>C15: after a cancellation the ingress comes to an end. From every reachable state with a cancelled context, a
  run of the ingress itself is bounded by \<open>gweight\<close> and two steps for each stream that Tailcat still offers;
  as long as \<^verbatim>\<open>serveTailcat\<close> has not returned, a step is due that needs nothing from outside; so it returns.
  The drain of the Tailcat server is assumed to end with its timeout.\<close>

theorem ingress_terminates:
  assumes "ingress_reach g" and "bCancelled (gBridge g)"
  shows "(run_counted ingress_own ingress_offer n k g g' \<longrightarrow>
      n \<le> gweight g + 2 * k \<and> (gMain g' = IngressReturned \<or> (\<exists>u. ingress_due g' u))) \<and>
    (\<exists>m u. (ingress_due ^^ m) g u \<and> gMain u = IngressReturned)"
  using ingress_parts [OF assms(1)] assms(2) by (intro ingress.winds_down) (simp add: ingress_inv_def)

theorem ingress_terminates_witness:
  "(\<exists>m u. (ingress_due ^^ m) (ingress_start True) u \<and> gMain u = IngressReturned) \<and> gweight (ingress_start True) = 12"
proof -
  have "ingress_reach (ingress_start True)" by (rule reach_init) blast
  from ingress_terminates [OF this, of 0 0] show ?thesis
    by (simp add: serve_start_def) (simp add: gweight_def bweight_def newConnections_def newTailcatListener_def ingress_start_def serve_start_def)
qed

end
