(* ===== verification/Pairing.thy ===== *)
theory Pairing
  imports Go_Strings "HOL-Library.Word"
begin

text \<open>
  \<^verbatim>\<open>link/tailcat.go\<close> and \<^verbatim>\<open>readPairingLine\<close> of \<^verbatim>\<open>link/tailcat_adapter.go\<close>: the one-line pairing handoff
  and its bounded reader. Whether a text is a Tailcat address is decided by a third-party parser, the
  parameter \<open>valid_addr\<close> of the definitions.
\<close>

section \<open>Pairings\<close>

definition pairingPrefix :: string where
  "pairingPrefix = ''ndlink1''"

record Pairing =
  RemotePort :: "16 word"
  pAddress :: string

definition Encode :: "Pairing \<Rightarrow> string" where
  "Encode p = pairingPrefix @ '':'' @ Itoa (uint (RemotePort p)) @ '':'' @ pAddress p"

datatype pairing_error =
    PairingWhitespace
  | PairingInvalid
  | PairingPort
  | PairingAddress
  | PairingTooLong
  | PairingNoNewline
  | PairingRead string
  | PairingTrailing

definition ParsePairing :: "(string \<Rightarrow> bool) \<Rightarrow> string \<Rightarrow> (pairing_error, Pairing) result" where
  "ParsePairing valid_addr val =
     (if val \<noteq> TrimSpace val then Inl PairingWhitespace
      else (case Split val CHR '':'' of
        [pre, port, address] \<Rightarrow>
          if pre \<noteq> pairingPrefix then Inl PairingInvalid
          else (case ParseUint16 port of
            None \<Rightarrow> Inl PairingPort
          | Some n \<Rightarrow>
              if n = 0 then Inl PairingPort
              else if \<not> valid_addr address then Inl PairingAddress
              else Inr \<lparr>RemotePort = of_int n, pAddress = address\<rparr>)
      | _ \<Rightarrow> Inl PairingInvalid))"

section \<open>Reading one line\<close>

text \<open>
  The input as its \<^verbatim>\<open>Read\<close> calls deliver it: the chunks they return and then end of file or an error.
  \<^verbatim>\<open>bufio.Reader\<close> asks for at most the free space of its buffer; what does not fit stays for the next
  call.
\<close>

datatype input_end = InputEOF | InputError string

record Input =
  chunks :: "string list"
  input_end :: input_end

definition maxPairingLine :: nat where
  "maxPairingLine = 4096"

datatype slice_error = ErrBufferFull | SliceEnd input_end

text \<open>
  \<^verbatim>\<open>ReadSlice('\n')\<close>: the line with its delimiter and what is buffered behind it, or the error with
  everything buffered. \<open>cap\<close> is the size of the buffer and \<open>buf\<close> what is in it. Empty reads are
  skipped, as \<^verbatim>\<open>bufio\<close> does for a bounded number of them.
\<close>

fun read_slice :: "nat \<Rightarrow> string \<Rightarrow> string list \<Rightarrow> input_end \<Rightarrow> (slice_error, string \<times> string) result" where
  "read_slice cap buf [] e =
     (if CHR 0x0A \<in> set buf
      then Inr (takeWhile (\<lambda>c. c \<noteq> CHR 0x0A) buf @ [CHR 0x0A], tl (dropWhile (\<lambda>c. c \<noteq> CHR 0x0A) buf))
      else if cap \<le> length buf then Inl ErrBufferFull
      else Inl (SliceEnd e))"
| "read_slice cap buf (c # cs) e =
     (if CHR 0x0A \<in> set buf
      then Inr (takeWhile (\<lambda>c. c \<noteq> CHR 0x0A) buf @ [CHR 0x0A], tl (dropWhile (\<lambda>c. c \<noteq> CHR 0x0A) buf))
      else if cap \<le> length buf then Inl ErrBufferFull
      else if length buf + length c \<le> cap then read_slice cap (buf @ c) cs e
      else
        (let full = buf @ take (cap - length buf) c in
         if CHR 0x0A \<in> set full
         then Inr (takeWhile (\<lambda>c. c \<noteq> CHR 0x0A) full @ [CHR 0x0A], tl (dropWhile (\<lambda>c. c \<noteq> CHR 0x0A) full))
         else Inl ErrBufferFull))"

definition readPairingLine :: "(string \<Rightarrow> bool) \<Rightarrow> Input \<Rightarrow> (pairing_error, Pairing) result" where
  "readPairingLine valid_addr inp =
     (case read_slice (maxPairingLine + 2) [] (chunks inp) (input_end inp) of
        Inl ErrBufferFull \<Rightarrow> Inl PairingTooLong
      | Inl (SliceEnd e) \<Rightarrow>
          (case e of InputEOF \<Rightarrow> Inl PairingNoNewline | InputError msg \<Rightarrow> Inl (PairingRead msg))
      | Inr (line, buffered) \<Rightarrow>
          if maxPairingLine + 1 < length line then Inl PairingTooLong
          else if buffered \<noteq> [] then Inl PairingTrailing
          else ParsePairing valid_addr (TrimSuffix line [CHR 0x0A]))"

section \<open>Lemmas\<close>

lemma pairing_text_plain:
  assumes "all_digits ds"
  shows "CHR '':'' \<notin> set ds"
  using assms by (auto simp: all_digits_def list_all_iff is_digit_def)

text \<open>An address that can stand in a pairing: no colon, and no blank at its end.\<close>

definition carried :: "string \<Rightarrow> bool" where
  "carried a \<longleftrightarrow> a \<noteq> [] \<and> CHR '':'' \<notin> set a \<and> byte (last a) < 128 \<and> \<not> ascii_space (byte (last a))"

lemma ParsePairing_Encode:
  assumes "RemotePort p \<noteq> 0" and "valid_addr (pAddress p)" and "carried (pAddress p)"
  shows "ParsePairing valid_addr (Encode p) = Inr p"
proof -
  let ?port = "Itoa (uint (RemotePort p))"
  have lt: "uint (RemotePort p) < 65536" using uint_lt2p [of "RemotePort p"] by simp
  have "CHR '':'' \<notin> set ?port" by (intro pairing_text_plain Itoa_digits) simp
  then have split: "Split (Encode p) CHR '':'' = [pairingPrefix, ?port, pAddress p]"
    using assms(3) by (simp add: Encode_def pairingPrefix_def carried_def Split_append_sep)
  have "TrimSpace (Encode p) = Encode p"
    using assms(3) by (intro TrimSpace_bounds) (auto simp: Encode_def pairingPrefix_def ascii_space_def carried_def)
  moreover have "ParseUint16 ?port = Some (uint (RemotePort p))" using lt by (intro ParseUint16_Itoa) simp_all
  moreover have "uint (RemotePort p) \<noteq> 0" using assms(1) by (simp add: uint_0_iff)
  ultimately show ?thesis using assms(2) split by (simp add: ParsePairing_def)
qed

text \<open>A line that fits is found however it is chopped into reads.\<close>

lemma read_slice_line:
  assumes "CHR 0x0A \<notin> set l" and "buf @ concat cs = l @ [CHR 0x0A]" and "length l < cap"
  shows "read_slice cap buf cs e = Inr (l @ [CHR 0x0A], [])"
  using assms(2)
proof (induction cs arbitrary: buf)
  case Nil
  then show ?case using assms(1) by simp
next
  case (Cons c cs)
  have len: "length buf + length c \<le> cap"
    using arg_cong [OF Cons.prems, of length] assms(3) by simp
  show ?case
  proof (cases "CHR 0x0A \<in> set buf")
    case True
    have "buf = l @ [CHR 0x0A]"
    proof -
      from Cons.prems obtain us where "buf @ us = l @ [CHR 0x0A]" by auto
      with True assms(1) show ?thesis
        by (auto simp: append_eq_append_conv2 append_eq_Cons_conv)
    qed
    with assms(1) show ?thesis by simp
  next
    case False
    have "length buf < cap"
    proof (rule ccontr)
      assume n: "\<not> length buf < cap"
      have "length buf + length (concat (c # cs)) = length l + 1"
        using arg_cong [OF Cons.prems, of length] by simp
      with n assms(3) have "concat (c # cs) = []" by (intro length_0_conv [THEN iffD1]) linarith
      then have "buf = l @ [CHR 0x0A]" using Cons.prems by (simp only: append_Nil2)
      with False show False by simp
    qed
    with False len Cons show ?thesis by simp
  qed
qed

lemma newline_last:
  assumes "length b = cap" and "CHR 0x0A \<notin> set (take (cap - 1) b)" and "CHR 0x0A \<in> set b"
  shows "length (takeWhile (\<lambda>c. c \<noteq> CHR 0x0A) b @ [CHR 0x0A]) = cap"
proof -
  obtain xs x where b: "b = xs @ [x]" using assms(3) by (cases b rule: rev_cases) auto
  with assms(1,2) have "CHR 0x0A \<notin> set xs" by auto
  with b assms show ?thesis by auto
qed

lemma read_slice_long:
  assumes "CHR 0x0A \<notin> set (take (cap - 1) (buf @ concat cs))" and "cap \<le> length (buf @ concat cs)"
    and "length buf \<le> cap"
  shows "case read_slice cap buf cs e of
      Inl err \<Rightarrow> err = ErrBufferFull
    | Inr (line, rest) \<Rightarrow> length line = cap"
  using assms
proof (induction cs arbitrary: buf)
  case Nil
  then have "length buf = cap" by simp
  with Nil newline_last [of buf cap] show ?case by simp
next
  case (Cons c cs)
  have full: "length (takeWhile (\<lambda>c. c \<noteq> CHR 0x0A) b @ [CHR 0x0A]) = cap"
    if "length b = cap" "b = take cap (buf @ concat (c # cs))" "CHR 0x0A \<in> set b" for b
  proof (rule newline_last [OF that(1) _ that(3)])
    have "take (cap - 1) b = take (cap - 1) (buf @ concat (c # cs))"
      unfolding that(2) take_take by (simp only: min_absorb1 diff_le_self)
    then show "CHR 0x0A \<notin> set (take (cap - 1) b)" using Cons.prems(1) by metis
  qed
  show ?case
  proof (cases "CHR 0x0A \<in> set buf")
    case True
    have "length buf = cap"
    proof (rule ccontr)
      assume "length buf \<noteq> cap"
      with Cons.prems(3) have "length buf \<le> cap - 1" by simp
      then have "set buf \<subseteq> set (take (cap - 1) (buf @ concat (c # cs)))" by simp
      with True Cons.prems(1) show False by blast
    qed
    with full [of buf] True show ?thesis by simp
  next
    case False
    show ?thesis
    proof (cases "length buf + length c \<le> cap")
      case True
      with False Cons.IH [of "buf @ c"] Cons.prems show ?thesis by simp
    next
      case big: False
      let ?full = "buf @ take (cap - length buf) c"
      have "length ?full = cap" "?full = take cap (buf @ concat (c # cs))"
        using big Cons.prems(3) by simp_all
      with full [of ?full] big False show ?thesis by (simp add: Let_def)
    qed
  qed
qed

lemma digits_no_newline: "all_digits ds \<Longrightarrow> CHR 0x0A \<notin> set ds"
  by (auto simp: all_digits_def list_all_iff is_digit_def)

lemma ParsePairing_Inr: "ParsePairing valid_addr v = Inr p \<Longrightarrow> RemotePort p \<noteq> 0 \<and> valid_addr (pAddress p)"
proof -
  assume "ParsePairing valid_addr v = Inr p"
  then obtain port n where n: "ParseUint16 port = Some n" "n \<noteq> 0" "RemotePort p = of_int n" "valid_addr (pAddress p)"
    by (auto simp: ParsePairing_def split: if_splits list.splits option.splits)
  then have "0 \<le> n" "n < 65536"
    by (auto simp: ParseUint16_def all_digits_def split: if_splits intro: digits_value_nonneg)
  then have "uint (RemotePort p) = n" using n(3) by (simp add: uint_word_of_int take_bit_eq_mod)
  with n show ?thesis by auto
qed

section \<open>Properties\<close>

lemma readPairingLine_Encode:
  assumes "RemotePort p \<noteq> 0" and "valid_addr (pAddress p)" and "carried (pAddress p)" and "CHR 0x0A \<notin> set (pAddress p)"
    and "length (Encode p) \<le> 4096" and "concat (chunks inp) = Encode p @ [CHR 0x0A]"
  shows "readPairingLine valid_addr inp = Inr p"
proof -
  have "CHR 0x0A \<notin> set (Itoa (uint (RemotePort p)))" by (intro digits_no_newline Itoa_digits) simp
  then have "CHR 0x0A \<notin> set (Encode p)" using assms(4) by (simp add: Encode_def pairingPrefix_def)
  then have "read_slice (maxPairingLine + 2) [] (chunks inp) (input_end inp) = Inr (Encode p @ [CHR 0x0A], [])"
    using assms(5,6) by (intro read_slice_line) (simp_all add: maxPairingLine_def)
  then show ?thesis
    using assms ParsePairing_Encode [of p valid_addr]
    by (simp add: readPairingLine_def maxPairingLine_def TrimSuffix_def HasSuffix_def)
qed

text \<open>The pairing handoff round-trips, however the input is chopped into reads. For every pairing
  whose port is not zero and whose address the Tailcat parser accepts, the encoded line is read back as
  that pairing, provided the line fits and the address has no colon, no newline and no blank at its end;
  and whatever is read has a port that is not zero and an accepted address.\<close>

theorem pairing_roundtrip:
  "(RemotePort p \<noteq> 0 \<and> valid_addr (pAddress p) \<and> carried (pAddress p) \<and> CHR 0x0A \<notin> set (pAddress p) \<and>
    length (Encode p) \<le> 4096 \<and> concat (chunks inp) = Encode p @ [CHR 0x0A] \<longrightarrow>
      readPairingLine valid_addr inp = Inr p) \<and>
   (\<forall>q. readPairingLine valid_addr inp = Inr q \<longrightarrow> RemotePort q \<noteq> 0 \<and> valid_addr (pAddress q))"
proof (intro conjI impI allI)
  assume a: "RemotePort p \<noteq> 0 \<and> valid_addr (pAddress p) \<and> carried (pAddress p) \<and> CHR 0x0A \<notin> set (pAddress p) \<and>
    length (Encode p) \<le> 4096 \<and> concat (chunks inp) = Encode p @ [CHR 0x0A]"
  then show "readPairingLine valid_addr inp = Inr p" by (intro readPairingLine_Encode) simp_all
next
  fix q
  assume "readPairingLine valid_addr inp = Inr q"
  then have "\<exists>v. ParsePairing valid_addr v = Inr q"
    by (auto simp: readPairingLine_def split: sum.splits slice_error.splits input_end.splits if_splits)
  then show "RemotePort q \<noteq> 0" "valid_addr (pAddress q)" using ParsePairing_Inr by blast+
qed

theorem pairing_roundtrip_witness:
  "readPairingLine (\<lambda>a. a = ''tc-abc'') \<lparr>chunks = [''ndlink'', ''1:22:tc-a'', [], ''bc'' @ [CHR 0x0A]], input_end = InputEOF\<rparr> =
     Inr \<lparr>RemotePort = 22, pAddress = ''tc-abc''\<rparr>"
  using pairing_roundtrip [of "\<lparr>RemotePort = 22, pAddress = ''tc-abc''\<rparr>" "\<lambda>a. a = ''tc-abc''"
      "\<lparr>chunks = [''ndlink'', ''1:22:tc-a'', [], ''bc'' @ [CHR 0x0A]], input_end = InputEOF\<rparr>"]
  by (simp add: carried_def Encode_def pairingPrefix_def ascii_space_def go_defs go_loops)

text \<open>The handoff is bounded. An input that brings 4098 bytes and no newline among the first 4097
  of them is refused as too long, however it is chopped into reads and whatever follows.\<close>

theorem readPairingLine_bounded:
  assumes "CHR 0x0A \<notin> set (take 4097 (concat (chunks inp)))" and "4098 \<le> length (concat (chunks inp))"
  shows "readPairingLine valid_addr inp = Inl PairingTooLong"
proof -
  have "case read_slice 4098 [] (chunks inp) (input_end inp) of
      Inl err \<Rightarrow> err = ErrBufferFull | Inr (line, rest) \<Rightarrow> length line = 4098"
    using assms by (intro read_slice_long) simp_all
  then show ?thesis
    by (auto simp: readPairingLine_def maxPairingLine_def split: sum.splits)
qed

theorem readPairingLine_bounded_witness:
  "readPairingLine (\<lambda>_. True) \<lparr>chunks = [replicate 4098 CHR ''a''], input_end = InputEOF\<rparr> = Inl PairingTooLong"
  by (rule readPairingLine_bounded) (simp_all add: take_replicate)

end
