(* ===== verification/Tailcat_Adapter.thy ===== *)
theory Tailcat_Adapter
  imports Pairing Registry
begin

text \<open>
  The rest of \<^verbatim>\<open>link/tailcat_adapter.go\<close>: \<^verbatim>\<open>ReadPairing\<close>, the dialer that reuses one tunnel, and the start
  and end of the Tailcat ingress. The Tailcat client and server, the pairing output and the bridge are
  outside; what they do and return are parameters.
\<close>

section \<open>Reading a pairing\<close>

datatype read_pairing_error = PairingInputRequired | PairingContext string | PairingFailed pairing_error

text \<open>\<open>reader_first\<close> tells which channel the \<^verbatim>\<open>select\<close> takes, \<open>ctx_err\<close> what \<^verbatim>\<open>ctx.Err()\<close> returns after it; a
  context whose channel was taken has an error, \<open>done_err\<close>. The second result says whether the input was
  closed.\<close>

definition ReadPairing ::
    "(string \<Rightarrow> bool) \<Rightarrow> Input option \<Rightarrow> bool \<Rightarrow> string option \<Rightarrow> string \<Rightarrow> (read_pairing_error, Pairing) result \<times> bool" where
  "ReadPairing valid_addr input reader_first ctx_err done_err =
     (case input of
        None \<Rightarrow> (Inl PairingInputRequired, False)
      | Some inp \<Rightarrow>
          if reader_first then
            (case ctx_err of
               Some e \<Rightarrow> (Inl (PairingContext e), True)
             | None \<Rightarrow> (map_error PairingFailed (readPairingLine valid_addr inp), True))
          else (Inl (PairingContext done_err), True))"

section \<open>The dialer\<close>

record 's tailcatClient =
  DialTCPPort :: "16 word \<Rightarrow> 's \<Rightarrow> 's \<times> (string, conn) result"
  DrainTCP :: "'s \<Rightarrow> 's \<times> string option"
  CloseClient :: "'s \<Rightarrow> 's \<times> string option"

record 's TailcatDialer =
  dClient :: "'s tailcatClient"
  dPort :: "16 word"
  dClosed :: bool
  closeOnce :: bool
  closeErr :: "string list"

datatype dialer_error = InvalidLinkPairing | ClientFactoryRequired | ClientFactoryNil

definition newTailcatDialer ::
    "(string \<Rightarrow> bool) \<Rightarrow> (string \<Rightarrow> 's tailcatClient option) option \<Rightarrow> Pairing \<Rightarrow> (dialer_error, 's TailcatDialer) result" where
  "newTailcatDialer valid_addr factory p =
     (if RemotePort p = 0 \<or> \<not> valid_addr (pAddress p) then Inl InvalidLinkPairing
      else (case factory of
        None \<Rightarrow> Inl ClientFactoryRequired
      | Some f \<Rightarrow>
          (case f (pAddress p) of
             None \<Rightarrow> Inl ClientFactoryNil
           | Some client \<Rightarrow>
               Inr \<lparr>dClient = client, dPort = RemotePort p, dClosed = False, closeOnce = False, closeErr = []\<rparr>)))"

datatype dial_error = DialerNotInitialized | DialerClosed | DialFailed string

text \<open>A dialer that is nil or has no client is \<open>None\<close>.\<close>

definition Dial :: "'s TailcatDialer option \<Rightarrow> 's \<Rightarrow> 's \<times> (dial_error, conn) result" where
  "Dial dialer s =
     (case dialer of
        None \<Rightarrow> (s, Inl DialerNotInitialized)
      | Some d \<Rightarrow>
          if dClosed d then (s, Inl DialerClosed)
          else (case DialTCPPort (dClient d) (dPort d) s of (s', r) \<Rightarrow> (s', map_error DialFailed r)))"

definition errors_Join :: "'e option list \<Rightarrow> 'e list" where
  "errors_Join es = map the (filter (\<lambda>e. e \<noteq> None) es)"

definition CloseDialer :: "'s TailcatDialer \<Rightarrow> 's \<Rightarrow> 's TailcatDialer \<times> 's \<times> string list" where
  "CloseDialer d s =
     (if closeOnce d then (d, s, closeErr d)
      else (case DrainTCP (dClient d) s of
        (s1, e1) \<Rightarrow>
          (case CloseClient (dClient d) s1 of
             (s2, e2) \<Rightarrow>
               (let err = errors_Join [e1, e2] in
                (d\<lparr>dClosed := True, closeOnce := True, closeErr := err\<rparr>, s2, err)))))"

section \<open>The ingress\<close>

datatype drain_failure = DeadlineExceeded | DrainFailed string

datatype ingress_error =
    ListenPortRequired
  | IngressDialerRequired
  | PairingOutputRequired
  | IngressDrain
  | ServerFactoryRequired
  | ServerFactoryNil
  | StartFailed string
  | ServerCloseFailed string
  | StartCancelled string
  | InvalidServerAddress
  | WritePairing string
  | WriteShort
  | BridgeFailed string
  | DrainTCPFailed string

datatype ingress_event =
    StartServer
  | CloseServer
  | CloseServerLater
  | WriteLine string
  | RunBridge
  | DrainServer
  | CloseListener

text \<open>What the outside does: which channel \<^verbatim>\<open>startTailcatServer\<close> takes and the results of the calls.\<close>

record ingress_env =
  start_first :: bool
  start_result :: "string option"
  start_ctx_err :: string
  close_result :: "string option"
  server_address :: string
  write_result :: "nat \<times> string option"
  bridge_result :: "string option"
  drain_result :: "drain_failure option"

definition startTailcatServer :: "ingress_env \<Rightarrow> ingress_error list \<times> ingress_event list" where
  "startTailcatServer env =
     (if start_first env then
        (case start_result env of
           Some e \<Rightarrow> (errors_Join [Some (StartFailed e), map_option ServerCloseFailed (close_result env)], [StartServer, CloseServer])
         | None \<Rightarrow> ([], [StartServer]))
      else ([StartCancelled (start_ctx_err env)], [StartServer, CloseServerLater]))"

text \<open>The deferred calls: the listener is closed first, the server last, and its error joined.\<close>

definition ingress_end :: "ingress_env \<Rightarrow> ingress_error list \<times> ingress_event list \<Rightarrow> ingress_error list \<times> ingress_event list" where
  "ingress_end env = (\<lambda>(errs, log).
     (errs @ errors_Join [map_option ServerCloseFailed (close_result env)], log @ [CloseListener, CloseServer]))"

definition announce_and_serve :: "(string \<Rightarrow> bool) \<Rightarrow> 16 word \<Rightarrow> ingress_env \<Rightarrow> ingress_error list \<times> ingress_event list" where
  "announce_and_serve valid_addr port env =
     (if \<not> valid_addr (server_address env) then ([InvalidServerAddress], [])
      else
        (let line = Encode \<lparr>RemotePort = port, pAddress = server_address env\<rparr> @ [CHR 0x0A] in
         case write_result env of
           (written, Some e) \<Rightarrow> ([WritePairing e], [WriteLine line])
         | (written, None) \<Rightarrow>
             if written \<noteq> length line then ([WriteShort], [WriteLine line])
             else
               (errors_Join [map_option BridgeFailed (bridge_result env),
                  (case drain_result env of Some (DrainFailed e) \<Rightarrow> Some (DrainTCPFailed e) | _ \<Rightarrow> None)],
                [WriteLine line, RunBridge, DrainServer])))"

text \<open>The arguments that may be missing are given by whether they are there; \<open>server_made\<close> is whether the factory
  returns a server.\<close>

definition serveTailcat ::
    "(string \<Rightarrow> bool) \<Rightarrow> 16 word \<Rightarrow> bool \<Rightarrow> bool \<Rightarrow> int \<Rightarrow> bool \<Rightarrow> bool \<Rightarrow> ingress_env \<Rightarrow>
       ingress_error list \<times> ingress_event list" where
  "serveTailcat valid_addr port dial output drain factory server_made env =
     (if port = 0 then ([ListenPortRequired], [])
      else if \<not> dial then ([IngressDialerRequired], [])
      else if \<not> output then ([PairingOutputRequired], [])
      else if drain \<le> 0 then ([IngressDrain], [])
      else if \<not> factory then ([ServerFactoryRequired], [])
      else if \<not> server_made then ([ServerFactoryNil], [])
      else (case startTailcatServer env of
        (e # es, log) \<Rightarrow> (e # es, log @ [CloseListener])
      | ([], log) \<Rightarrow>
          (case ingress_end env (announce_and_serve valid_addr port env) of (errs, log') \<Rightarrow> (errs, log @ log'))))"

text \<open>The callback of the production server: only the port it was started for has a handler.\<close>

definition OnTCP :: "16 word \<Rightarrow> 'h \<Rightarrow> 16 word \<Rightarrow> 'h option" where
  "OnTCP port handler requested = (if requested \<noteq> port then None else Some handler)"

section \<open>Lemmas\<close>

lemma errors_Join_simps [simp]:
  "errors_Join [] = []"
  "errors_Join (Some e # es) = e # errors_Join es"
  "errors_Join (None # es) = errors_Join es"
  by (simp_all add: errors_Join_def)

lemma startTailcatServer_log:
  "startTailcatServer env = (errs, log) \<Longrightarrow>
     log = (if errs = [] then [StartServer] else if start_first env then [StartServer, CloseServer]
       else [StartServer, CloseServerLater])"
  by (auto simp: startTailcatServer_def split: option.splits if_splits)

lemma announce_log:
  assumes "announce_and_serve valid_addr port env = (errs, log)"
  shows "CloseServer \<notin> set log \<and> CloseServerLater \<notin> set log \<and> CloseListener \<notin> set log \<and> StartServer \<notin> set log \<and>
    (\<forall>l. WriteLine l \<in> set log \<longrightarrow> valid_addr (server_address env) \<and>
       l = Encode \<lparr>RemotePort = port, pAddress = server_address env\<rparr> @ [CHR 0x0A]) \<and>
    (RunBridge \<in> set log \<longrightarrow> (\<exists>l. log = [WriteLine l, RunBridge, DrainServer] \<and> write_result env = (length l, None)))"
  using assms by (auto simp: announce_and_serve_def Let_def split: prod.splits option.splits if_splits)

section \<open>The dialer over time\<close>

datatype dialer_op = OpDial | OpClose

fun dialer_run :: "dialer_op list \<Rightarrow> 's TailcatDialer \<Rightarrow> 's \<Rightarrow> 's TailcatDialer \<times> 's" where
  "dialer_run [] d s = (d, s)"
| "dialer_run (OpDial # ops) d s = dialer_run ops d (fst (Dial (Some d) s))"
| "dialer_run (OpClose # ops) d s = (case CloseDialer d s of (d', s', _) \<Rightarrow> dialer_run ops d' s')"

lemma dialer_run_closed: "dClosed d \<Longrightarrow> closeOnce d \<Longrightarrow> dialer_run ops d s = (d, s)"
proof (induction ops)
  case (Cons op ops)
  then show ?case by (cases op) (simp_all add: Dial_def CloseDialer_def)
qed simp

lemma dialer_run_append:
  "dialer_run (xs @ ys) d s = (case dialer_run xs d s of (d', s') \<Rightarrow> dialer_run ys d' s')"
proof (induction xs arbitrary: d s)
  case (Cons op xs)
  then show ?case by (cases op) (auto split: prod.splits)
qed simp

lemma dialer_run_dials:
  "\<not> dClosed d \<Longrightarrow> OpClose \<notin> set ops \<Longrightarrow>
     dialer_run ops d s = (d, ((\<lambda>w. fst (DialTCPPort (dClient d) (dPort d) w)) ^^ length ops) s)"
proof (induction ops arbitrary: s)
  case (Cons op ops)
  then show ?case by (cases op) (auto simp: Dial_def funpow_Suc_right simp del: funpow.simps(2) split: prod.splits)
qed simp

section \<open>Properties\<close>

text \<open>The dialer uses its tunnel for its port and lets go of it once. For a dialer made from a pairing, any
  sequence of dials and closes has the effect of the dials before the first close, each to the port of
  the pairing, followed by one drain and one close of the client; from then on dials fail without any
  effect, and closing again only reports the first error once more.\<close>

theorem TailcatDialer_lifecycle:
  assumes "newTailcatDialer valid_addr (Some factory) p = Inr d" and "dialer_run ops d s = (d', s')"
  shows "\<exists>client. factory (pAddress p) = Some client \<and> RemotePort p \<noteq> 0 \<and> valid_addr (pAddress p) \<and>
    (let dials = ((\<lambda>w. fst (DialTCPPort client (RemotePort p) w)) ^^ length (takeWhile (\<lambda>op. op \<noteq> OpClose) ops)) s in
     if OpClose \<in> set ops
     then s' = fst (CloseClient client (fst (DrainTCP client dials))) \<and>
       Dial (Some d') w = (w, Inl DialerClosed) \<and> CloseDialer d' w = (d', w, closeErr d')
     else s' = dials \<and> d' = d)"
proof -
  from assms(1) obtain client where c: "factory (pAddress p) = Some client" "RemotePort p \<noteq> 0" "valid_addr (pAddress p)"
    and d: "d = \<lparr>dClient = client, dPort = RemotePort p, dClosed = False, closeOnce = False, closeErr = []\<rparr>"
    by (auto simp: newTailcatDialer_def split: if_splits option.splits)
  let ?pre = "takeWhile (\<lambda>op. op \<noteq> OpClose) ops"
  let ?dials = "((\<lambda>w. fst (DialTCPPort client (RemotePort p) w)) ^^ length ?pre) s"
  have "OpClose \<notin> set ?pre" by (auto dest: set_takeWhileD)
  then have pre: "dialer_run ?pre d s = (d, ?dials)" using dialer_run_dials [of d ?pre s] by (simp add: d)
  show ?thesis
  proof (cases "OpClose \<in> set ops")
    case False
    then have "?pre = ops" by (auto intro: takeWhile_eq_all_conv [THEN iffD2])
    with assms(2) pre c False show ?thesis by (auto simp: Let_def)
  next
    case True
    then obtain post where "dropWhile (\<lambda>op. op \<noteq> OpClose) ops = OpClose # post" using dropWhile_neq_in by metis
    then have ops: "ops = ?pre @ OpClose # post" by (metis takeWhile_dropWhile_id)
    obtain d1 s1 e where cl: "CloseDialer d ?dials = (d1, s1, e)" by (rule prod_cases3)
    then have d1: "dClosed d1" "closeOnce d1" and s1: "s1 = fst (CloseClient client (fst (DrainTCP client ?dials)))"
      by (auto simp: CloseDialer_def d Let_def split: prod.splits)
    have "dialer_run ops d s = dialer_run post d1 s1"
      by (subst ops) (simp only: dialer_run_append pre prod.case dialer_run.simps cl)
    with assms(2) dialer_run_closed [OF d1] have "d' = d1" "s' = s1" by simp_all
    with d1 s1 c True show ?thesis by (auto simp: Let_def Dial_def CloseDialer_def)
  qed
qed

text \<open>A client that records what is done with it.\<close>

definition log_tunnel :: "string list tailcatClient" where
  "log_tunnel = \<lparr>DialTCPPort = (\<lambda>port w. (''dial'' # w, Inr (length w))), DrainTCP = (\<lambda>w. (''drain'' # w, Some ''slow'')),
     CloseClient = (\<lambda>w. (''close'' # w, None))\<rparr>"

theorem TailcatDialer_lifecycle_witness:
  "\<exists>d. newTailcatDialer (\<lambda>_. True) (Some (\<lambda>_. Some log_tunnel)) \<lparr>RemotePort = 22, pAddress = ''tc-abc''\<rparr> = Inr d \<and>
     snd (dialer_run [OpDial, OpClose, OpDial, OpClose] d []) = [''close'', ''drain'', ''dial'']"
proof -
  obtain d where d: "newTailcatDialer (\<lambda>_. True) (Some (\<lambda>_. Some log_tunnel)) \<lparr>RemotePort = 22, pAddress = ''tc-abc''\<rparr> = Inr d"
    by (simp add: newTailcatDialer_def)
  obtain d' s' where run: "dialer_run [OpDial, OpClose, OpDial, OpClose] d [] = (d', s')" by (rule prod.exhaust)
  from TailcatDialer_lifecycle [OF d run, of "[]"] have "s' = [''close'', ''drain'', ''dial'']"
    by (simp add: Let_def log_tunnel_def)
  with d run show ?thesis by simp
qed

text \<open>The ways through \<^verbatim>\<open>serveTailcat\<close>.\<close>

lemma serveTailcat_cases:
  assumes "serveTailcat valid_addr port dial output drain factory server_made env = (errs, log)"
  obtains (refused) "log = []" "errs \<noteq> []"
    | (not_started) "log = [StartServer, CloseServer, CloseListener] \<or> log = [StartServer, CloseServerLater, CloseListener]"
    | (started) es l where "port \<noteq> 0" "announce_and_serve valid_addr port env = (es, l)"
        "log = StartServer # l @ [CloseListener, CloseServer]"
proof (cases "port = 0 \<or> \<not> dial \<or> \<not> output \<or> drain \<le> 0 \<or> \<not> factory \<or> \<not> server_made")
  case True
  with assms that(1) show ?thesis by (auto simp: serveTailcat_def split: if_splits)
next
  case False
  obtain es0 l0 where st: "startTailcatServer env = (es0, l0)" by (rule prod.exhaust)
  obtain es l where an: "announce_and_serve valid_addr port env = (es, l)" by (rule prod.exhaust)
  show ?thesis
  proof (cases es0)
    case Nil
    with False assms st an startTailcatServer_log [OF st] that(3) [OF _ an] show ?thesis
      by (auto simp: serveTailcat_def ingress_end_def)
  next
    case (Cons e es1)
    with False assms st startTailcatServer_log [OF st] that(2) show ?thesis
      by (auto simp: serveTailcat_def split: if_splits)
  qed
qed

text \<open>C39: the ingress announces itself truly and cleans up. Once the server has been asked to start, it is closed
  exactly once and so is the listener, on every path; the bridge runs only after the whole pairing line was
  written; what is written is the pairing of this port and of an address the Tailcat parser accepts, and
  a peer that receives the line, in whatever pieces, reads exactly that pairing.\<close>

theorem serveTailcat_owns_server:
  assumes "serveTailcat valid_addr port dial output drain factory server_made env = (errs, log)"
  shows "(if StartServer \<in> set log
      then count_list log CloseServer + count_list log CloseServerLater = 1 \<and> count_list log CloseListener = 1
      else log = [] \<and> errs \<noteq> []) \<and>
    (RunBridge \<in> set log \<longrightarrow>
      (\<exists>l. log = [StartServer, WriteLine l, RunBridge, DrainServer, CloseListener, CloseServer] \<and>
         write_result env = (length l, None))) \<and>
    (\<forall>l inp. WriteLine l \<in> set log \<and> concat (chunks inp) = l \<and> length l \<le> 4097 \<and>
       carried (server_address env) \<and> CHR 0x0A \<notin> set (server_address env) \<longrightarrow>
       readPairingLine valid_addr inp = Inr \<lparr>RemotePort = port, pAddress = server_address env\<rparr>)"
  using assms
proof (cases rule: serveTailcat_cases)
  case refused
  then show ?thesis by simp
next
  case not_started
  then show ?thesis by auto
next
  case (started es l)
  note log = announce_log [OF started(2)]
  have zero: "count_list l CloseServer = 0" "count_list l CloseServerLater = 0" "count_list l CloseListener = 0"
    using log by (simp_all add: count_list_0_iff)
  have read: "readPairingLine valid_addr inp = Inr \<lparr>RemotePort = port, pAddress = server_address env\<rparr>"
    if "WriteLine (concat (chunks inp)) \<in> set log" "length (concat (chunks inp)) \<le> 4097" "carried (server_address env)"
      "CHR 0x0A \<notin> set (server_address env)" for inp
  proof -
    from that(1) started(3) have "WriteLine (concat (chunks inp)) \<in> set l" by simp
    with log that show ?thesis using started(1) by (intro readPairingLine_Encode) auto
  qed
  show ?thesis using started(3) log zero read by auto
qed

abbreviation quiet_ingress :: ingress_env where
  "quiet_ingress \<equiv> \<lparr>start_first = True, start_result = None, start_ctx_err = [], close_result = None, server_address = ''tc-abc'',
     write_result = (18, None), bridge_result = None, drain_result = Some DeadlineExceeded\<rparr>"

theorem serveTailcat_owns_server_witness:
  "case serveTailcat (\<lambda>_. True) 22 True True 5 True True quiet_ingress of (errs, log) \<Rightarrow>
     StartServer \<in> set log \<and> count_list log CloseServer + count_list log CloseServerLater = 1 \<and> count_list log CloseListener = 1"
proof -
  obtain errs log where run: "serveTailcat (\<lambda>_. True) 22 True True 5 True True quiet_ingress = (errs, log)"
    by (rule prod.exhaust)
  then have "StartServer \<in> set log"
    by (auto simp: serveTailcat_def startTailcatServer_def ingress_end_def split: prod.splits)
  with serveTailcat_owns_server [OF run] show ?thesis unfolding run by simp
qed

end
