(* ===== verification/Socks5.thy ===== *)
theory Socks5
  imports Go_Net
begin

text \<open>
  \<^verbatim>\<open>socks5/socks5.go\<close>: the SOCKS5 wire format. A byte of the wire is a \<open>char\<close>, as in strings; a reader
  is the bytes it will still deliver and the error it then reports. The theorems say exactly which
  byte strings are accepted, that a message is consumed to its last byte and no further, and that
  every read is bounded.
\<close>

section \<open>Readers and writers\<close>

datatype read_error = EOF | ErrUnexpectedEOF | OtherReadError string

record Reader =
  pending :: "char list"
  ending :: read_error

text \<open>\<^verbatim>\<open>io.ReadFull\<close>: \<open>n\<close> bytes, or the error after all that was there has been consumed.\<close>

definition ReadFull :: "Reader \<Rightarrow> nat \<Rightarrow> (read_error, char list) result \<times> Reader" where
  "ReadFull r n =
     (if n \<le> length (pending r) then (Inr (take n (pending r)), r\<lparr>pending := drop n (pending r)\<rparr>)
      else (Inl (if pending r \<noteq> [] \<and> ending r = EOF then ErrUnexpectedEOF else ending r), r\<lparr>pending := []\<rparr>))"

datatype socks_error =
    ReadFailed read_error
  | ErrUnsupportedVersion char
  | ErrNoMethods
  | ErrUnsupportedMethod char
  | ErrUnsupportedCommand char
  | ErrInvalidReservedByte char
  | ErrUnsupportedAddressType char
  | ErrEmptyDomain
  | ErrInvalidDomain
  | ErrInvalidPort
  | ErrUnsupportedReply char
  | ErrShortWrite
  | WriteFailed string
  | WritePanic

definition Version :: char where "Version = CHR 0x05"
definition MethodNoAuth :: char where "MethodNoAuth = CHR 0x00"
definition MethodNoAcceptable :: char where "MethodNoAcceptable = CHR 0xFF"
definition CommandConnect :: char where "CommandConnect = CHR 0x01"
definition AddressIPv4 :: char where "AddressIPv4 = CHR 0x01"
definition AddressDomain :: char where "AddressDomain = CHR 0x03"
definition AddressIPv6 :: char where "AddressIPv6 = CHR 0x04"
definition ReplySucceeded :: char where "ReplySucceeded = CHR 0x00"
definition ReplyGeneralFailure :: char where "ReplyGeneralFailure = CHR 0x01"
definition ReplyConnectionNotAllowed :: char where "ReplyConnectionNotAllowed = CHR 0x02"
definition ReplyNetworkUnreachable :: char where "ReplyNetworkUnreachable = CHR 0x03"
definition ReplyHostUnreachable :: char where "ReplyHostUnreachable = CHR 0x04"
definition ReplyConnectionRefused :: char where "ReplyConnectionRefused = CHR 0x05"
definition ReplyTTLExpired :: char where "ReplyTTLExpired = CHR 0x06"
definition ReplyCommandNotSupported :: char where "ReplyCommandNotSupported = CHR 0x07"
definition ReplyAddressNotSupported :: char where "ReplyAddressNotSupported = CHR 0x08"

lemmas socks_constants = Version_def MethodNoAuth_def MethodNoAcceptable_def CommandConnect_def
  AddressIPv4_def AddressDomain_def AddressIPv6_def ReplyAddressNotSupported_def

section \<open>Greeting\<close>

record Greeting =
  Methods :: "char list"

fun offers_method :: "char list \<Rightarrow> char \<Rightarrow> bool" where
  "offers_method [] m = False"
| "offers_method (x # xs) m = (if x = m then True else offers_method xs m)"

definition Offers :: "Greeting \<Rightarrow> char \<Rightarrow> bool" where
  "Offers g method = offers_method (Methods g) method"

definition ReadGreeting :: "Reader \<Rightarrow> (socks_error, Greeting) result \<times> Reader" where
  "ReadGreeting reader =
     (case ReadFull reader 2 of
        (Inl e, r) \<Rightarrow> (Inl (ReadFailed e), r)
      | (Inr header, r) \<Rightarrow>
          if header ! 0 \<noteq> Version then (Inl (ErrUnsupportedVersion (header ! 0)), r)
          else if header ! 1 = CHR 0x00 then (Inl ErrNoMethods, r)
          else (case ReadFull r (byte (header ! 1)) of
            (Inl e, r') \<Rightarrow> (Inl (ReadFailed e), r')
          | (Inr methods, r') \<Rightarrow> (Inr \<lparr>Methods = methods\<rparr>, r')))"

definition SelectNoAuth :: "Greeting \<Rightarrow> char" where
  "SelectNoAuth greeting = (if Offers greeting MethodNoAuth then MethodNoAuth else MethodNoAcceptable)"

section \<open>Request\<close>

record SocksRequest =
  Command :: char
  rqHost :: string
  rqPort :: "16 word"

text \<open>The loop of \<^verbatim>\<open>validDomain\<close> at position \<open>i\<close>, with the rest of the domain from there.\<close>

fun validDomain_loop :: "char list \<Rightarrow> nat \<Rightarrow> nat \<Rightarrow> char list \<Rightarrow> bool" where
  "validDomain_loop domain i labelStart [] = True"
| "validDomain_loop domain i labelStart (c # cs) =
     (if c = CHR ''.'' then
        (if i = labelStart \<or> domain ! (i - 1) = CHR ''-'' then False
         else validDomain_loop domain (i + 1) (i + 1) cs)
      else if c = CHR ''-'' then
        (if i = labelStart then False else validDomain_loop domain (i + 1) labelStart cs)
      else if (byte c < 97 \<or> 122 < byte c) \<and> (byte c < 65 \<or> 90 < byte c) \<and> (byte c < 48 \<or> 57 < byte c)
      then False
      else validDomain_loop domain (i + 1) labelStart cs)"

definition validDomain :: "char list \<Rightarrow> bool" where
  "validDomain domain =
     (if domain = [] \<or> hd domain = CHR ''.'' \<or> last domain = CHR ''.'' then False
      else validDomain_loop domain 0 0 domain)"

definition readAddress :: "Reader \<Rightarrow> char \<Rightarrow> (socks_error, string) result \<times> Reader" where
  "readAddress reader addressType =
     (if addressType = AddressIPv4 then
        (case ReadFull reader 4 of
           (Inl e, r) \<Rightarrow> (Inl (ReadFailed e), r)
         | (Inr wire, r) \<Rightarrow> (Inr (AddrString (AddrFrom4 (map of_char wire))), r))
      else if addressType = AddressIPv6 then
        (case ReadFull reader 16 of
           (Inl e, r) \<Rightarrow> (Inl (ReadFailed e), r)
         | (Inr wire, r) \<Rightarrow> (Inr (AddrString (AddrFrom16 (map of_char wire))), r))
      else if addressType = AddressDomain then
        (case ReadFull reader 1 of
           (Inl e, r) \<Rightarrow> (Inl (ReadFailed e), r)
         | (Inr len, r) \<Rightarrow>
             if len ! 0 = CHR 0x00 then (Inl ErrEmptyDomain, r)
             else (case ReadFull r (byte (len ! 0)) of
               (Inl e, r') \<Rightarrow> (Inl (ReadFailed e), r')
             | (Inr wire, r') \<Rightarrow>
                 if \<not> validDomain wire then (Inl ErrInvalidDomain, r') else (Inr wire, r')))
      else (Inl (ErrUnsupportedAddressType addressType), reader))"

text \<open>\<^verbatim>\<open>binary.BigEndian.Uint16\<close>.\<close>

definition Uint16 :: "char \<Rightarrow> char \<Rightarrow> 16 word" where
  "Uint16 hi lo = of_nat (byte lo) OR push_bit 8 (of_nat (byte hi))"

definition ReadRequest :: "Reader \<Rightarrow> (socks_error, SocksRequest) result \<times> Reader" where
  "ReadRequest reader =
     (case ReadFull reader 4 of
        (Inl e, r) \<Rightarrow> (Inl (ReadFailed e), r)
      | (Inr header, r) \<Rightarrow>
          if header ! 0 \<noteq> Version then (Inl (ErrUnsupportedVersion (header ! 0)), r)
          else if header ! 1 \<noteq> CommandConnect then (Inl (ErrUnsupportedCommand (header ! 1)), r)
          else if header ! 2 \<noteq> CHR 0x00 then (Inl (ErrInvalidReservedByte (header ! 2)), r)
          else (case readAddress r (header ! 3) of
            (Inl e, r') \<Rightarrow> (Inl e, r')
          | (Inr host, r') \<Rightarrow>
              (case ReadFull r' 2 of
                 (Inl e, r'') \<Rightarrow> (Inl (ReadFailed e), r'')
               | (Inr portWire, r'') \<Rightarrow>
                   (let port = Uint16 (portWire ! 0) (portWire ! 1) in
                    if port = 0 then (Inl ErrInvalidPort, r'')
                    else (Inr \<lparr>Command = CommandConnect, rqHost = host, rqPort = port\<rparr>, r'')))))"

section \<open>Replies\<close>

text \<open>
  \<^verbatim>\<open>writeAll\<close>. The writer is a function on its own state that reports how many bytes it took and an
  error; reporting more than it was given makes the slice expression panic.
\<close>

function writeAll ::
    "('s \<Rightarrow> char list \<Rightarrow> 's \<times> nat \<times> string option) \<Rightarrow> 's \<Rightarrow> char list \<Rightarrow> socks_error option \<times> 's" where
  "writeAll put s bytes =
     (if bytes = [] then (None, s)
      else (case put s bytes of (s', written, err) \<Rightarrow>
        (case err of
           Some e \<Rightarrow> (Some (WriteFailed e), s')
         | None \<Rightarrow>
             if written = 0 then (Some ErrShortWrite, s')
             else if length bytes < written then (Some WritePanic, s')
             else writeAll put s' (drop written bytes))))"
  by pat_completeness auto
termination
  by (relation "measure (\<lambda>(put, s, bytes). length bytes)") auto

declare writeAll.simps [simp del]

definition WriteMethod ::
    "('s \<Rightarrow> char list \<Rightarrow> 's \<times> nat \<times> string option) \<Rightarrow> 's \<Rightarrow> char \<Rightarrow> socks_error option \<times> 's" where
  "WriteMethod put s method =
     (if method \<noteq> MethodNoAuth \<and> method \<noteq> MethodNoAcceptable then (Some (ErrUnsupportedMethod method), s)
      else writeAll put s [Version, method])"

definition validReply :: "char \<Rightarrow> bool" where
  "validReply reply \<longleftrightarrow> byte reply \<le> byte ReplyAddressNotSupported"

definition reply_bytes :: "char \<Rightarrow> char list" where
  "reply_bytes reply =
     [Version, reply, CHR 0x00, AddressIPv4, CHR 0x00, CHR 0x00, CHR 0x00, CHR 0x00, CHR 0x00, CHR 0x00]"

definition WriteReply ::
    "('s \<Rightarrow> char list \<Rightarrow> 's \<times> nat \<times> string option) \<Rightarrow> 's \<Rightarrow> char \<Rightarrow> socks_error option \<times> 's" where
  "WriteReply put s reply =
     (if \<not> validReply reply then (Some (ErrUnsupportedReply reply), s)
      else writeAll put s (reply_bytes reply))"

section \<open>Lemmas\<close>

lemma ReadFull_Inr:
  "ReadFull r n = (Inr bs, r') \<longleftrightarrow>
     pending r = bs @ pending r' \<and> length bs = n \<and> ending r' = ending r"
  by (cases r; cases r') (auto simp: ReadFull_def)

text \<open>Every read takes a prefix of what is pending, of at most the asked length.\<close>

definition reads :: "Reader \<Rightarrow> nat \<Rightarrow> Reader \<Rightarrow> bool" where
  "reads r n r' \<longleftrightarrow>
     (\<exists>bs. pending r = bs @ pending r' \<and> length bs \<le> n) \<and> ending r' = ending r"

lemma reads_refl: "reads r n r"
  by (simp add: reads_def)

lemma reads_trans: "reads r m r' \<Longrightarrow> reads r' n r'' \<Longrightarrow> m + n \<le> k \<Longrightarrow> reads r k r''"
proof -
  assume "reads r m r'" "reads r' n r''" and k: "m + n \<le> k"
  then obtain bs cs where "pending r = bs @ pending r'" "pending r' = cs @ pending r''"
    "length bs \<le> m" "length cs \<le> n" "ending r'' = ending r" by (auto simp: reads_def)
  with k have "pending r = (bs @ cs) @ pending r'' \<and> length (bs @ cs) \<le> k \<and> ending r'' = ending r" by simp
  then show ?thesis unfolding reads_def by blast
qed

lemma reads_mono: "reads r m r' \<Longrightarrow> m \<le> n \<Longrightarrow> reads r n r'"
  by (auto simp: reads_def)

lemma ReadFull_reads: "ReadFull r n = (x, r') \<Longrightarrow> reads r n r'"
  unfolding ReadFull_def reads_def
  by (auto split: if_splits intro: exI [of _ "take n (pending r)"])

lemma byte_bound: "byte c \<le> 255"
  using nat_of_char_less_256 [of c] by linarith

text \<open>Which domains pass.\<close>

definition label_char :: "char \<Rightarrow> bool" where
  "label_char c \<longleftrightarrow>
     97 \<le> byte c \<and> byte c \<le> 122 \<or> 65 \<le> byte c \<and> byte c \<le> 90 \<or> 48 \<le> byte c \<and> byte c \<le> 57 \<or> c = CHR ''-''"

definition ok_label :: "string \<Rightarrow> bool" where
  "ok_label l \<longleftrightarrow> (l \<noteq> [] \<longrightarrow> hd l \<noteq> CHR ''-'') \<and> (\<forall>c \<in> set l. label_char c)"

lemma ok_label_snoc:
  "ok_label (l @ [c]) \<longleftrightarrow> ok_label l \<and> label_char c \<and> (l = [] \<longrightarrow> c \<noteq> CHR ''-'')"
  by (cases l) (auto simp: ok_label_def)

lemma ok_label_prefix: "ok_label (l @ m) \<Longrightarrow> ok_label l"
  by (cases l) (auto simp: ok_label_def)

definition ok_labels :: "string list \<Rightarrow> bool" where
  "ok_labels ls \<longleftrightarrow> (\<forall>l \<in> set ls. ok_label l) \<and> (\<forall>l \<in> set (butlast ls). l \<noteq> [] \<and> last l \<noteq> CHR ''-'')"

lemma validDomain_loop_labels:
  assumes "domain = pre @ cur @ rest" and "ok_label cur" and "CHR ''.'' \<notin> set cur"
  shows "validDomain_loop domain (length pre + length cur) (length pre) rest \<longleftrightarrow>
    ok_labels (Split (cur @ rest) CHR ''.'')"
  using assms
proof (induction rest arbitrary: pre cur)
  case Nil
  then show ?case by (simp add: ok_labels_def)
next
  case (Cons c cs)
  show ?case
  proof (cases "c = CHR ''.''")
    case True
    have split: "Split (cur @ c # cs) CHR ''.'' = cur # Split cs CHR ''.''"
      using Cons.prems True by (simp add: Split_append_sep)
    have prev: "domain ! (length pre + length cur - 1) = last cur" if "cur \<noteq> []"
    proof -
      have "length pre + length cur - 1 = length pre + (length cur - 1)" using that by (cases cur) auto
      with that Cons.prems(1) show ?thesis by (simp add: nth_append last_conv_nth)
    qed
    have "validDomain_loop domain (length pre + length cur + 1) (length pre + length cur + 1) cs \<longleftrightarrow>
        ok_labels (Split cs CHR ''.'')"
      using Cons.IH [of "pre @ cur @ [c]" "[]"] Cons.prems(1) by (simp add: ok_label_def)
    then show ?thesis using True split prev Cons.prems(2) by (auto simp: ok_labels_def)
  next
    case False
    have ih: "validDomain_loop domain (length pre + length cur + 1) (length pre) cs \<longleftrightarrow>
        ok_labels (Split (cur @ c # cs) CHR ''.'')" if "ok_label (cur @ [c])"
      using Cons.IH [of pre "cur @ [c]"] Cons.prems that False by simp
    have "Split (cur @ c # cs) CHR ''.'' =
        (cur @ c # hd (Split cs CHR ''.'')) # tl (Split cs CHR ''.'')"
      using Split_append_plain [of "CHR ''.''" "cur @ [c]" cs] Cons.prems(3) False by simp
    then have "ok_label (cur @ [c])" if "ok_labels (Split (cur @ c # cs) CHR ''.'')"
      using that ok_label_prefix [of "cur @ [c]" "hd (Split cs CHR ''.'')"] by (simp add: ok_labels_def)
    then have "ok_labels (Split (cur @ c # cs) CHR ''.'') \<longleftrightarrow>
        ok_label (cur @ [c]) \<and> validDomain_loop domain (length pre + length cur + 1) (length pre) cs"
      using ih by blast
    moreover have "ok_label (cur @ [c]) \<longleftrightarrow> label_char c \<and> (cur = [] \<longrightarrow> c \<noteq> CHR ''-'')"
      using Cons.prems(2) by (simp add: ok_label_snoc)
    moreover have "validDomain_loop domain (length pre + length cur) (length pre) (c # cs) \<longleftrightarrow>
        (label_char c \<and> (cur = [] \<longrightarrow> c \<noteq> CHR ''-'')) \<and>
        validDomain_loop domain (length pre + length cur + 1) (length pre) cs"
      using False by (simp add: label_char_def) linarith
    ultimately show ?thesis by simp
  qed
qed

lemma validDomain_labels:
  "validDomain d \<longleftrightarrow>
     (\<forall>l \<in> set (Split d CHR ''.''). l \<noteq> [] \<and> ok_label l) \<and>
     (\<forall>l \<in> set (butlast (Split d CHR ''.'')). last l \<noteq> CHR ''-'')"
proof (cases "d = [] \<or> hd d = CHR ''.'' \<or> last d = CHR ''.''")
  case True
  have "[] \<in> set (Split d CHR ''.'')"
  proof (cases "d = [] \<or> last d = CHR ''.''")
    case True
    then have "last (Split d CHR ''.'') = []" by (simp add: last_Split)
    then show ?thesis using last_in_set [OF Split_not_Nil] by metis
  next
    case False
    with True have "hd (Split d CHR ''.'') = []" by (cases d) (auto simp: hd_Split)
    then show ?thesis using hd_in_set [OF Split_not_Nil] by metis
  qed
  with True show ?thesis by (auto simp: validDomain_def)
next
  case False
  then have "last (Split d CHR ''.'') \<noteq> []" by (simp add: last_Split)
  then have "(\<forall>l \<in> set (Split d CHR ''.''). l \<noteq> []) \<longleftrightarrow> (\<forall>l \<in> set (butlast (Split d CHR ''.'')). l \<noteq> [])"
    by (metis Split_not_Nil append_butlast_last_id in_set_butlastD rotate1.simps(2) set_ConsD set_rotate1)
  moreover have "validDomain d \<longleftrightarrow> ok_labels (Split d CHR ''.'')"
    using False validDomain_loop_labels [of d "[]" "[]" d] by (simp add: validDomain_def ok_label_def)
  ultimately show ?thesis by (auto simp: ok_labels_def)
qed

text \<open>The encodings of an address of a given type.\<close>

definition encoded_address :: "char \<Rightarrow> string \<Rightarrow> char list \<Rightarrow> bool" where
  "encoded_address at host wire \<longleftrightarrow>
     at = CHR 0x01 \<and> length wire = 4 \<and> host = AddrString (AddrFrom4 (map of_char wire)) \<or>
     at = CHR 0x04 \<and> length wire = 16 \<and> host = AddrString (AddrFrom16 (map of_char wire)) \<or>
     at = CHR 0x03 \<and> validDomain host \<and> (\<exists>len. wire = len # host \<and> byte len = length host)"

lemma readAddress_Inr:
  "readAddress r at = (Inr host, r') \<longleftrightarrow>
     (\<exists>wire. encoded_address at host wire \<and> pending r = wire @ pending r') \<and> ending r' = ending r"
proof -
  consider (v4) "at = CHR 0x01" | (v6) "at = CHR 0x04" | (dom) "at = CHR 0x03"
    | (other) "at \<noteq> CHR 0x01" "at \<noteq> CHR 0x04" "at \<noteq> CHR 0x03" by blast
  then show ?thesis
  proof cases
    case v4
    have "readAddress r at = (Inr host, r') \<longleftrightarrow>
        (\<exists>wire. ReadFull r 4 = (Inr wire, r') \<and> host = AddrString (AddrFrom4 (map of_char wire)))"
      using v4 by (auto simp: readAddress_def socks_constants split: prod.splits sum.splits)
    with v4 show ?thesis by (auto simp: ReadFull_Inr encoded_address_def)
  next
    case v6
    have "readAddress r at = (Inr host, r') \<longleftrightarrow>
        (\<exists>wire. ReadFull r 16 = (Inr wire, r') \<and> host = AddrString (AddrFrom16 (map of_char wire)))"
      using v6 by (auto simp: readAddress_def socks_constants split: prod.splits sum.splits)
    with v6 show ?thesis by (auto simp: ReadFull_Inr encoded_address_def)
  next
    case dom
    have "readAddress r at = (Inr host, r') \<longleftrightarrow>
        (\<exists>len r1. ReadFull r 1 = (Inr len, r1) \<and> len ! 0 \<noteq> CHR 0x00 \<and>
           ReadFull r1 (byte (len ! 0)) = (Inr host, r') \<and> validDomain host)"
      using dom by (auto simp: readAddress_def socks_constants split: prod.splits sum.splits if_splits)
    also have "\<dots> \<longleftrightarrow> (\<exists>len. pending r = len # host @ pending r' \<and> byte len = length host) \<and>
        validDomain host \<and> ending r' = ending r" (is "?A \<longleftrightarrow> ?B")
    proof
      assume ?A
      then show ?B by (auto simp: ReadFull_Inr length_Suc_conv)
    next
      assume ?B
      then obtain len where len: "pending r = len # host @ pending r'" "byte len = length host"
        "validDomain host" "ending r' = ending r" by blast
      then have "len \<noteq> CHR 0x00" by (auto simp: validDomain_def)
      with len have "ReadFull r 1 = (Inr [len], r\<lparr>pending := host @ pending r'\<rparr>) \<and> [len] ! 0 \<noteq> CHR 0x00 \<and>
          ReadFull (r\<lparr>pending := host @ pending r'\<rparr>) (byte ([len] ! 0)) = (Inr host, r') \<and> validDomain host"
        by (simp add: ReadFull_Inr)
      then show ?A by blast
    qed
    finally show ?thesis using dom by (auto simp: encoded_address_def)
  next
    case other
    then show ?thesis by (auto simp: readAddress_def encoded_address_def socks_constants)
  qed
qed

lemma length_4: "length xs = 4 \<longleftrightarrow> (\<exists>a b c d. xs = [a, b, c, d])"
  by (auto simp: eval_nat_numeral length_Suc_conv)

lemma length_2: "length xs = 2 \<longleftrightarrow> (\<exists>a b. xs = [a, b])"
  by (auto simp: eval_nat_numeral length_Suc_conv)

lemma readAddress_reads: "readAddress r at = (x, r') \<Longrightarrow> reads r 256 r'"
proof -
  have step: "reads r 256 r''" if "reads r (Suc 0) r'" "reads r' (byte c) r''" for c r' r''
    using reads_trans [OF that] byte_bound [of c] by simp
  show "readAddress r at = (x, r') \<Longrightarrow> reads r 256 r'"
    unfolding readAddress_def
    by (auto split: if_splits prod.splits sum.splits intro: reads_refl step
        dest!: ReadFull_reads elim: reads_mono)
qed

lemma ReadRequest_Inr:
  "ReadRequest r = (Inr req, r') \<longleftrightarrow>
     (\<exists>at wire hi lo. pending r = [CHR 0x05, CHR 0x01, CHR 0x00, at] @ wire @ [hi, lo] @ pending r' \<and>
        encoded_address at (rqHost req) wire \<and> rqPort req = Uint16 hi lo \<and> Uint16 hi lo \<noteq> 0) \<and>
     Command req = CHR 0x01 \<and> ending r' = ending r" (is "?L \<longleftrightarrow> ?R")
proof
  assume ?L
  then obtain h r1 r2 p where h: "ReadFull r 4 = (Inr h, r1)" "h ! 0 = CHR 0x05" "h ! 1 = CHR 0x01" "h ! 2 = CHR 0x00"
    and a: "readAddress r1 (h ! 3) = (Inr (rqHost req), r2)"
    and p: "ReadFull r2 2 = (Inr p, r')" "Uint16 (p ! 0) (p ! 1) \<noteq> 0"
    and req: "Command req = CHR 0x01" "rqPort req = Uint16 (p ! 0) (p ! 1)"
    by (auto simp: ReadRequest_def socks_constants Let_def split: prod.splits sum.splits if_splits)
  obtain at where "h = [CHR 0x05, CHR 0x01, CHR 0x00, at]" "pending r = h @ pending r1" "ending r1 = ending r"
    using h by (auto simp: ReadFull_Inr length_4)
  moreover obtain hi lo where "p = [hi, lo]" "pending r2 = p @ pending r'" "ending r' = ending r2"
    using p by (auto simp: ReadFull_Inr length_2)
  ultimately show ?R using a p(2) req by (auto simp: readAddress_Inr)
next
  assume ?R
  then obtain at wire hi lo where
    w: "pending r = [CHR 0x05, CHR 0x01, CHR 0x00, at] @ wire @ [hi, lo] @ pending r'"
      "encoded_address at (rqHost req) wire" "rqPort req = Uint16 hi lo" "Uint16 hi lo \<noteq> 0"
      "Command req = CHR 0x01" "ending r' = ending r" by blast
  let ?r1 = "r\<lparr>pending := wire @ [hi, lo] @ pending r'\<rparr>" and ?r2 = "r\<lparr>pending := [hi, lo] @ pending r'\<rparr>"
  have "ReadFull r 4 = (Inr [CHR 0x05, CHR 0x01, CHR 0x00, at], ?r1)" using w by (simp add: ReadFull_Inr)
  moreover have "readAddress ?r1 at = (Inr (rqHost req), ?r2)" using w by (auto simp: readAddress_Inr)
  moreover have "ReadFull ?r2 2 = (Inr [hi, lo], r')" using w by (simp add: ReadFull_Inr)
  ultimately show ?L using w by (simp add: ReadRequest_def socks_constants)
qed

lemma ReadRequest_reads: "ReadRequest r = (x, r') \<Longrightarrow> reads r 262 r'"
proof -
  have head: "reads r 262 r2" if "reads r 4 r1" "reads r1 256 r2" for r1 r2
    using reads_trans [OF that] by simp
  have all: "reads r 262 r3" if "reads r 4 r1" "reads r1 256 r2" "reads r2 2 r3" for r1 r2 r3
    using reads_trans [OF reads_trans [OF that(1,2) order_refl] that(3)] by simp
  show "ReadRequest r = (x, r') \<Longrightarrow> reads r 262 r'"
    unfolding ReadRequest_def Let_def
    by (auto split: if_splits prod.splits sum.splits intro: head all
        dest!: ReadFull_reads readAddress_reads elim: reads_mono)
qed

lemma writeAll_sent:
  assumes contract: "\<And>s bs s' n e. put s bs = (s', n, e) \<Longrightarrow> n \<le> length bs \<and> sent s' = sent s @ take n bs"
  shows "writeAll put s bytes = (err, s') \<Longrightarrow>
    (\<exists>k \<le> length bytes. sent s' = sent s @ take k bytes \<and> (err = None \<longrightarrow> k = length bytes)) \<and> err \<noteq> Some WritePanic"
proof (induction "length bytes" arbitrary: s bytes rule: less_induct)
  case less
  show ?case
  proof (cases "bytes = []")
    case True
    with less.prems show ?thesis by (simp add: writeAll.simps)
  next
    case False
    obtain s1 n e where w: "put s bytes = (s1, n, e)" by (cases "put s bytes") auto
    then have n: "n \<le> length bytes" "sent s1 = sent s @ take n bytes" using contract by auto
    show ?thesis
    proof (cases "e \<noteq> None \<or> n = 0")
      case True
      with less.prems False w n show ?thesis
        by (auto simp: writeAll.simps [of put s bytes] split: option.splits)
    next
      case go: False
      then have "writeAll put s bytes = writeAll put s1 (drop n bytes)"
        using False w n by (simp add: writeAll.simps [of put s bytes])
      moreover have "(\<exists>k \<le> length (drop n bytes). sent s' = sent s1 @ take k (drop n bytes) \<and>
          (err = None \<longrightarrow> k = length (drop n bytes))) \<and> err \<noteq> Some WritePanic"
        if "writeAll put s1 (drop n bytes) = (err, s')"
        using less.hyps [OF _ that] go n False by (cases bytes) auto
      ultimately obtain k where k: "k \<le> length bytes - n" "sent s' = sent s @ take n bytes @ take k (drop n bytes)"
        "err = None \<longrightarrow> k = length bytes - n" "err \<noteq> Some WritePanic" using less.prems n by auto
      then show ?thesis using n by (intro conjI exI [of _ "n + k"]) (auto simp: take_add)
    qed
  qed
qed

lemma bit_byte: "bit (byte c) n \<Longrightarrow> n < 8"
proof -
  have "take_bit 8 (byte c) = byte c" using nat_of_char_less_256 [of c] by (simp add: take_bit_nat_eq_self)
  then show "bit (byte c) n \<Longrightarrow> n < 8" by (metis bit_take_bit_iff)
qed

lemma Uint16_value: "unat (Uint16 hi lo) = 256 * byte hi + byte lo"
proof -
  have "Uint16 hi lo = of_nat (256 * byte hi + byte lo)"
  proof -
    have "of_nat (byte lo) AND (push_bit 8 (of_nat (byte hi)) :: 16 word) = 0"
      using nat_of_char_less_256 [of lo]
      by (intro bit_word_eqI) (auto simp: bit_simps dest: bit_byte)
    then have "Uint16 hi lo = of_nat (byte lo) + push_bit 8 (of_nat (byte hi))"
      unfolding Uint16_def by (simp add: disjunctive_add_eq_or)
    then show ?thesis by (simp add: push_bit_eq_mult)
  qed
  moreover have "256 * byte hi + byte lo < 65536"
    using nat_of_char_less_256 [of lo] nat_of_char_less_256 [of hi] by linarith
  ultimately show ?thesis by (simp add: unat_of_nat del: of_nat_add of_nat_mult)
qed

lemmas reply_codes = ReplySucceeded_def ReplyGeneralFailure_def ReplyConnectionNotAllowed_def ReplyNetworkUnreachable_def
  ReplyHostUnreachable_def ReplyConnectionRefused_def ReplyTTLExpired_def ReplyCommandNotSupported_def ReplyAddressNotSupported_def

text \<open>The bound that \<^verbatim>\<open>validReply\<close> checks admits exactly the named codes.\<close>

lemma validReply_codes:
  "validReply c \<longleftrightarrow> c \<in> {ReplySucceeded, ReplyGeneralFailure, ReplyConnectionNotAllowed, ReplyNetworkUnreachable,
     ReplyHostUnreachable, ReplyConnectionRefused, ReplyTTLExpired, ReplyCommandNotSupported, ReplyAddressNotSupported}"
proof -
  have self: "c = char_of (byte c)" by simp
  have "c \<in> char_of ` {0 :: nat, 1, 2, 3, 4, 5, 6, 7, 8}" if "byte c \<le> 8"
  proof -
    from that have "byte c \<in> {0, 1, 2, 3, 4, 5, 6, 7, 8}" by auto
    with self show ?thesis by (rule image_eqI)
  qed
  then show ?thesis by (auto simp: validReply_def reply_codes char_of_def)
qed

section \<open>Properties\<close>

text \<open>C29: which bytes are a request. \<^verbatim>\<open>ReadRequest\<close> succeeds exactly on version 5, command CONNECT, a zero
  byte, an address in one of the three encodings and a port that is not zero; it returns that address
  and that port and leaves the reader right behind them. So decoding is injective and never reads into
  the bytes that belong to the relay.\<close>

theorem ReadRequest_accepts:
  "ReadRequest r = (Inr req, r') \<longleftrightarrow>
     (\<exists>at wire hi lo. pending r = [CHR 0x05, CHR 0x01, CHR 0x00, at] @ wire @ [hi, lo] @ pending r' \<and>
        (at = CHR 0x01 \<and> length wire = 4 \<and> rqHost req = AddrString (AddrFrom4 (map of_char wire)) \<or>
         at = CHR 0x04 \<and> length wire = 16 \<and> rqHost req = AddrString (AddrFrom16 (map of_char wire)) \<or>
         at = CHR 0x03 \<and> validDomain (rqHost req) \<and>
           (\<exists>len. wire = len # rqHost req \<and> byte len = length (rqHost req))) \<and>
        unat (rqPort req) = 256 * byte hi + byte lo \<and> rqPort req \<noteq> 0) \<and>
     Command req = CHR 0x01 \<and> ending r' = ending r"
proof -
  have "rqPort req = Uint16 hi lo \<and> Uint16 hi lo \<noteq> 0 \<longleftrightarrow>
      unat (rqPort req) = 256 * byte hi + byte lo \<and> rqPort req \<noteq> 0" for hi lo
    by (metis Uint16_value word_eq_iff_unsigned)
  then show ?thesis unfolding ReadRequest_Inr encoded_address_def by simp
qed

text \<open>Reading a request is bounded. Whatever the client sends and whether or not it is accepted, at
  most 262 bytes are consumed, and they are a prefix of what was pending.\<close>

theorem ReadRequest_bounded:
  assumes "ReadRequest r = (x, r')"
  shows "\<exists>bs. pending r = bs @ pending r' \<and> length bs \<le> 262"
  using ReadRequest_reads [OF assms] by (auto simp: reads_def)

theorem ReadRequest_bounded_witness:
  "\<exists>bs. pending \<lparr>pending = [CHR 0x05, CHR 0x02, CHR 0x00, CHR 0x01, CHR 0x7F], ending = EOF\<rparr> =
     bs @ pending \<lparr>pending = [CHR 0x7F], ending = EOF\<rparr> \<and> length bs \<le> 262"
  by (rule ReadRequest_bounded [of _ "Inl (ErrUnsupportedCommand (CHR 0x02))"])
     (simp add: ReadRequest_def ReadFull_def socks_constants)

text \<open>Which bytes are a greeting. \<^verbatim>\<open>ReadGreeting\<close> succeeds exactly on version 5, a count that is not
  zero and that many methods, and leaves the reader right behind them; the selected method is no
  authentication exactly when the client offers it.\<close>

theorem ReadGreeting_accepts:
  "(ReadGreeting r = (Inr g, r') \<longleftrightarrow>
     (\<exists>n. pending r = [CHR 0x05, n] @ Methods g @ pending r' \<and> byte n = length (Methods g) \<and> n \<noteq> CHR 0x00) \<and>
     ending r' = ending r) \<and>
   SelectNoAuth g = (if CHR 0x00 \<in> set (Methods g) then CHR 0x00 else CHR 0xFF)"
proof -
  have off: "offers_method ms m \<longleftrightarrow> m \<in> set ms" for ms m by (induction ms) auto
  have "ReadGreeting r = (Inr g, r') \<longleftrightarrow>
      (\<exists>h r1. ReadFull r 2 = (Inr h, r1) \<and> h ! 0 = CHR 0x05 \<and> h ! 1 \<noteq> CHR 0x00 \<and>
         ReadFull r1 (byte (h ! 1)) = (Inr (Methods g), r'))" (is "_ \<longleftrightarrow> ?M")
    by (cases g) (auto simp: ReadGreeting_def socks_constants split: prod.splits sum.splits if_splits)
  also have "?M \<longleftrightarrow> (\<exists>n. pending r = [CHR 0x05, n] @ Methods g @ pending r' \<and>
      byte n = length (Methods g) \<and> n \<noteq> CHR 0x00) \<and> ending r' = ending r" (is "_ \<longleftrightarrow> ?B")
  proof
    assume ?M
    then show ?B by (auto simp: ReadFull_Inr length_2)
  next
    assume ?B
    then obtain n where n: "pending r = [CHR 0x05, n] @ Methods g @ pending r'" "byte n = length (Methods g)"
      "n \<noteq> CHR 0x00" "ending r' = ending r" by blast
    let ?r1 = "r\<lparr>pending := Methods g @ pending r'\<rparr>"
    have "ReadFull r 2 = (Inr [CHR 0x05, n], ?r1)" "ReadFull ?r1 (byte n) = (Inr (Methods g), r')"
      using n by (simp_all add: ReadFull_Inr)
    with n(3) show ?M by (intro exI [of _ "[CHR 0x05, n]"] exI [of _ ?r1]) simp
  qed
  finally show ?thesis by (simp add: SelectNoAuth_def Offers_def off socks_constants)
qed

text \<open>What a domain is. It is accepted exactly when every label between the dots is non-empty, is
  made of letters, digits and hyphens, and does not start with a hyphen, and every label but the last
  does not end with one. (The last label may end with a hyphen: the check for it is made at a dot.)\<close>

theorem validDomain_iff:
  "validDomain d \<longleftrightarrow>
     (\<forall>l \<in> set (Split d CHR ''.''). l \<noteq> [] \<and> hd l \<noteq> CHR ''-'' \<and> (\<forall>c \<in> set l. label_char c)) \<and>
     (\<forall>l \<in> set (butlast (Split d CHR ''.'')). last l \<noteq> CHR ''-'')"
  unfolding validDomain_labels ok_label_def by blast

theorem validDomain_iff_witness:
  "validDomain ''example.com-'' \<and> \<not> validDomain ''example-.com''"
  unfolding validDomain_iff by (simp add: label_char_def)

text \<open>A reply is written whole or an error is returned. For a writer that takes a prefix of what it
  is given, a reply without error has put exactly its ten bytes on the connection; with an error it has
  put a prefix of them; an unknown reply code puts nothing.\<close>

theorem WriteReply_whole:
  assumes "\<And>s bs s' n e. put s bs = (s', n, e) \<Longrightarrow> n \<le> length bs \<and> sent s' = sent s @ take n bs"
    and "WriteReply put s reply = (err, s')"
  shows "if 8 < byte reply then err = Some (ErrUnsupportedReply reply) \<and> s' = s
    else \<exists>k \<le> 10. sent s' = sent s @ take k (reply_bytes reply) \<and> (err = None \<longrightarrow> k = 10) \<and>
      err \<noteq> Some WritePanic"
proof (cases "8 < byte reply")
  case True
  with assms(2) show ?thesis by (auto simp: WriteReply_def validReply_def socks_constants)
next
  case False
  then have "writeAll put s (reply_bytes reply) = (err, s')"
    using assms(2) by (simp add: WriteReply_def validReply_def socks_constants)
  then have "(\<exists>k \<le> length (reply_bytes reply). sent s' = sent s @ take k (reply_bytes reply) \<and>
      (err = None \<longrightarrow> k = length (reply_bytes reply))) \<and> err \<noteq> Some WritePanic"
    by (rule writeAll_sent [rotated]) (rule assms(1))
  moreover have "length (reply_bytes reply) = 10" by (simp add: reply_bytes_def)
  ultimately show ?thesis using False by auto
qed

text \<open>A writer that takes at most three bytes at a time.\<close>

definition slow_put :: "char list \<Rightarrow> char list \<Rightarrow> char list \<times> nat \<times> string option" where
  "slow_put s bs = (s @ take 3 bs, min 3 (length bs), None)"

theorem WriteReply_whole_witness:
  "\<exists>k \<le> 10. id (reply_bytes (CHR 0x05)) = id [] @ take k (reply_bytes (CHR 0x05)) \<and>
     ((None :: socks_error option) = None \<longrightarrow> k = 10) \<and> (None :: socks_error option) \<noteq> Some WritePanic"
proof -
  have contract: "slow_put s bs = (s', n, e) \<Longrightarrow> n \<le> length bs \<and> id s' = id s @ take n bs" for s bs s' n e
    by (auto simp: slow_put_def min_def)
  have "WriteReply slow_put [] (CHR 0x05) = (None, reply_bytes (CHR 0x05))"
    by (simp add: WriteReply_def validReply_def reply_bytes_def socks_constants writeAll.simps slow_put_def)
  from WriteReply_whole [of slow_put id, OF contract this] show ?thesis by simp
qed

end
