(* ===== verification/Compatibility.thy ===== *)
theory Compatibility
  imports Legacy "HOL-Library.List_Lexorder" "HOL-Library.Char_ord"
begin

text \<open>
  The compatibility harness \<^verbatim>\<open>compatibility/\<close>: fixtures, the comparison of the legacy parser with a reference,
  and the run over a directory. The file system, the JSON decoder, the reference program and
  \<^verbatim>\<open>reflect.DeepEqual\<close>, which also tells a nil slice from an empty one, are parameters.
\<close>

section \<open>Fixtures\<close>

record Fixture =
  fxName :: string
  fxArgs :: "string list"
  fxReference :: Config

datatype fixture_error =
    FixtureRead string
  | FixtureDecode string
  | FixtureName
  | FixtureArgs
  | FixtureReference config_error

definition LoadFixture ::
    "(string \<Rightarrow> (string, 'b) result) \<Rightarrow> ('b \<Rightarrow> (string, Fixture) result) \<Rightarrow> string \<Rightarrow> (fixture_error, Fixture) result" where
  "LoadFixture read_file unmarshal path =
     bind_result (map_error FixtureRead (read_file path)) (\<lambda>encoded.
     bind_result (map_error FixtureDecode (unmarshal encoded)) (\<lambda>fixture.
       if fxName fixture = [] then Inl FixtureName
       else if fxArgs fixture = [] then Inl FixtureArgs
       else (case Config_Validate (fxReference fixture) of
         Some e \<Rightarrow> Inl (FixtureReference e)
       | None \<Rightarrow> Inr fixture)))"

section \<open>Comparing\<close>

record FixtureMismatch =
  mmName :: string
  mmExpected :: Config
  mmActual :: Config

text \<open>The runner function, or the path of a binary with the result of running it with \<^verbatim>\<open>check\<close> and the arguments.\<close>

record 'b CompareOptions =
  Runner :: "(string list \<Rightarrow> (string, 'b) result) option"
  BinPath :: string
  run_binary :: "string \<Rightarrow> string list \<Rightarrow> (string, 'b) result"

datatype compare_error =
    NewParseFailure legacy_error
  | ReferenceRun string
  | ReferenceDecode string
  | ReferenceInvalid config_error
  | ActualInvalid config_error
  | Mismatch FixtureMismatch

definition compare :: "(Config \<Rightarrow> Config \<Rightarrow> bool) \<Rightarrow> string \<Rightarrow> Config \<Rightarrow> Config \<Rightarrow> compare_error option" where
  "compare deep_equal name actual expected =
     (case Config_Validate actual of
        Some e \<Rightarrow> Some (ActualInvalid e)
      | None \<Rightarrow>
          if deep_equal actual expected then None
          else Some (Mismatch \<lparr>mmName = name, mmExpected = expected, mmActual = actual\<rparr>))"

definition isReferenceConfigured :: "'b CompareOptions \<Rightarrow> bool" where
  "isReferenceConfigured opts \<longleftrightarrow> Runner opts \<noteq> None \<or> BinPath opts \<noteq> []"

definition runReferenceRunner :: "string list \<Rightarrow> 'b CompareOptions \<Rightarrow> (string, 'b) result" where
  "runReferenceRunner args opts =
     (case Runner opts of
        Some f \<Rightarrow> f args
      | None \<Rightarrow> run_binary opts (BinPath opts) (''check'' # args))"

text \<open>The first result of \<^verbatim>\<open>CompareFixture\<close> is always the zero value and is left out.\<close>

definition CompareFixture ::
    "(Config \<Rightarrow> Config \<Rightarrow> bool) \<Rightarrow> ('b \<Rightarrow> (string, Config) result) \<Rightarrow> Fixture \<Rightarrow> 'b CompareOptions \<Rightarrow> compare_error option" where
  "CompareFixture deep_equal unmarshal fixture opts =
     (case ParseLegacyArgs (fxArgs fixture) of
        Inl e \<Rightarrow> Some (NewParseFailure e)
      | Inr actual \<Rightarrow>
          if \<not> isReferenceConfigured opts then compare deep_equal (fxName fixture) actual (fxReference fixture)
          else (case runReferenceRunner (fxArgs fixture) opts of
            Inl e \<Rightarrow> Some (ReferenceRun e)
          | Inr reference \<Rightarrow>
              (case unmarshal reference of
                 Inl e \<Rightarrow> Some (ReferenceDecode e)
               | Inr decoded \<Rightarrow>
                   (case Config_Validate decoded of
                      Some e \<Rightarrow> Some (ReferenceInvalid e)
                    | None \<Rightarrow> compare deep_equal (fxName fixture) actual decoded))))"

section \<open>A directory of fixtures\<close>

datatype suite_error =
    SuiteContext string
  | SuiteDirectory string
  | SuiteEmpty
  | SuiteLoad string fixture_error
  | SuiteCompare string compare_error

text \<open>What walking the directory visits: for each entry whether it is a directory, its name and its path below the
  base; or an error.\<close>

definition listFixtureFiles :: "(string, (bool \<times> string \<times> string) list) result \<Rightarrow> (string, string list) result" where
  "listFixtureFiles walk =
     bind_result walk (\<lambda>entries.
       Inr (sort (map (\<lambda>(_, _, rel). rel) (filter (\<lambda>(dir, name, _). \<not> dir \<and> HasSuffix name ''.json'') entries))))"

text \<open>The loop. \<open>ctx_err k\<close> is what \<^verbatim>\<open>ctx.Err()\<close> returns at its \<open>k\<close>-th call.\<close>

fun suite_loop ::
    "(nat \<Rightarrow> string option) \<Rightarrow> (string \<Rightarrow> (fixture_error, Fixture) result) \<Rightarrow> (Fixture \<Rightarrow> compare_error option) \<Rightarrow>
       nat \<Rightarrow> string list \<Rightarrow> FixtureMismatch list \<Rightarrow> (suite_error, FixtureMismatch list) result" where
  "suite_loop ctx_err load cmp k [] mismatches = Inr mismatches"
| "suite_loop ctx_err load cmp k (name # names) mismatches =
     (case ctx_err k of
        Some e \<Rightarrow> Inl (SuiteContext e)
      | None \<Rightarrow>
          (case load name of
             Inl e \<Rightarrow> Inl (SuiteLoad name e)
           | Inr fixture \<Rightarrow>
               (case ctx_err (Suc k) of
                  Some e \<Rightarrow> Inl (SuiteContext e)
                | None \<Rightarrow>
                    (case cmp fixture of
                       None \<Rightarrow> suite_loop ctx_err load cmp (k + 2) names mismatches
                     | Some (Mismatch mm) \<Rightarrow> suite_loop ctx_err load cmp (k + 2) names (mismatches @ [mm])
                     | Some e \<Rightarrow> Inl (SuiteCompare name e)))))"

definition RunFixtureSuite ::
    "(nat \<Rightarrow> string option) \<Rightarrow> (string, (bool \<times> string \<times> string) list) result \<Rightarrow> (string \<Rightarrow> (fixture_error, Fixture) result) \<Rightarrow>
       (Fixture \<Rightarrow> compare_error option) \<Rightarrow> (suite_error, FixtureMismatch list) result" where
  "RunFixtureSuite ctx_err walk load cmp =
     (case ctx_err 0 of
        Some e \<Rightarrow> Inl (SuiteContext e)
      | None \<Rightarrow>
          (case listFixtureFiles walk of
             Inl e \<Rightarrow> Inl (SuiteDirectory e)
           | Inr names \<Rightarrow> if names = [] then Inl SuiteEmpty else suite_loop ctx_err load cmp 1 names []))"

section \<open>Lemmas\<close>

lemma listFixtureFiles_mset:
  assumes "mset entries = mset entries'"
  shows "listFixtureFiles (Inr entries) = listFixtureFiles (Inr entries')"
proof -
  have "sort (map f (filter P entries)) = sort (map f (filter P entries'))" for f :: "_ \<Rightarrow> string" and P
    by (rule properties_for_sort) (simp_all add: assms)
  then show ?thesis by (simp add: listFixtureFiles_def)
qed

lemma suite_loop_Inr:
  assumes "suite_loop ctx_err load cmp k names acc = Inr res"
  shows "(\<forall>name \<in> set names. \<exists>fx. load name = Inr fx \<and> (cmp fx = None \<or> (\<exists>mm. cmp fx = Some (Mismatch mm)))) \<and>
    res = acc @ concat (map (\<lambda>name. case load name of Inl _ \<Rightarrow> [] | Inr fx \<Rightarrow>
       (case cmp fx of Some (Mismatch mm) \<Rightarrow> [mm] | _ \<Rightarrow> [])) names)"
  using assms
proof (induction names arbitrary: k acc)
  case (Cons name names)
  from Cons.prems obtain fx where fx: "load name = Inr fx" by (auto split: option.splits sum.splits)
  show ?case
  proof (cases "cmp fx")
    case None
    with Cons fx show ?thesis by (fastforce split: option.splits)
  next
    case (Some e)
    with Cons.prems fx obtain mm where mm: "e = Mismatch mm" by (auto split: option.splits compare_error.splits)
    with Cons.prems Some fx have "suite_loop ctx_err load cmp (k + 2) names (acc @ [mm]) = Inr res"
      by (auto split: option.splits)
    from Cons.IH [OF this] Some fx mm show ?thesis by simp
  qed
qed simp

text \<open>What a fixture is compared with, when there is something valid to compare with.\<close>

definition reference_of :: "('b \<Rightarrow> (string, Config) result) \<Rightarrow> Fixture \<Rightarrow> 'b CompareOptions \<Rightarrow> Config option" where
  "reference_of decode fixture opts =
     (if isReferenceConfigured opts then
        (case runReferenceRunner (fxArgs fixture) opts of
           Inl _ \<Rightarrow> None
         | Inr r \<Rightarrow> (case decode r of Inl _ \<Rightarrow> None | Inr c \<Rightarrow> if Config_Validate c = None then Some c else None))
      else Some (fxReference fixture))"

section \<open>Properties\<close>

text \<open>A passing comparison means agreement. With the stored reference, and with any runner or binary, a fixture
  passes exactly when its arguments parse and the parsed configuration equals the valid reference; the
  parsed configuration needs no validation of its own; and a mismatch reports both sides.\<close>

theorem CompareFixture_agrees:
  assumes "LoadFixture read_file unmarshal path = Inr fixture"
  shows "(CompareFixture deep_equal decode fixture opts = None \<longleftrightarrow>
      (\<exists>actual ref. ParseLegacyArgs (fxArgs fixture) = Inr actual \<and> reference_of decode fixture opts = Some ref \<and>
         deep_equal actual ref)) \<and>
    (CompareFixture deep_equal decode fixture opts = Some (Mismatch mm) \<longleftrightarrow>
      mmName mm = fxName fixture \<and> ParseLegacyArgs (fxArgs fixture) = Inr (mmActual mm) \<and>
      reference_of decode fixture opts = Some (mmExpected mm) \<and> \<not> deep_equal (mmActual mm) (mmExpected mm)) \<and>
    CompareFixture deep_equal decode fixture opts \<noteq> Some (ActualInvalid e) \<and>
    (\<not> isReferenceConfigured opts \<longrightarrow> reference_of decode fixture opts = Some (fxReference fixture) \<and>
      Config_Validate (fxReference fixture) = None \<and> fxName fixture \<noteq> [] \<and> fxArgs fixture \<noteq> [])"
proof -
  have loaded: "Config_Validate (fxReference fixture) = None \<and> fxName fixture \<noteq> [] \<and> fxArgs fixture \<noteq> []"
    using assms by (auto simp: LoadFixture_def split: if_splits option.splits)
  show ?thesis
  proof (cases "ParseLegacyArgs (fxArgs fixture)")
    case (Inl e)
    then show ?thesis using loaded by (simp add: CompareFixture_def reference_of_def)
  next
    case (Inr actual)
    then have valid: "Config_Validate actual = None"
      by (rule ParseLegacyArgs_Inr) (simp add: Config_Validate_wf)
    have mm: "\<lparr>mmName = fxName fixture, mmExpected = c, mmActual = actual\<rparr> = mm \<longleftrightarrow>
        mmName mm = fxName fixture \<and> actual = mmActual mm \<and> c = mmExpected mm" for c
      by (cases mm) auto
    have cmp: "CompareFixture deep_equal decode fixture opts =
        (case reference_of decode fixture opts of
           Some ref \<Rightarrow> compare deep_equal (fxName fixture) actual ref
         | None \<Rightarrow> CompareFixture deep_equal decode fixture opts)"
      "reference_of decode fixture opts = None \<Longrightarrow> \<exists>x. CompareFixture deep_equal decode fixture opts = Some x \<and>
         (\<forall>y. x \<noteq> Mismatch y) \<and> (\<forall>y. x \<noteq> ActualInvalid y)"
      using Inr by (auto simp: CompareFixture_def reference_of_def split: sum.splits option.splits)
    show ?thesis
    proof (cases "reference_of decode fixture opts")
      case None
      with cmp(2) loaded show ?thesis by (auto simp: reference_of_def)
    next
      case (Some ref)
      with cmp(1) valid mm [of ref] Inr loaded show ?thesis by (auto simp: compare_def reference_of_def)
    qed
  qed
qed

abbreviation small_fixture :: Fixture where
  "small_fixture \<equiv> \<lparr>fxName = ''f'', fxArgs = [''SERVER=http'', ''-P8080''],
     fxReference = \<lparr>Servers = [plain_server ''default'' ''http'' '':8080''], Mounts = [], Policies = []\<rparr>\<rparr>"

theorem CompareFixture_agrees_witness:
  "\<exists>actual. ParseLegacyArgs (fxArgs small_fixture) = Inr actual \<and> Config_Validate (fxReference small_fixture) = None \<and>
     (CompareFixture (=) (\<lambda>_. Inl []) small_fixture \<lparr>Runner = None, BinPath = [], run_binary = (\<lambda>_ _. Inr ())\<rparr> = None \<longleftrightarrow>
        actual = fxReference small_fixture)"
proof -
  let ?opts = "\<lparr>Runner = None, BinPath = [], run_binary = (\<lambda>_ _. Inr ())\<rparr>"
  have "wf_config (fxReference small_fixture)"
    by (simp add: wf_config_def good_server_def go_defs go_loops)
  then have "Config_Validate (fxReference small_fixture) = None" by (simp only: Config_Validate_wf)
  then have load: "LoadFixture (\<lambda>_. Inr ()) (\<lambda>_. Inr small_fixture) ''f.json'' = Inr small_fixture"
    by (simp add: LoadFixture_def)
  obtain actual where "ParseLegacyArgs (fxArgs small_fixture) = Inr actual"
    by (simp add: legacy_eval)
  with CompareFixture_agrees [OF load, of "(=)" "\<lambda>_. Inl []" ?opts] show ?thesis
    by (auto simp: isReferenceConfigured_def)
qed

text \<open>A suite is deterministic and complete. The order in which the directory is walked does not matter; and when
  the run ends without error, every fixture file was loaded and compared, and the mismatches are those of
  the files in lexical order, none twice and none left out.\<close>

theorem RunFixtureSuite_deterministic:
  "(mset entries = mset entries' \<longrightarrow>
      RunFixtureSuite ctx_err (Inr entries) load cmp = RunFixtureSuite ctx_err (Inr entries') load cmp) \<and>
   (RunFixtureSuite ctx_err (Inr entries) load cmp = Inr res \<longrightarrow>
      (\<exists>names. sorted names \<and> names \<noteq> [] \<and>
         mset names = image_mset (\<lambda>(_, _, rel). rel) (filter_mset (\<lambda>(dir, name, _). \<not> dir \<and> HasSuffix name ''.json'') (mset entries)) \<and>
         (\<forall>name \<in> set names. \<exists>fx. load name = Inr fx \<and> (cmp fx = None \<or> (\<exists>mm. cmp fx = Some (Mismatch mm)))) \<and>
         res = concat (map (\<lambda>name. case load name of Inl _ \<Rightarrow> [] | Inr fx \<Rightarrow>
           (case cmp fx of Some (Mismatch mm) \<Rightarrow> [mm] | _ \<Rightarrow> [])) names)))"
proof (intro conjI impI)
  assume "mset entries = mset entries'"
  then have eq: "listFixtureFiles (Inr entries) = listFixtureFiles (Inr entries')" by (rule listFixtureFiles_mset)
  show "RunFixtureSuite ctx_err (Inr entries) load cmp = RunFixtureSuite ctx_err (Inr entries') load cmp"
    unfolding RunFixtureSuite_def eq ..
next
  assume run: "RunFixtureSuite ctx_err (Inr entries) load cmp = Inr res"
  obtain names where names: "listFixtureFiles (Inr entries) = Inr names" by (simp add: listFixtureFiles_def)
  with run have loop: "names \<noteq> []" "suite_loop ctx_err load cmp 1 names [] = Inr res"
    by (auto simp: RunFixtureSuite_def split: option.splits if_splits)
  from names have "sorted names" "mset names = image_mset (\<lambda>(_, _, rel). rel)
      (filter_mset (\<lambda>(dir, name, _). \<not> dir \<and> HasSuffix name ''.json'') (mset entries))"
    by (auto simp: listFixtureFiles_def)
  with loop suite_loop_Inr [OF loop(2)]
  show "\<exists>names. sorted names \<and> names \<noteq> [] \<and>
         mset names = image_mset (\<lambda>(_, _, rel). rel) (filter_mset (\<lambda>(dir, name, _). \<not> dir \<and> HasSuffix name ''.json'') (mset entries)) \<and>
         (\<forall>name \<in> set names. \<exists>fx. load name = Inr fx \<and> (cmp fx = None \<or> (\<exists>mm. cmp fx = Some (Mismatch mm)))) \<and>
         res = concat (map (\<lambda>name. case load name of Inl _ \<Rightarrow> [] | Inr fx \<Rightarrow>
           (case cmp fx of Some (Mismatch mm) \<Rightarrow> [mm] | _ \<Rightarrow> [])) names)"
    by (intro exI [of _ names]) simp
qed

theorem RunFixtureSuite_deterministic_witness:
  "RunFixtureSuite (\<lambda>_. None) (Inr [(False, ''b.json'', ''b.json''), (False, ''a.json'', ''a.json'')]) (\<lambda>_. Inr small_fixture) (\<lambda>_. None) =
   RunFixtureSuite (\<lambda>_. None) (Inr [(False, ''a.json'', ''a.json''), (False, ''b.json'', ''b.json'')]) (\<lambda>_. Inr small_fixture) (\<lambda>_. None)"
  by (rule RunFixtureSuite_deterministic [of _ _ _ _ _ "[]", THEN conjunct1, THEN mp]) simp

end
