(* ===== verification/Release.thy ===== *)
theory Release
  imports Go_Strings
begin

text \<open>
  The release builder: \<^verbatim>\<open>release/release.go\<close> and \<^verbatim>\<open>releaseEnvironment\<close> of \<^verbatim>\<open>tools/release/main.go\<close>. The file
  system, the compiler, the zip writer and SHA-256 are parameters; what is modelled is which of them are
  called in which order, with which names and contents, and what happens when one fails.
\<close>

section \<open>Targets and names\<close>

record Target =
  GOOS :: string
  GOARCH :: string

definition Targets :: "Target list" where
  "Targets = [\<lparr>GOOS = ''darwin'', GOARCH = ''arm64''\<rparr>, \<lparr>GOOS = ''linux'', GOARCH = ''amd64''\<rparr>]"

definition version_char :: "char \<Rightarrow> bool" where
  "version_char c \<longleftrightarrow> in_range CHR ''A'' CHR ''Z'' c \<or> in_range CHR ''a'' CHR ''z'' c \<or> in_range CHR ''0'' CHR ''9'' c"

text \<open>The pattern \<^verbatim>\<open>^[A-Za-z0-9][A-Za-z0-9._-]*$\<close>.\<close>

definition safeVersion :: "string \<Rightarrow> bool" where
  "safeVersion v \<longleftrightarrow>
     (case v of
        [] \<Rightarrow> False
      | c # cs \<Rightarrow> version_char c \<and> list_all (\<lambda>d. version_char d \<or> List.member ''._-'' d) cs)"

definition ArchiveName :: "string \<Rightarrow> Target \<Rightarrow> string" where
  "ArchiveName version target = ''new-delegate-'' @ version @ ''-'' @ GOOS target @ ''-'' @ GOARCH target @ ''.zip''"

definition executable_name :: "Target \<Rightarrow> string" where
  "executable_name target = ''delegate'' @ (if GOOS target = ''windows'' then ''.exe'' else [])"

section \<open>One archive\<close>

datatype archive_error =
    ArchiveCreate string
  | EntryCreate string string
  | EntryWrite string string
  | ArchiveFinalize string
  | ArchiveClose string

datatype archive_event = CreatedFile string | AddedEntry string nat string | Finalized | ClosedFile

record zip_env =
  create_error :: "string option"
  header_error :: "string \<Rightarrow> string option"
  write_error :: "string \<Rightarrow> string option"
  finalize_error :: "string option"
  close_error :: "string option"

fun add_entries :: "zip_env \<Rightarrow> (string \<times> nat \<times> string) list \<Rightarrow> archive_event list \<times> archive_error option" where
  "add_entries z [] = ([], None)"
| "add_entries z ((name, mode, data) # entries) =
     (case header_error z name of
        Some e \<Rightarrow> ([], Some (EntryCreate name e))
      | None \<Rightarrow>
          (case write_error z name of
             Some e \<Rightarrow> ([], Some (EntryWrite name e))
           | None \<Rightarrow> (case add_entries z entries of (log, r) \<Rightarrow> (AddedEntry name mode data # log, r))))"

text \<open>The deferred close runs on every path that does not end with \<open>written\<close>, also after a failed close. The modes
  are octal 755 and 644.\<close>

definition writeArchive :: "zip_env \<Rightarrow> string \<Rightarrow> string \<Rightarrow> string \<Rightarrow> string \<Rightarrow> archive_event list \<times> archive_error option" where
  "writeArchive z destination name executable readme =
     (case create_error z of
        Some e \<Rightarrow> ([], Some (ArchiveCreate e))
      | None \<Rightarrow>
          (case add_entries z [(name, 493, executable), (''README.md'', 420, readme)] of
             (log, Some e) \<Rightarrow> (CreatedFile destination # log @ [ClosedFile], Some e)
           | (log, None) \<Rightarrow>
               (case finalize_error z of
                  Some e \<Rightarrow> (CreatedFile destination # log @ [ClosedFile], Some (ArchiveFinalize e))
                | None \<Rightarrow>
                    (case close_error z of
                       Some e \<Rightarrow> (CreatedFile destination # log @ [Finalized, ClosedFile, ClosedFile], Some (ArchiveClose e))
                     | None \<Rightarrow> (CreatedFile destination # log @ [Finalized, ClosedFile], None)))))"

section \<open>The build\<close>

datatype build_error =
    InvalidVersion string
  | BuilderRequired
  | ReadReadme string
  | MakeDirectory string
  | MakeStaging string
  | BuildTarget Target string
  | ReadExecutable Target string
  | WriteArchiveFailed archive_error
  | ReadArchive string string
  | WriteSums string

datatype build_event =
    MadeStaging string
  | BuiltTarget Target string
  | Archive "archive_event list"
  | WroteSums string
  | RemovedStaging string

record build_env =
  join_path :: "string \<Rightarrow> string \<Rightarrow> string"
  readme_file :: "(string, string) result"
  make_output :: "string option"
  make_staging :: "(string, string) result"
  read_executable :: "Target \<Rightarrow> (string, string) result"
  zip_of :: "Target \<Rightarrow> zip_env"
  read_archive :: "string \<Rightarrow> (string, string) result"
  sha256_hex :: "string \<Rightarrow> string"
  write_sums :: "string option"

definition manifest_line :: "build_env \<Rightarrow> string \<Rightarrow> string \<Rightarrow> string" where
  "manifest_line env archive name = sha256_hex env archive @ ''  '' @ name @ [CHR 0x0A]"

definition executable_path :: "build_env \<Rightarrow> string \<Rightarrow> Target \<Rightarrow> string" where
  "executable_path env staging target = join_path env staging (GOOS target @ ''-'' @ GOARCH target @ ''-'' @ executable_name target)"

fun build_targets ::
    "build_env \<Rightarrow> (Target \<Rightarrow> string \<Rightarrow> string \<Rightarrow> string option) \<Rightarrow> string \<Rightarrow> string \<Rightarrow> string \<Rightarrow> string \<Rightarrow> Target list \<Rightarrow> string \<Rightarrow>
       build_event list \<times> (build_error, string) result" where
  "build_targets env builder version outdir staging readme [] manifest = ([], Inr manifest)"
| "build_targets env builder version outdir staging readme (target # targets) manifest =
     (let path = executable_path env staging target in
      case builder target path version of
        Some e \<Rightarrow> ([], Inl (BuildTarget target e))
      | None \<Rightarrow>
          (case read_executable env target of
             Inl e \<Rightarrow> ([BuiltTarget target path], Inl (ReadExecutable target e))
           | Inr executable \<Rightarrow>
               (let name = ArchiveName version target in
                case writeArchive (zip_of env target) (join_path env outdir name) (executable_name target) executable readme of
                  (log, Some e) \<Rightarrow> ([BuiltTarget target path, Archive log], Inl (WriteArchiveFailed e))
                | (log, None) \<Rightarrow>
                    (case read_archive env name of
                       Inl e \<Rightarrow> ([BuiltTarget target path, Archive log], Inl (ReadArchive name e))
                     | Inr archive \<Rightarrow>
                         (case build_targets env builder version outdir staging readme targets
                                 (manifest @ manifest_line env archive name) of
                            (rest, r) \<Rightarrow> (BuiltTarget target path # Archive log # rest, r))))))"

definition Build ::
    "build_env \<Rightarrow> string \<Rightarrow> string \<Rightarrow> (Target \<Rightarrow> string \<Rightarrow> string \<Rightarrow> string option) option \<Rightarrow> build_event list \<times> build_error option" where
  "Build env outdir version builder =
     (if \<not> safeVersion version then ([], Some (InvalidVersion version))
      else (case builder of
        None \<Rightarrow> ([], Some BuilderRequired)
      | Some b \<Rightarrow>
          (case readme_file env of
             Inl e \<Rightarrow> ([], Some (ReadReadme e))
           | Inr readme \<Rightarrow>
               (case make_output env of
                  Some e \<Rightarrow> ([], Some (MakeDirectory e))
                | None \<Rightarrow>
                    (case make_staging env of
                       Inl e \<Rightarrow> ([], Some (MakeStaging e))
                     | Inr staging \<Rightarrow>
                         (case build_targets env b version outdir staging readme Targets [] of
                            (log, Inl e) \<Rightarrow> (MadeStaging staging # log @ [RemovedStaging staging], Some e)
                          | (log, Inr manifest) \<Rightarrow>
                              (case write_sums env of
                                 Some e \<Rightarrow> (MadeStaging staging # log @ [RemovedStaging staging], Some (WriteSums e))
                               | None \<Rightarrow>
                                   (MadeStaging staging # log @ [WroteSums manifest, RemovedStaging staging], None))))))))"

section \<open>The environment of the compiler\<close>

definition stamped :: "string \<Rightarrow> bool" where
  "stamped entry \<longleftrightarrow> HasPrefix entry ''CGO_ENABLED='' \<or> HasPrefix entry ''GOOS='' \<or> HasPrefix entry ''GOARCH=''"

definition releaseEnvironment :: "string list \<Rightarrow> Target \<Rightarrow> string list" where
  "releaseEnvironment current target =
     filter (\<lambda>entry. \<not> stamped entry) current @ [''CGO_ENABLED=0'', ''GOOS='' @ GOOS target, ''GOARCH='' @ GOARCH target]"

section \<open>The release command\<close>

text \<open>\<^verbatim>\<open>main\<close> of \<^verbatim>\<open>tools/release/main.go\<close>: its exit code and the steps of the build. \<open>args\<close> starts with the name of the
  program, \<open>env_of\<close> is the file system seen from the source directory, and \<open>execute\<close> runs a command.\<close>

record compiler_command =
  cmdArgs :: "string list"
  cmdDir :: string
  cmdEnv :: "string list"

definition compile_command :: "string \<Rightarrow> string list \<Rightarrow> Target \<Rightarrow> string \<Rightarrow> string \<Rightarrow> compiler_command" where
  "compile_command sourceRoot environ target output stampedVersion =
     \<lparr>cmdArgs = [''go'', ''build'', ''-trimpath'', ''-buildvcs=false'',
        ''-ldflags=-s -w -buildid= -X main.version='' @ stampedVersion, ''-o'', output, ''./cmd/delegate''],
      cmdDir = sourceRoot, cmdEnv = releaseEnvironment environ target\<rparr>"

definition release_main ::
    "(string, string) result \<Rightarrow> string list \<Rightarrow> (compiler_command \<Rightarrow> string option) \<Rightarrow> (string \<Rightarrow> build_env) \<Rightarrow> string list \<Rightarrow>
       nat \<times> build_event list" where
  "release_main getwd environ execute env_of args =
     (if length args \<noteq> 3 then (2, [])
      else (case getwd of
        Inl _ \<Rightarrow> (1, [])
      | Inr sourceRoot \<Rightarrow>
          (let build = (\<lambda>target output stampedVersion. execute (compile_command sourceRoot environ target output stampedVersion)) in
           case Build (env_of sourceRoot) (args ! 2) (args ! 1) (Some build) of
             (log, Some _) \<Rightarrow> (1, log)
           | (log, None) \<Rightarrow> (0, log))))"

section \<open>Lemmas\<close>

lemma safeVersion_char: "safeVersion v \<Longrightarrow> c \<in> set v \<Longrightarrow> version_char c \<or> c \<in> set ''._-''"
  by (auto simp: safeVersion_def list_all_iff split: list.splits)

lemma version_char_not_slash: "\<not> version_char CHR ''/'' \<and> \<not> version_char CHR 0x5C \<and> \<not> version_char CHR 0x0A"
  by (simp add: version_char_def in_range_def)

lemma ArchiveName_plain:
  assumes "safeVersion v" and "t \<in> set Targets"
  shows "CHR ''/'' \<notin> set (ArchiveName v t) \<and> CHR 0x5C \<notin> set (ArchiveName v t) \<and> CHR 0x0A \<notin> set (ArchiveName v t)"
  using assms(2) safeVersion_char [OF assms(1)] version_char_not_slash by (auto simp: Targets_def ArchiveName_def)

definition archive_log :: "build_env \<Rightarrow> string \<Rightarrow> string \<Rightarrow> string \<Rightarrow> Target \<Rightarrow> string \<Rightarrow> archive_event list" where
  "archive_log env outdir version readme t executable =
     [CreatedFile (join_path env outdir (ArchiveName version t)), AddedEntry (executable_name t) 493 executable,
      AddedEntry ''README.md'' 420 readme, Finalized, ClosedFile]"

lemma writeArchive_None:
  "writeArchive z d name exe readme = (log, None) \<Longrightarrow>
     log = [CreatedFile d, AddedEntry name 493 exe, AddedEntry ''README.md'' 420 readme, Finalized, ClosedFile]"
  by (auto simp: writeArchive_def split: option.splits prod.splits)

lemma build_targets_Inr:
  "build_targets env b version outdir staging readme ts manifest = (log, Inr m) \<Longrightarrow>
     \<exists>exes archives. list_all2 (\<lambda>t e. read_executable env t = Inr e) ts exes \<and>
       list_all2 (\<lambda>t a. read_archive env (ArchiveName version t) = Inr a) ts archives \<and>
       m = manifest @ concat (map (\<lambda>(t, a). manifest_line env a (ArchiveName version t)) (zip ts archives)) \<and>
       log = concat (map (\<lambda>(t, e). [BuiltTarget t (executable_path env staging t),
          Archive (archive_log env outdir version readme t e)]) (zip ts exes))"
proof (induction env b version outdir staging readme ts manifest arbitrary: log m rule: build_targets.induct)
  case (2 env b version outdir staging readme t ts manifest)
  let ?name = "ArchiveName version t"
  from "2.prems" obtain e zlog a rest where built: "b t (executable_path env staging t) version = None"
      "read_executable env t = Inr e"
      "writeArchive (zip_of env t) (join_path env outdir ?name) (executable_name t) e readme = (zlog, None)"
      "read_archive env ?name = Inr a"
      "build_targets env b version outdir staging readme ts (manifest @ manifest_line env a ?name) = (rest, Inr m)"
    and log: "log = BuiltTarget t (executable_path env staging t) # Archive zlog # rest"
    by (auto simp: Let_def split: option.splits sum.splits prod.splits)
  obtain exes archives where rest: "list_all2 (\<lambda>t e. read_executable env t = Inr e) ts exes"
    "list_all2 (\<lambda>t a. read_archive env (ArchiveName version t) = Inr a) ts archives"
    "m = (manifest @ manifest_line env a ?name) @ concat (map (\<lambda>(t, a). manifest_line env a (ArchiveName version t)) (zip ts archives))"
    "rest = concat (map (\<lambda>(t, e). [BuiltTarget t (executable_path env staging t),
          Archive (archive_log env outdir version readme t e)]) (zip ts exes))"
    using "2.IH" [OF refl built(1,2) refl built(3) [symmetric] refl built(4,5)] by blast
  have "zlog = archive_log env outdir version readme t e"
    using writeArchive_None [OF built(3)] by (simp add: archive_log_def)
  with rest built log show ?case by (intro exI [of _ "e # exes"] exI [of _ "a # archives"]) simp
qed simp

lemma build_targets_built:
  "build_targets env b version outdir staging readme ts manifest = (log, Inr m) \<Longrightarrow> t \<in> set ts \<Longrightarrow>
     b t (executable_path env staging t) version = None"
  by (induction env b version outdir staging readme ts manifest arbitrary: log m rule: build_targets.induct)
     (auto simp: Let_def split: option.splits sum.splits prod.splits)

lemma build_targets_no_sums:
  "build_targets env b version outdir staging readme ts manifest = (log, r) \<Longrightarrow> WroteSums m \<notin> set log"
  by (induction env b version outdir staging readme ts manifest arbitrary: log r rule: build_targets.induct)
     (fastforce simp: Let_def split: option.splits sum.splits prod.splits)+

lemma build_targets_no_staging:
  "build_targets env b version outdir staging readme ts manifest = (log, r) \<Longrightarrow> MadeStaging st \<notin> set log"
  by (induction env b version outdir staging readme ts manifest arbitrary: log r rule: build_targets.induct)
     (fastforce simp: Let_def split: option.splits sum.splits prod.splits)+

section \<open>Properties\<close>

text \<open>A release is complete or has no checksums. A build that succeeds was asked for a safe version, compiled and
  packed every supported target in order, each archive with exactly its executable and the README, under
  a name without a path separator, and wrote one checksum line for each archive as it is on disk; a build
  that fails wrote no checksum file; the staging directory is removed whenever it was made; and an unsafe
  version has no effect at all.\<close>

theorem Build_complete:
  assumes "Build env outdir version builder = (log, r)"
  shows "(r = None \<longrightarrow> safeVersion version \<and>
      (\<exists>staging readme exes archives.
         list_all2 (\<lambda>t e. read_executable env t = Inr e) Targets exes \<and>
         list_all2 (\<lambda>t a. read_archive env (ArchiveName version t) = Inr a) Targets archives \<and>
         log = MadeStaging staging # concat (map (\<lambda>(t, e). [BuiltTarget t (executable_path env staging t),
             Archive (archive_log env outdir version readme t e)]) (zip Targets exes)) @
           [WroteSums (concat (map (\<lambda>(t, a). manifest_line env a (ArchiveName version t)) (zip Targets archives))),
            RemovedStaging staging])) \<and>
    (r \<noteq> None \<longrightarrow> (\<forall>m. WroteSums m \<notin> set log)) \<and>
    (\<forall>st. MadeStaging st \<in> set log \<longrightarrow> last log = RemovedStaging st) \<and>
    (\<not> safeVersion version \<longrightarrow> log = [] \<and> r \<noteq> None) \<and>
    (safeVersion version \<longrightarrow> distinct (map (ArchiveName version) Targets) \<and>
      (\<forall>t \<in> set Targets. CHR ''/'' \<notin> set (ArchiveName version t) \<and> CHR 0x5C \<notin> set (ArchiveName version t)))"
proof -
  have names: "distinct (map (ArchiveName version) Targets)" by (simp add: Targets_def ArchiveName_def)
  consider (early) "log = []" "r \<noteq> None"
    | (staged) b readme staging l x where "safeVersion version"
        "build_targets env b version outdir staging readme Targets [] = (l, x)"
        "(\<exists>e. r = Some e) \<and> log = MadeStaging staging # l @ [RemovedStaging staging] \<or>
         (\<exists>m. x = Inr m \<and> r = None \<and> log = MadeStaging staging # l @ [WroteSums m, RemovedStaging staging])"
    using assms by (auto simp: Build_def split: if_splits option.splits sum.splits prod.splits)
  then show ?thesis
  proof cases
    case early
    then show ?thesis using names ArchiveName_plain by auto
  next
    case staged
    have "MadeStaging st \<notin> set l" for st
      using staged(2) by (rule build_targets_no_staging)
    with staged build_targets_no_sums [OF staged(2)] build_targets_Inr [of env b version outdir staging readme Targets "[]" l]
      names ArchiveName_plain show ?thesis by auto blast
  qed
qed

abbreviation good_zip :: zip_env where
  "good_zip \<equiv> \<lparr>create_error = None, header_error = (\<lambda>_. None), write_error = (\<lambda>_. None), finalize_error = None, close_error = None\<rparr>"

abbreviation good_build :: build_env where
  "good_build \<equiv> \<lparr>join_path = (\<lambda>d n. d @ ''/'' @ n), readme_file = Inr ''read me'', make_output = None, make_staging = Inr ''/tmp/s'',
     read_executable = (\<lambda>t. Inr (GOOS t)), zip_of = (\<lambda>_. good_zip), read_archive = (\<lambda>n. Inr n), sha256_hex = (\<lambda>a. ''00''),
     write_sums = None\<rparr>"

theorem Build_complete_witness:
  "\<exists>log. Build good_build ''out'' ''1.0'' (Some (\<lambda>_ _ _. None)) = (log, None) \<and> safeVersion ''1.0'' \<and>
     last log = RemovedStaging ''/tmp/s''"
proof -
  have "safeVersion ''1.0''" by (simp add: safeVersion_def version_char_def in_range_def)
  then obtain log where run: "Build good_build ''out'' ''1.0'' (Some (\<lambda>_ _ _. None)) = (log, None)" "MadeStaging ''/tmp/s'' \<in> set log"
    by (simp add: Build_def Targets_def writeArchive_def Let_def)
  from Build_complete [OF run(1)] run show ?thesis by blast
qed

text \<open>The compiler's environment is exactly stamped. Besides the caller's other variables, in their order, it has
  each of the three build variables once, with the values of the target, whatever the caller had set.\<close>

theorem releaseEnvironment_exact:
  "filter stamped (releaseEnvironment current target) =
     [''CGO_ENABLED=0'', ''GOOS='' @ GOOS target, ''GOARCH='' @ GOARCH target] \<and>
   filter (\<lambda>e. \<not> stamped e) (releaseEnvironment current target) = filter (\<lambda>e. \<not> stamped e) current"
  by (auto simp: releaseEnvironment_def stamped_def HasPrefix_def filter_empty_conv)

text \<open>Exit code 0 of the release command means a complete release of what was asked for: three arguments, a safe
  version, and for every target one successful run of the compiler in the source directory, in the exact
  environment of that target. The version is stamped by a flag that is one argument without further blanks,
  so a version text cannot smuggle in linker flags.\<close>

theorem release_main_exit:
  assumes "release_main getwd environ execute env_of args = (0, log)"
  shows "\<exists>name version outdir sourceRoot staging. args = [name, version, outdir] \<and> getwd = Inr sourceRoot \<and> safeVersion version \<and>
    CHR '' '' \<notin> set version \<and> last log = RemovedStaging staging \<and>
    (\<forall>t \<in> set Targets. execute (compile_command sourceRoot environ t (executable_path (env_of sourceRoot) staging t) version) = None)"
proof -
  from assms obtain name version outdir where args: "args = [name, version, outdir]"
    by (auto simp: release_main_def numeral_3_eq_3 length_Suc_conv split: if_splits)
  with assms obtain sourceRoot where root: "getwd = Inr sourceRoot"
    and run: "Build (env_of sourceRoot) outdir version
      (Some (\<lambda>target output v. execute (compile_command sourceRoot environ target output v))) = (log, None)"
    by (auto simp: release_main_def Let_def split: sum.splits prod.splits option.splits)
  from run have safe: "safeVersion version" by (auto simp: Build_def split: if_splits)
  then have "CHR '' '' \<notin> set version"
    using safeVersion_char [of version "CHR '' ''"] by (auto simp: version_char_def in_range_def)
  moreover from run safe obtain staging readme l m where
    "build_targets (env_of sourceRoot) (\<lambda>target output v. execute (compile_command sourceRoot environ target output v))
       version outdir staging readme Targets [] = (l, Inr m)"
    "log = MadeStaging staging # l @ [WroteSums m, RemovedStaging staging]"
    by (auto simp: Build_def split: if_splits option.splits sum.splits prod.splits)
  note built = this
  have "\<forall>t \<in> set Targets. execute (compile_command sourceRoot environ t (executable_path (env_of sourceRoot) staging t) version) = None"
    using build_targets_built [OF built(1)] by blast
  moreover have "last log = RemovedStaging staging" using built(2) by simp
  ultimately show ?thesis using args root safe by blast
qed

end
