(* ===== verification/Spec2Isabelle.thy ===== *)
theory Spec2Isabelle
  imports Delegate Egress Relay Tailcat_Ingress Tailcat_Adapter Tailcat_Listener Socks5 Compatibility Release
begin

text \<open>
  A verification development of \<^verbatim>\<open>new-delegate\<close>, a protocol gateway in Go. The program accepts HTTP requests
  (and \<^verbatim>\<open>CONNECT\<close> tunnels), maps them through configured mounts to backends, lets a policy decide, and
  performs the operation with an HTTP, FTP or TCP connector; it can also bridge a listening address to a
  dialled one. The theories follow the source, which is under \<^verbatim>\<open>src/\<close>.

  \<^bold>\<open>How the parts interact.\<close> \<^verbatim>\<open>cmd/delegate/main.go\<close> reads a configuration from TOML or from legacy directives,
  validates it, publishes it in a store that reload signals replace, loads TLS identities, binds the
  listeners and runs one HTTP server for each. The handler of a server takes a snapshot of the store for
  each request, normalises the path, resolves the mount, finds the client address, evaluates the policy
  and performs the operation. The explanation command runs the same resolver and policy without a
  backend.

  \<^bold>\<open>Foundations.\<close> \<open>Prelude\<close>: results, checks in sequence, list lemmas. \<open>Go_Strings\<close>, \<open>Go_Net\<close>, \<open>Go_URL\<close>: the functions of
  Go's standard library that the code calls on strings, addresses and URLs, on byte strings. \<open>URL_Shape\<close>:
  which parts of a text \<^verbatim>\<open>url.Parse\<close> finds, and what writing a parsed URL and reading it again gives. \<open>Headers\<close>: HTTP
  headers as association lists, with \<^verbatim>\<open>sanitizeHeader\<close> of \<^verbatim>\<open>server/http.go\<close>. \<open>Selection\<close>: the locale for choosing
  the strictly best of a list of candidates. \<open>Simulation\<close>: locales for step relations, one for a machine that
  projects to a part of it and one for machines that wind down by a decreasing weight.

  \<^bold>\<open>Configuration.\<close> \<open>Mount_Path\<close> (\<^verbatim>\<open>mount/path.go\<close>), \<open>Mount\<close> (\<^verbatim>\<open>mount/mount.go\<close>), \<open>Policy\<close> (\<^verbatim>\<open>policy/policy.go\<close>),
  \<open>Tlsconfig\<close> (\<^verbatim>\<open>tlsconfig/tlsconfig.go\<close>), \<open>Config\<close> (\<^verbatim>\<open>config/config.go\<close>, \<^verbatim>\<open>config/toml.go\<close>), \<open>Store\<close> (\<^verbatim>\<open>config/store.go\<close>,
  \<^verbatim>\<open>config/reload.go\<close>), \<open>Legacy\<close> (\<^verbatim>\<open>config/legacy.go\<close>). Records have the fields of the Go structs with a letter in
  front where names would clash (\<open>mPath\<close>, \<open>sName\<close>); each error return is a constructor of an error datatype.
  The lemmas characterise exactly what is accepted, show that the order of checks or rules does not matter
  where it should not, and that the store only ever holds valid configurations.

  \<^bold>\<open>Requests.\<close> \<open>Mount_Resolve\<close> (\<^verbatim>\<open>mount/resolve.go\<close>), \<open>Clientaddr\<close> (\<^verbatim>\<open>clientaddr/clientaddr.go\<close>), \<open>Operation\<close>
  (\<^verbatim>\<open>operation/operation.go\<close>), \<open>Http_Server\<close> (\<^verbatim>\<open>ServeHTTP\<close> of \<^verbatim>\<open>server/http.go\<close> as \<open>serve_operation\<close>), \<open>Http_Connect\<close>
  (\<^verbatim>\<open>serveCONNECT\<close> with \<^verbatim>\<open>connector/tcp.go\<close>, and the whole handler \<open>ServeHTTP\<close>), \<open>Handler\<close> (the handler record, its
  constructors, and what operations and tunnels have in common as the locale \<open>guarded_handler\<close>), \<open>Destination\<close> (where
  a request goes, across resolver, policy and connectors), \<open>Egress\<close> (the same for a whole gateway, up to the one
  exchange or FTP session), \<open>Explain\<close> (\<^verbatim>\<open>explain/explain.go\<close>). What
  is outside the process is one state \<open>'s\<close>, which connectors take and return; a handler changes it only
  through an operation, so "nothing outside changes" is an equation. The theorems say which requests may
  change it, with which answer each other request ends, how much of an upload a connector sees, under which
  conditions on the mapping a client cannot choose the host or inject FTP commands, and that explanation and
  handler agree, with the one exception of a URL whose path is empty.

  \<^bold>\<open>Connectors.\<close> \<open>Ftp_Reply\<close> and \<open>Ftp\<close> (\<^verbatim>\<open>connector/ftp.go\<close>): the dialogue is a state monad with errors over a
  session record; a peer is a record of functions (what it answers to each command in each state, what
  dialling does), so a theorem for every peer covers hostile ones. \<open>Routes\<close> (\<^verbatim>\<open>connector/http.go\<close>,
  \<^verbatim>\<open>connector/routes.go\<close>). A body is a \<open>stream\<close>: its bytes and how it ends.

  \<^bold>\<open>Lifecycle.\<close> \<open>Registry\<close> (the session registry of \<^verbatim>\<open>server/lifecycle.go\<close> and the one of \<^verbatim>\<open>link/bridge.go\<close>, both
  interpretations of the locale \<open>conn_registry\<close>), \<open>Server_Lifecycle\<close> (\<^verbatim>\<open>Serve\<close> and \<^verbatim>\<open>server/group.go\<close>), \<open>Bridge\<close>
  (\<^verbatim>\<open>Serve\<close> of \<^verbatim>\<open>link/bridge.go\<close>), \<open>Relay\<close> (its \<^verbatim>\<open>copyHalf\<close> and the \<^verbatim>\<open>copyRelay\<close> of \<^verbatim>\<open>server/http.go\<close>, read by read and
  write by write), \<open>Address_Route\<close> (\<^verbatim>\<open>cmd/delegate/address_route.go\<close> around the bridge), \<open>Runtime\<close> (\<^verbatim>\<open>tlsruntime/\<close>,
  \<^verbatim>\<open>cmd/delegate/http_runtime.go\<close>), \<open>Command\<close> (\<^verbatim>\<open>run\<close> and \<^verbatim>\<open>runCommand\<close> of \<^verbatim>\<open>cmd/delegate/main.go\<close>), \<open>Process\<close>
  (\<^verbatim>\<open>serveHTTP\<close>, \<^verbatim>\<open>watchReload\<close>) and \<open>Delegate\<close> (\<^verbatim>\<open>main\<close> and the reload signals).
  Concurrency is modelled in two ways. Where one goroutine's view is enough (\<open>Http_Connect\<close>,
  \<open>Server_Lifecycle\<close>), what the others do to the shared registry between its steps is an argument, a list
  of registry events, and the theorems hold for all lists; for \<open>Serve\<close>, for all without a forced close, since
  only \<open>Serve\<close> makes one. Where the interleaving itself is the matter
  (\<open>Bridge\<close>, \<open>Tailcat_Listener\<close>, \<open>Relay\<close>), all goroutines together are a step relation with invariants by rule
  induction; \<open>Bridge\<close> separates the steps that happen by themselves from those that need the outside,
  bounds the length of every run after a cancellation by \<open>bweight\<close> and shows that no such run gets stuck.
  Machines are composed by synchronising their steps: \<open>Tailcat_Ingress\<close> runs the bridge on the Tailcat listener,
  \<open>Address_Route\<close> adds the deferred close of the listener; projections carry the invariants over, and
  weights are added up. \<open>Relay\<close> refines the two flags that \<open>Bridge\<close> keeps of a relay. \<open>Process\<close> and \<open>Delegate\<close>
  put the sequential pieces together: \<open>gateway_guarded\<close> speaks of a started gateway after any reloads,
  \<open>main_exit_zero\<close> of the whole program, with each of the ways in which it exits with 0.

  \<^bold>\<open>Other frontends and tools.\<close> \<open>Socks5\<close> (\<^verbatim>\<open>socks5/socks5.go\<close>), \<open>Endpoint\<close> (\<^verbatim>\<open>endpoint/address.go\<close>), \<open>Pairing\<close>,
  \<open>Tailcat_Adapter\<close>, \<open>Tailcat_Listener\<close> and \<open>Tailcat_Ingress\<close> (\<^verbatim>\<open>link/tailcat.go\<close>, \<^verbatim>\<open>link/tailcat_adapter.go\<close>), \<open>Compatibility\<close>
  (\<^verbatim>\<open>compatibility/\<close>), \<open>Release\<close> (\<^verbatim>\<open>release/release.go\<close>, \<^verbatim>\<open>tools/release/main.go\<close>).

  \<^bold>\<open>Bounds and termination.\<close> No definition takes fuel: loops over bytes are structural or have a measure, so
  every function is total. An FTP reply is decided by at most twice the reply limit plus one byte
  (\<open>ReadReply_decides\<close>), a SOCKS5 request by 262 bytes, a pairing line by 4098. Widths are kept where the
  code has them: ports are \<open>16 word\<close>, outcomes and SOCKS5 bytes \<open>8 word\<close>, addresses \<open>32 word\<close> and \<open>128 word\<close>.

  \<^bold>\<open>Parameters.\<close> Third-party and operating system code is an argument of the definitions that use it: the TOML
  and JSON decoders, the file system, certificate parsing, sockets and dialers, \<^verbatim>\<open>http.Client\<close> (one exchange
  of a request for a response) and \<^verbatim>\<open>http.Server\<close> (when its \<^verbatim>\<open>Serve\<close> and \<^verbatim>\<open>Shutdown\<close> return what), the Tailcat
  client and server, the reference program of the compatibility harness, the zip writer and SHA-256.

  \<^bold>\<open>Assumptions of the step relations.\<close> In \<open>Bridge\<close> a dial ends when its context is cancelled, a copy ends when its
  source and its destination are both closed, \<^verbatim>\<open>Accept\<close> fails once its listener is closed, timers fire, and connections that
  are accepted or dialled are new.

  \<^bold>\<open>Not modelled.\<close> The passing of time: deadlines and timeouts have their values, but when they expire is a choice
  of the environment. The texts of errors and logs. HTTP parsing, which \<^verbatim>\<open>net/http\<close> does: a request is a
  parsed record. The tables of net/http and crypto/tls: a client is a function from a request and its TLS
  configuration to a response. The delivery of operating system signals, of which only the one-place channel
  is modelled.
\<close>

end
